(* ===== verification/Rafka_Prelude.thy ===== *)
theory Rafka_Prelude
  imports Main "HOL-Library.AList" "HOL-Library.Multiset" "HOL-Library.Word"
begin

text \<open>
  Shared vocabulary of the development: the ways a Rust call can end (it returns, it
  panics, it blocks for ever on a lock), fixed-width arithmetic with the overflow behaviour
  of both build profiles, clock values, hash maps as association lists with an explicit
  iteration order, byte strings with the two length-prefix encodings the code uses, and the
  interface locales that several components instantiate.
\<close>

section \<open>How a call ends\<close>

text \<open>
  \<open>Ret v\<close>: the call returns \<open>v\<close>. \<open>Panic\<close>: the thread panics. \<open>Block\<close>: the thread waits
  for a lock that nobody will release.
\<close>

datatype 'a outcome = Ret 'a | Panic | Block

named_theorems hashmap_simps \<open>look-up and key laws of the association-list hash maps\<close>

section \<open>Fixed-width integers\<close>

text \<open>
  Rust integers are kept as \<open>int\<close> or \<open>nat\<close> values with the range check written out. The flag
  \<open>ovf\<close> is the build profile: with overflow checks (the \<open>dev\<close> profile) a result out of range
  panics, without them (the \<open>release\<close> profile) it wraps. \<open>usize\<close> is 64 bits wide.
\<close>

definition wrap_s :: "nat \<Rightarrow> int \<Rightarrow> int" where
  "wrap_s w z = (z + 2 ^ (w - 1)) mod 2 ^ w - 2 ^ (w - 1)"

definition wrap_u :: "nat \<Rightarrow> int \<Rightarrow> nat" where
  "wrap_u w z = nat (z mod 2 ^ w)"

definition in_s :: "nat \<Rightarrow> int \<Rightarrow> bool" where
  "in_s w z \<longleftrightarrow> - (2 ^ (w - 1)) \<le> z \<and> z < 2 ^ (w - 1)"

definition in_u :: "nat \<Rightarrow> int \<Rightarrow> bool" where
  "in_u w z \<longleftrightarrow> 0 \<le> z \<and> z < 2 ^ w"

definition arith_s :: "nat \<Rightarrow> bool \<Rightarrow> int \<Rightarrow> int outcome" where
  "arith_s w ovf z = (if in_s w z then Ret z else if ovf then Panic else Ret (wrap_s w z))"

definition arith_u :: "nat \<Rightarrow> bool \<Rightarrow> int \<Rightarrow> nat outcome" where
  "arith_u w ovf z = (if in_u w z then Ret (nat z) else if ovf then Panic else Ret (wrap_u w z))"

section \<open>Clock values\<close>

text \<open>
  A \<open>SystemTime\<close> is the number of nanoseconds since the Unix epoch, a \<open>Duration\<close> a number of
  nanoseconds. The system clock is not monotone, so every reading of it is an argument of the
  operation that takes it, with no relation between readings assumed.
\<close>

type_synonym systime = int
type_synonym duration = nat

definition secs :: "nat \<Rightarrow> duration" where
  "secs n = n * 1000000000"

definition millis :: "nat \<Rightarrow> duration" where
  "millis n = n * 1000000"

definition as_secs :: "duration \<Rightarrow> nat" where
  "as_secs d = d div 1000000000"

definition duration_since :: "systime \<Rightarrow> systime \<Rightarrow> duration option" where
  "duration_since now earlier = (if earlier \<le> now then Some (nat (now - earlier)) else None)"

text \<open>
  \<open>SystemTime::now().duration_since(UNIX_EPOCH).unwrap().as_secs()\<close> panics if the clock is set
  before 1970.
\<close>

definition unix_secs :: "systime \<Rightarrow> nat outcome" where
  "unix_secs now = (case duration_since now 0 of Some d \<Rightarrow> Ret (as_secs d) | None \<Rightarrow> Panic)"

text \<open>What a remote call gives its caller: an error text or an answer; it may also never return.\<close>

type_synonym 'a answer = "(string + 'a) outcome"

text \<open>A sequence of state-changing steps; the first that does not return ends it.\<close>

fun run_ops :: "('s \<Rightarrow> unit outcome \<times> 's) list \<Rightarrow> 's \<Rightarrow> unit outcome \<times> 's" where
  "run_ops [] s = (Ret (), s)"
| "run_ops (f # fs) s =
     (case f s of
        (Ret _, s') \<Rightarrow> run_ops fs s'
      | (Panic, s') \<Rightarrow> (Panic, s')
      | (Block, s') \<Rightarrow> (Block, s'))"

section \<open>Hash maps\<close>

text \<open>
  A \<open>HashMap\<close> or \<open>DashMap\<close> is an association list with distinct keys. The order in which Rust
  iterates over one is unspecified: an operation whose result depends on it takes the order as
  an argument \<open>\<pi>\<close>, a function that permutes the list of entries.
\<close>

type_synonym ('k, 'v) hashmap = "('k \<times> 'v) list"

abbreviation hm_get :: "('k, 'v) hashmap \<Rightarrow> 'k \<Rightarrow> 'v option" where
  "hm_get m k \<equiv> map_of m k"

abbreviation hm_contains :: "('k, 'v) hashmap \<Rightarrow> 'k \<Rightarrow> bool" where
  "hm_contains m k \<equiv> map_of m k \<noteq> None"

abbreviation hm_insert :: "'k \<Rightarrow> 'v \<Rightarrow> ('k, 'v) hashmap \<Rightarrow> ('k, 'v) hashmap" where
  "hm_insert k v m \<equiv> AList.update k v m"

abbreviation hm_remove :: "'k \<Rightarrow> ('k, 'v) hashmap \<Rightarrow> ('k, 'v) hashmap" where
  "hm_remove k m \<equiv> AList.delete k m"

abbreviation hm_wf :: "('k, 'v) hashmap \<Rightarrow> bool" where
  "hm_wf m \<equiv> distinct (map fst m)"

definition hash_order :: "('a list \<Rightarrow> 'a list) \<Rightarrow> bool" where
  "hash_order \<pi> \<longleftrightarrow> (\<forall>xs. mset (\<pi> xs) = mset xs)"

section \<open>Decimal numbers\<close>

fun show_nat :: "nat \<Rightarrow> string" where
  "show_nat n = (if n < 10 then [char_of (48 + n)] else show_nat (n div 10) @ [char_of (48 + n mod 10)])"

declare show_nat.simps [simp del]

definition show_int :: "int \<Rightarrow> string" where
  "show_int z = (if z < 0 then CHR ''-'' # show_nat (nat (- z)) else show_nat (nat z))"

section \<open>Bytes and length prefixes\<close>

type_synonym byte = "8 word"

definition string_bytes :: "string \<Rightarrow> byte list" where
  "string_bytes s = map of_char s"

fun to_le :: "nat \<Rightarrow> nat \<Rightarrow> byte list" where
  "to_le 0 n = []"
| "to_le (Suc k) n = word_of_nat (n mod 256) # to_le k (n div 256)"

fun from_le :: "byte list \<Rightarrow> nat" where
  "from_le [] = 0"
| "from_le (b # bs) = unat b + 256 * from_le bs"

definition to_be :: "nat \<Rightarrow> nat \<Rightarrow> byte list" where
  "to_be k n = rev (to_le k n)"

definition from_be :: "byte list \<Rightarrow> nat" where
  "from_be bs = from_le (rev bs)"

text \<open>The frame of a payload: the encoded length followed by the payload.\<close>

definition frame :: "(nat \<Rightarrow> byte list) \<Rightarrow> byte list \<Rightarrow> byte list" where
  "frame enc m = enc (length m) @ m"

section \<open>Laws of the arithmetic\<close>

lemma arith_s_ok [simp]: "in_s w z \<Longrightarrow> arith_s w ovf z = Ret z"
  by (simp add: arith_s_def)

lemma arith_u_ok [simp]: "in_u w z \<Longrightarrow> arith_u w ovf z = Ret (nat z)"
  by (simp add: arith_u_def)

lemma arith_s_no_block [simp]: "arith_s w ovf z \<noteq> Block"
  by (simp add: arith_s_def)

lemma arith_u_no_block [simp]: "arith_u w ovf z \<noteq> Block"
  by (simp add: arith_u_def)

lemma arith_s_release [simp]: "arith_s w False z \<noteq> Panic"
  by (simp add: arith_s_def)

lemma wrap_s_in_s: "0 < w \<Longrightarrow> in_s w (wrap_s w z)"
proof -
  assume "0 < w"
  then have "(2::int) ^ w = 2 * 2 ^ (w - 1)"
    by (metis Suc_diff_1 power_Suc)
  moreover have "0 \<le> (z + 2 ^ (w - 1)) mod 2 ^ w" "(z + 2 ^ (w - 1)) mod 2 ^ w < (2::int) ^ w"
    by simp_all
  ultimately show ?thesis by (simp add: in_s_def wrap_s_def)
qed

lemma arith_s_range: "0 < w \<Longrightarrow> arith_s w ovf z = Ret r \<Longrightarrow> in_s w r"
  by (auto simp: arith_s_def wrap_s_in_s split: if_splits)

lemma duration_since_Some:
  "duration_since now t = Some d \<longleftrightarrow> t \<le> now \<and> d = nat (now - t)"
  by (auto simp: duration_since_def)

lemma unix_secs_ok [simp]: "0 \<le> now \<Longrightarrow> unix_secs now = Ret (nat now div 1000000000)"
  by (simp add: unix_secs_def duration_since_def as_secs_def)

lemma run_ops_inv:
  assumes "\<And>f s. f \<in> set fs \<Longrightarrow> P s \<Longrightarrow> P (snd (f s))" and "P s"
  shows "P (snd (run_ops fs s))"
  using assms
proof (induction fs arbitrary: s)
  case (Cons f fs)
  obtain r s' where f: "f s = (r, s')" by fastforce
  have "P s'" using Cons.prems(1) [of f s] Cons.prems(2) f by simp
  with Cons.IH [of s'] Cons.prems(1) f show ?case by (cases r) simp_all
qed simp

section \<open>Laws of the hash maps\<close>

lemmas [hashmap_simps] = AList.update_conv' AList.delete_conv' AList.map_of_map_entry
  AList.distinct_update AList.distinct_delete AList.distinct_map_entry AList.map_ran_conv
  AList.distinct_map_ran

lemma hash_order_set: "hash_order \<pi> \<Longrightarrow> set (\<pi> xs) = set xs"
  unfolding hash_order_def by (metis set_mset_mset)

lemma hash_order_length: "hash_order \<pi> \<Longrightarrow> length (\<pi> xs) = length xs"
  unfolding hash_order_def by (metis size_mset)

lemma hash_order_Nil: "hash_order \<pi> \<Longrightarrow> (\<pi> xs = []) = (xs = [])"
  unfolding hash_order_def by (metis mset_zero_iff)

lemma hash_order_id [simp]: "hash_order (\<lambda>xs. xs)"
  by (simp add: hash_order_def)

lemma hash_order_rev [simp]: "hash_order rev"
  by (simp add: hash_order_def)

lemma hm_get_in_set: "hm_wf m \<Longrightarrow> (hm_get m k = Some v) = ((k, v) \<in> set m)"
  by simp

lemma hm_keys_dom: "set (map fst m) = dom (hm_get m)"
  by (simp add: dom_map_of_conv_image_fst)

lemma update_fresh: "k \<notin> fst ` set m \<Longrightarrow> hm_insert k v m = m @ [(k, v)]"
  by (induction m) auto

lemma concat_unique_key:
  "hm_wf m \<Longrightarrow> distinct (concat (map snd m)) \<Longrightarrow> x \<in> set (concat (map snd m)) \<Longrightarrow>
   \<exists>!k. \<exists>vs. (k, vs) \<in> set m \<and> x \<in> set vs"
proof (induction m)
  case (Cons e m)
  obtain k vs where e: "e = (k, vs)" by (cases e)
  show ?case
  proof (cases "x \<in> set vs")
    case True
    with Cons.prems e have "\<not> (\<exists>k' vs'. (k', vs') \<in> set m \<and> x \<in> set vs')" by fastforce
    with True e show ?thesis by auto
  next
    case False
    with Cons e have "\<exists>!k. \<exists>vs. (k, vs) \<in> set m \<and> x \<in> set vs" by auto
    with False e show ?thesis by auto
  qed
qed simp

lemma update_nth: "hm_wf m \<Longrightarrow> j < length m \<Longrightarrow> hm_insert (fst (m ! j)) v m = m[j := (fst (m ! j), v)]"
  by (induction m arbitrary: j) (auto simp: nth_Cons' less_Suc_eq_0_disj)

lemma hm_insert_all:
  "(\<forall>(k, v) \<in> set m. P k v) \<Longrightarrow> P k v \<Longrightarrow> (\<forall>(k, v) \<in> set (hm_insert k v m). P k v)"
  by (induction m) auto

lemma map_entry_all:
  "(\<forall>(k, v) \<in> set m. P k v) \<Longrightarrow> (\<And>v. P k v \<Longrightarrow> P k (f v)) \<Longrightarrow> (\<forall>(k, v) \<in> set (AList.map_entry k f m). P k v)"
  by (induction m) auto

lemma wrap_u_id: "0 \<le> n \<Longrightarrow> n < 2 ^ w \<Longrightarrow> wrap_u w n = nat n"
  by (simp add: wrap_u_def)

text \<open>Casting an unsigned number to the signed type of the same width and back.\<close>

lemma wrap_u_wrap_s: "n < 2 ^ w \<Longrightarrow> wrap_u w (wrap_s w (int n)) = n"
proof -
  assume n: "n < 2 ^ w"
  have "((int n + 2 ^ (w - 1)) mod 2 ^ w - 2 ^ (w - 1)) mod 2 ^ w = int n mod 2 ^ w" by (simp add: mod_simps)
  then show ?thesis using n by (simp add: wrap_u_def wrap_s_def)
qed

lemma map_of_map_values:
  "map_of (map (\<lambda>(k, v). (k, f k v)) m) k = map_option (f k) (map_of m k)"
  by (induction m) auto

lemma hm_insert_same: "hm_get m k = Some v \<Longrightarrow> hm_insert k v m = m"
  by (induction m) (auto split: if_splits)

lemma map_of_filter_key:
  "hm_wf m \<Longrightarrow> map_of (filter P m) k = (case map_of m k of Some v \<Rightarrow> if P (k, v) then Some v else None | None \<Rightarrow> None)"
  by (induction m) (auto split: option.splits simp: rev_image_eqI dest!: map_of_SomeD)

lemma filter_hm_wf: "hm_wf m \<Longrightarrow> hm_wf (filter P m)"
  by (induction m) auto

section \<open>Laws of the byte encodings\<close>

lemma byte_bound: "unat (b :: byte) < 256"
  using unsigned_less [of b] by simp

lemma to_le_length [simp]: "length (to_le k n) = k"
  by (induction k arbitrary: n) auto

lemma to_le_numeral:
  "to_le (numeral k) n = word_of_nat (n mod 256) # to_le (pred_numeral k) (n div 256)"
  by (simp only: numeral_eq_Suc to_le.simps)

lemma from_to_le: "n < 256 ^ k \<Longrightarrow> from_le (to_le k n) = n"
proof (induction k arbitrary: n)
  case (Suc k)
  then have "n div 256 < 256 ^ k" by (simp add: less_mult_imp_div_less mult.commute)
  then have "from_le (to_le k (n div 256)) = n div 256" by (rule Suc.IH)
  moreover have "unat (word_of_nat (n mod 256) :: byte) = n mod 256"
    by (simp add: unat_of_nat)
  ultimately show ?case by simp
qed simp

lemma to_from_le: "length bs = k \<Longrightarrow> to_le k (from_le bs) = bs"
proof (induction bs arbitrary: k)
  case (Cons b bs)
  from byte_bound [of b] have "(unat b + 256 * from_le bs) div 256 = from_le bs"
    and "(unat b + 256 * from_le bs) mod 256 = unat b" by simp_all
  with Cons show ?case by (cases k) simp_all
qed simp

lemma from_le_bound: "from_le bs < 256 ^ length bs"
proof (induction bs)
  case (Cons b bs)
  with byte_bound [of b] show ?case by simp
qed simp

lemma to_be_length [simp]: "length (to_be k n) = k"
  by (simp add: to_be_def)

lemma from_to_be: "n < 256 ^ k \<Longrightarrow> from_be (to_be k n) = n"
  by (simp add: to_be_def from_be_def from_to_le)

lemma to_from_be: "length bs = k \<Longrightarrow> to_be k (from_be bs) = bs"
  by (simp add: to_be_def from_be_def to_from_le)

section \<open>Interface: length-prefixed frames\<close>

text \<open>
  A fixed-width length encoding with its decoder. Both record formats of the program, the
  big-endian batch of the zero-copy processor and the little-endian write-ahead log, are
  frames over such an encoding.
\<close>

locale length_prefix =
  fixes w :: nat
    and enc :: "nat \<Rightarrow> byte list"
    and dec :: "byte list \<Rightarrow> nat"
  assumes enc_length: "length (enc n) = w"
    and dec_enc: "n < 256 ^ w \<Longrightarrow> dec (enc n) = n"
    and enc_dec: "length bs = w \<Longrightarrow> enc (dec bs) = bs"
begin

lemma frame_length: "length (frame enc m) = w + length m"
  by (simp add: frame_def enc_length)

lemma frame_prefix: "length m < 256 ^ w \<Longrightarrow> dec (take w (frame enc m @ r)) = length m"
  by (simp add: frame_def enc_length dec_enc)

lemma frame_payload: "take (length m) (drop w (frame enc m @ r)) = m"
  by (simp add: frame_def enc_length)

lemma frame_rest: "drop (length m) (drop w (frame enc m @ r)) = r"
  by (simp add: frame_def enc_length)

text \<open>A prefix and as many bytes as it announces are the frame of those bytes.\<close>

lemma frame_unique:
  assumes "w + dec (take w bs) \<le> length bs"
  shows "frame enc (take (dec (take w bs)) (drop w bs)) @ drop (dec (take w bs)) (drop w bs) = bs"
proof -
  have "length (take (dec (take w bs)) (drop w bs)) = dec (take w bs)"
    using assms by simp
  moreover have "enc (dec (take w bs)) = take w bs"
    using assms by (intro enc_dec) simp
  ultimately have "frame enc (take (dec (take w bs)) (drop w bs))
      = take w bs @ take (dec (take w bs)) (drop w bs)"
    by (simp add: frame_def)
  then show ?thesis by (metis append.assoc append_take_drop_id)
qed

lemma frames_length: "length (concat (map (frame enc) ms)) = sum_list (map length ms) + w * length ms"
  by (induction ms) (simp_all add: frame_length)

end

interpretation be32: length_prefix 4 "to_be 4" from_be
  by unfold_locales (simp_all add: from_to_be to_from_be)

interpretation le64: length_prefix 8 "to_le 8" from_le
  by unfold_locales (simp_all add: from_to_le to_from_le)

section \<open>Interface: transition systems with an invariant\<close>

text \<open>
  A component that is driven by its callers is a start state and a step relation; an invariant
  that holds at the start and is kept by every step holds in every state the callers can reach.
\<close>

locale invariant_system =
  fixes init :: "'s \<Rightarrow> bool"
    and step :: "'s \<Rightarrow> 's \<Rightarrow> bool"
    and inv :: "'s \<Rightarrow> bool"
  assumes inv_init: "init s \<Longrightarrow> inv s"
    and inv_step: "inv s \<Longrightarrow> step s t \<Longrightarrow> inv t"
begin

lemma inv_steps: "step\<^sup>*\<^sup>* s t \<Longrightarrow> inv s \<Longrightarrow> inv t"
  by (induction rule: rtranclp_induct) (auto intro: inv_step)

lemma inv_reachable: "init s \<Longrightarrow> step\<^sup>*\<^sup>* s t \<Longrightarrow> inv t"
  by (blast intro: inv_init inv_steps)

end

end
