(* ===== verification/Zero_Copy.thy ===== *)
theory Zero_Copy
  imports Rafka_Prelude
begin

text \<open>
  The zero-copy batch codec of \<^verbatim>\<open>crates/core/src/zero_copy.rs\<close>: a bounded byte buffer
  (\<open>ZeroCopyBuffer\<close>) and a processor that frames a batch of messages into its output buffer
  (\<open>process_batch\<close>) and parses such a batch back (\<open>parse_batch\<close>). Each buffer sits behind its
  own lock; the definitions run one call at a time.
\<close>

section \<open>The bounded buffer\<close>

datatype zc_error = BufferExceeded | BatchSizeExceeded | IncompleteLengthPrefix | IncompleteMessageData

record zc_buffer =
  zc_bytes :: "byte list"
  zc_max_size :: nat

definition zc_new :: "nat \<Rightarrow> zc_buffer" where
  "zc_new max_size = \<lparr>zc_bytes = [], zc_max_size = max_size\<rparr>"

definition zc_append :: "zc_buffer \<Rightarrow> byte list \<Rightarrow> (zc_error + unit) \<times> zc_buffer" where
  "zc_append b data =
     (if length (zc_bytes b) + length data > zc_max_size b then (Inl BufferExceeded, b)
      else (Inr (), b\<lparr>zc_bytes := zc_bytes b @ data\<rparr>))"

definition zc_get_bytes :: "zc_buffer \<Rightarrow> byte list" where
  "zc_get_bytes b = zc_bytes b"

definition zc_clear :: "zc_buffer \<Rightarrow> zc_buffer" where
  "zc_clear b = b\<lparr>zc_bytes := []\<rparr>"

definition zc_len :: "zc_buffer \<Rightarrow> nat" where
  "zc_len b = length (zc_bytes b)"

section \<open>The batch processor\<close>

record zc_processor =
  zp_input :: zc_buffer
  zp_output :: zc_buffer
  zp_batch_size :: nat

definition zp_new :: "nat \<Rightarrow> zc_processor" where
  "zp_new batch_size =
     \<lparr>zp_input = zc_new (1024 * 1024), zp_output = zc_new (1024 * 1024),
      zp_batch_size = batch_size\<rparr>"

text \<open>The two loops of \<open>process_batch\<close>; the \<open>?\<close> after each append leaves the loop on an error.\<close>

fun zc_append_all :: "zc_buffer \<Rightarrow> byte list list \<Rightarrow> (zc_error + unit) \<times> zc_buffer" where
  "zc_append_all b [] = (Inr (), b)"
| "zc_append_all b (m # ms) =
     (case zc_append b m of
        (Inl e, b') \<Rightarrow> (Inl e, b')
      | (Inr _, b') \<Rightarrow> zc_append_all b' ms)"

fun zc_frame_all :: "zc_buffer \<Rightarrow> byte list list \<Rightarrow> (zc_error + unit) \<times> zc_buffer" where
  "zc_frame_all b [] = (Inr (), b)"
| "zc_frame_all b (m # ms) =
     (case zc_append b (to_be 4 (wrap_u 32 (int (length m)))) of
        (Inl e, b') \<Rightarrow> (Inl e, b')
      | (Inr _, b') \<Rightarrow>
          (case zc_append b' m of
             (Inl e, b'') \<Rightarrow> (Inl e, b'')
           | (Inr _, b'') \<Rightarrow> zc_frame_all b'' ms))"

definition process_batch ::
  "zc_processor \<Rightarrow> byte list list \<Rightarrow> (zc_error + byte list) \<times> zc_processor" where
  "process_batch p messages =
     (if length messages > zp_batch_size p then (Inl BatchSizeExceeded, p)
      else case zc_append_all (zc_clear (zp_input p)) messages of
        (Inl e, inp) \<Rightarrow> (Inl e, p\<lparr>zp_input := inp\<rparr>)
      | (Inr _, inp) \<Rightarrow>
          (case zc_frame_all (zc_clear (zp_output p)) messages of
             (Inl e, out) \<Rightarrow> (Inl e, p\<lparr>zp_input := inp, zp_output := out\<rparr>)
           | (Inr _, out) \<Rightarrow> (Inr (zc_get_bytes out), p\<lparr>zp_input := inp, zp_output := out\<rparr>)))"

text \<open>The loop of \<open>parse_batch\<close> over the read position \<open>offset\<close>.\<close>

function parse_loop :: "byte list \<Rightarrow> nat \<Rightarrow> byte list list \<Rightarrow> zc_error + byte list list" where
  "parse_loop data offset messages =
     (if offset < length data then
        if offset + 4 > length data then Inl IncompleteLengthPrefix
        else
          let len = from_be (take 4 (drop offset data)); offset' = offset + 4 in
          if offset' + len > length data then Inl IncompleteMessageData
          else parse_loop data (offset' + len) (messages @ [take len (drop offset' data)])
      else Inr messages)"
  by pat_completeness auto
termination
  by (relation "measure (\<lambda>(data, offset, _). length data - offset)") auto

declare parse_loop.simps [simp del]

definition parse_batch :: "byte list \<Rightarrow> zc_error + byte list list" where
  "parse_batch data = parse_loop data 0 []"

section \<open>Buffer bounds\<close>

definition zc_wf :: "zc_buffer \<Rightarrow> bool" where
  "zc_wf b \<longleftrightarrow> length (zc_bytes b) \<le> zc_max_size b"

definition zp_wf :: "zc_processor \<Rightarrow> bool" where
  "zp_wf p \<longleftrightarrow> zc_wf (zp_input p) \<and> zc_wf (zp_output p)"

lemma zc_append_max [simp]: "zc_max_size (snd (zc_append b d)) = zc_max_size b"
  by (simp add: zc_append_def)

lemma zc_append_wf: "zc_wf b \<Longrightarrow> zc_wf (snd (zc_append b d))"
  by (simp add: zc_append_def zc_wf_def)

lemma zc_clear_wf [simp]: "zc_wf (zc_clear b)"
  by (simp add: zc_clear_def zc_wf_def)

lemma zc_append_pair_wf: "zc_append b d = (r, b') \<Longrightarrow> zc_wf b \<Longrightarrow> zc_wf b'"
  using zc_append_wf [of b d] by simp

lemma zc_append_all_wf: "zc_wf b \<Longrightarrow> zc_wf (snd (zc_append_all b ms))"
proof (induction ms arbitrary: b)
  case (Cons m ms)
  obtain r b1 where 1: "zc_append b m = (r, b1)" by fastforce
  with Cons.prems have "zc_wf b1" by (blast intro: zc_append_pair_wf)
  with 1 Cons.IH show ?case by (simp split: sum.split)
qed simp

lemma zc_frame_all_wf: "zc_wf b \<Longrightarrow> zc_wf (snd (zc_frame_all b ms))"
proof (induction ms arbitrary: b)
  case (Cons m ms)
  obtain r1 b1 where 1: "zc_append b (to_be 4 (wrap_u 32 (int (length m)))) = (r1, b1)"
    by fastforce
  obtain r2 b2 where 2: "zc_append b1 m = (r2, b2)" by fastforce
  from Cons.prems 1 2 have "zc_wf b1" "zc_wf b2" by (blast intro: zc_append_pair_wf)+
  with 1 2 Cons.IH show ?case by (simp split: sum.split)
qed simp

text \<open>The limits of a processor, which no call changes.\<close>

definition zp_limits :: "zc_processor \<Rightarrow> nat \<times> nat \<times> nat" where
  "zp_limits p = (zc_max_size (zp_input p), zc_max_size (zp_output p), zp_batch_size p)"

lemma zc_append_all_max: "zc_append_all b ms = (r, b') \<Longrightarrow> zc_max_size b' = zc_max_size b"
  by (induction b ms rule: zc_append_all.induct) (auto simp: zc_append_def split: if_splits)

lemma zc_frame_all_max: "zc_frame_all b ms = (r, b') \<Longrightarrow> zc_max_size b' = zc_max_size b"
  by (induction b ms rule: zc_frame_all.induct) (auto simp: zc_append_def split: if_splits)

lemma process_batch_limits: "process_batch p ms = (r, p') \<Longrightarrow> zp_limits p' = zp_limits p"
  by (auto simp: process_batch_def zp_limits_def zc_clear_def dest!: zc_append_all_max zc_frame_all_max
      split: if_splits prod.splits sum.splits)

section \<open>What the loops compute\<close>

abbreviation total_bytes :: "byte list list \<Rightarrow> nat" where
  "total_bytes ms \<equiv> sum_list (map length ms)"

lemma zc_append_all_eq:
  "fst (zc_append_all b ms) = (if length (zc_bytes b) + total_bytes ms \<le> max (zc_max_size b) (length (zc_bytes b)) \<or> ms = []
     then Inr () else Inl BufferExceeded)" if "zc_wf b"
  using that
proof (induction ms arbitrary: b)
  case (Cons m ms)
  show ?case
  proof (cases "length (zc_bytes b) + length m \<le> zc_max_size b")
    case True
    let ?b = "b\<lparr>zc_bytes := zc_bytes b @ m\<rparr>"
    have "zc_wf ?b" using True by (simp add: zc_wf_def)
    from Cons.IH [OF this] True Cons.prems show ?thesis
      by (cases ms) (simp_all add: zc_append_def zc_wf_def)
  next
    case False
    with Cons.prems show ?thesis by (simp add: zc_append_def zc_wf_def)
  qed
qed simp

lemma zc_frame_all_ok:
  assumes "zc_max_size b \<le> 2 ^ 32"
    and "length (zc_bytes b) + total_bytes ms + 4 * length ms \<le> zc_max_size b"
  shows "zc_frame_all b ms = (Inr (), b\<lparr>zc_bytes := zc_bytes b @ concat (map (frame (to_be 4)) ms)\<rparr>)"
  using assms
proof (induction ms arbitrary: b)
  case (Cons m ms)
  let ?b = "b\<lparr>zc_bytes := zc_bytes b @ frame (to_be 4) m\<rparr>"
  have len: "wrap_u 32 (int (length m)) = length m"
    using Cons.prems by (simp add: wrap_u_def)
  have "zc_frame_all ?b ms
      = (Inr (), ?b\<lparr>zc_bytes := zc_bytes ?b @ concat (map (frame (to_be 4)) ms)\<rparr>)"
    using Cons.prems by (intro Cons.IH) (simp_all add: be32.frame_length)
  then show ?case
    using Cons.prems by (simp add: zc_append_def len frame_def [of "to_be 4" m])
qed simp

lemma zc_frame_all_full:
  assumes "zc_max_size b \<le> 2 ^ 32"
    and "zc_wf b"
    and "length (zc_bytes b) + total_bytes ms + 4 * length ms > zc_max_size b"
  shows "fst (zc_frame_all b ms) = Inl BufferExceeded"
  using assms
proof (induction ms arbitrary: b)
  case Nil
  then show ?case by (simp add: zc_wf_def)
next
  case (Cons m ms)
  let ?b = "b\<lparr>zc_bytes := zc_bytes b @ frame (to_be 4) m\<rparr>"
  show ?case
  proof (cases "length (zc_bytes b) + 4 + length m \<le> zc_max_size b")
    case True
    have len: "wrap_u 32 (int (length m)) = length m"
      using True Cons.prems(1) by (simp add: wrap_u_def)
    have "fst (zc_frame_all ?b ms) = Inl BufferExceeded"
      using Cons.prems True by (intro Cons.IH) (simp_all add: be32.frame_length zc_wf_def)
    with True show ?thesis by (simp add: zc_append_def len frame_def)
  next
    case False
    then show ?thesis by (simp add: zc_append_def)
  qed
qed

section \<open>What the parser computes\<close>

lemma parse_loop_frames:
  assumes "\<forall>m \<in> set ms. length m < 2 ^ 32"
  shows "parse_loop (pre @ concat (map (frame (to_be 4)) ms)) (length pre) acc = Inr (acc @ ms)"
  using assms
proof (induction ms arbitrary: pre acc)
  case Nil
  then show ?case by (simp add: parse_loop.simps)
next
  case (Cons m ms)
  let ?rest = "concat (map (frame (to_be 4)) ms)"
  have m: "length m < 256 ^ 4" using Cons.prems by simp
  have "parse_loop ((pre @ frame (to_be 4) m) @ ?rest) (length (pre @ frame (to_be 4) m)) (acc @ [m])
      = Inr ((acc @ [m]) @ ms)"
    using Cons.prems by (intro Cons.IH) simp
  moreover have "from_be (take 4 (frame (to_be 4) m @ ?rest)) = length m"
    by (rule be32.frame_prefix [OF m])
  moreover have "take (length m) (drop 4 (frame (to_be 4) m @ ?rest)) = m"
    by (rule be32.frame_payload)
  ultimately show ?case
    by (subst parse_loop.simps) (simp add: be32.frame_length Let_def add.assoc)
qed

lemma parse_loop_sound:
  "parse_loop data offset acc = Inr ms \<Longrightarrow> offset \<le> length data \<Longrightarrow>
   \<exists>ms'. ms = acc @ ms' \<and> drop offset data = concat (map (frame (to_be 4)) ms')"
proof (induction data offset acc rule: parse_loop.induct)
  case (1 data offset acc)
  show ?case
  proof (cases "offset < length data")
    case False
    with "1.prems" show ?thesis by (simp add: parse_loop.simps [of data offset acc])
  next
    case True
    define len where "len = from_be (take 4 (drop offset data))"
    have fits: "offset + 4 \<le> length data" "offset + 4 + len \<le> length data"
      using "1.prems" True
      by (auto simp: parse_loop.simps [of data offset acc] len_def Let_def split: if_splits)
    let ?m = "take len (drop (offset + 4) data)"
    have rec: "parse_loop data (offset + 4 + len) (acc @ [?m]) = Inr ms"
      using "1.prems" True fits
      by (simp add: parse_loop.simps [of data offset acc] len_def Let_def)
    obtain ms' where ms': "ms = (acc @ [?m]) @ ms'"
      "drop (offset + 4 + len) data = concat (map (frame (to_be 4)) ms')"
      using "1.IH" [OF True _ len_def refl] fits rec by (auto simp: not_less)
    have "frame (to_be 4) ?m @ drop (offset + 4 + len) data = drop offset data"
      using be32.frame_unique [of "drop offset data"] fits
      by (simp add: len_def add.commute add.left_commute)
    with ms' show ?thesis by (intro exI [of _ "?m # ms'"]) simp
  qed
qed

section \<open>Properties\<close>

text \<open>
  Property C32: a batch within the processor's limits (at most \<open>batch_size\<close> messages, which fit
  the one-megabyte buffers together with their four-byte prefixes) is framed successfully, and
  parsing the frame returns exactly the messages of the batch in order, whatever the buffers
  held before.
\<close>

theorem process_parse_roundtrip:
  assumes "zc_max_size (zp_input p) = 1024 * 1024" and "zc_max_size (zp_output p) = 1024 * 1024"
    and "length ms \<le> zp_batch_size p"
    and "total_bytes ms + 4 * length ms \<le> 1024 * 1024"
  shows "\<exists>out p'. process_batch p ms = (Inr out, p') \<and> parse_batch out = Inr ms"
proof -
  let ?in = "zc_clear (zp_input p)" and ?out = "zc_clear (zp_output p)"
  have "fst (zc_append_all ?in ms) = Inr ()"
    using assms by (simp add: zc_append_all_eq zc_clear_def zc_wf_def)
  moreover have "zc_frame_all ?out ms = (Inr (), ?out\<lparr>zc_bytes := concat (map (frame (to_be 4)) ms)\<rparr>)"
    using zc_frame_all_ok [of ?out ms] assms by (simp add: zc_clear_def)
  moreover have "\<forall>m \<in> set ms. length m < 2 ^ 32"
  proof
    fix m assume "m \<in> set ms"
    then have "length m \<le> total_bytes ms" by (simp add: member_le_sum_list)
    with assms(4) show "length m < 2 ^ 32" by simp
  qed
  then have "parse_batch (concat (map (frame (to_be 4)) ms)) = Inr ms"
    using parse_loop_frames [of ms "[]" "[]"] by (simp add: parse_batch_def)
  ultimately show ?thesis
    using assms(3) by (auto simp: process_batch_def zc_get_bytes_def split: prod.splits)
qed

theorem process_parse_roundtrip_witness:
  "\<exists>out p'. process_batch (zp_new 1000) [[104, 105], [], [7]] = (Inr out, p')
     \<and> parse_batch out = Inr [[104, 105], [], [7]]"
  by (rule process_parse_roundtrip) (simp_all add: zp_new_def zc_new_def)

text \<open>
  A batch is refused exactly when it has too many messages or its frames do not
  fit the output buffer, and the error says which; otherwise
  the result is the concatenation of the frames.
\<close>

lemma process_batch_refuses:
  assumes "zc_max_size (zp_input p) = zc_max_size (zp_output p)" and "zc_max_size (zp_output p) \<le> 2 ^ 32"
  shows "fst (process_batch p ms) =
     (if length ms > zp_batch_size p then Inl BatchSizeExceeded
      else if total_bytes ms + 4 * length ms > zc_max_size (zp_output p) then Inl BufferExceeded
      else Inr (concat (map (frame (to_be 4)) ms)))"
proof -
  let ?in = "zc_clear (zp_input p)" and ?out = "zc_clear (zp_output p)"
  have inp: "fst (zc_append_all ?in ms) = (if total_bytes ms \<le> zc_max_size (zp_output p) \<or> ms = [] then Inr () else Inl BufferExceeded)"
    using zc_append_all_eq [of ?in ms] assms by (simp add: zc_clear_def zc_wf_def)
  have out: "total_bytes ms + 4 * length ms > zc_max_size (zp_output p) \<longrightarrow> fst (zc_frame_all ?out ms) = Inl BufferExceeded"
    using zc_frame_all_full [of ?out ms] assms by (simp add: zc_clear_def zc_wf_def)
  have ok: "total_bytes ms + 4 * length ms \<le> zc_max_size (zp_output p) \<longrightarrow>
      zc_frame_all ?out ms = (Inr (), ?out\<lparr>zc_bytes := concat (map (frame (to_be 4)) ms)\<rparr>)"
    using zc_frame_all_ok [of ?out ms] assms by (simp add: zc_clear_def)
  show ?thesis
    using inp out ok
    by (auto simp: process_batch_def zc_get_bytes_def zc_clear_def split: prod.splits sum.splits if_splits)
qed

lemma process_batch_refuses_example:
  "fst (process_batch (zp_new 1) [[1], [2]]) = Inl BatchSizeExceeded \<and>
   fst (process_batch (zp_new 2) [[1], [2]]) = Inr [0, 0, 0, 1, 1, 0, 0, 0, 1, 2]"
  using process_batch_refuses [of "zp_new 1" "[[1], [2]]"] process_batch_refuses [of "zp_new 2" "[[1], [2]]"]
  by (simp add: zp_new_def zc_new_def frame_def to_be_def to_le_numeral)

text \<open>
  The parser is sound for arbitrary input bytes: if it accepts, the input is
  exactly the concatenation of the frames of the messages it returns, so no byte is skipped,
  invented or read twice.
\<close>

lemma parse_batch_sound:
  assumes "parse_batch data = Inr ms"
  shows "data = concat (map (frame (to_be 4)) ms)"
  using parse_loop_sound [of data 0 "[]" ms] assms by (simp add: parse_batch_def)

lemma parse_batch_sound_example:
  "[0, 0, 0, 1, 42] = concat (map (frame (to_be 4)) [[42 :: byte]])"
  by (rule parse_batch_sound) (simp add: parse_batch_def parse_loop.simps from_be_def)

end
