(* ===== verification/Rafka_Proto.thy ===== *)
theory Rafka_Proto
  imports Rafka_Prelude
begin

text \<open>
  The message types of \<^verbatim>\<open>crates/core/src/proto/rafka.proto\<close> that the modelled
  operations exchange, field by field. A protobuf \<open>string\<close> is a byte string, an \<open>int32\<close> or
  \<open>int64\<close> an \<open>int\<close>, an \<open>uint64\<close> a \<open>nat\<close>.
\<close>

record publish_request =
  pr_producer_id :: string
  pr_topic :: string
  pr_key :: string
  pr_payload :: string

record publish_response =
  ps_message_id :: string
  ps_success :: bool
  ps_message :: string
  ps_partition :: int
  ps_offset :: int

record consume_response =
  cr_message_id :: string
  cr_topic :: string
  cr_payload :: string
  cr_sent_at :: int
  cr_offset :: int
  cr_partition :: int

record forward_request =
  fr_from_broker_id :: string
  fr_topic :: string
  fr_key :: string
  fr_payload :: string
  fr_target_partition :: int
  fr_offset :: int

record forward_response =
  fs_success :: bool
  fs_message :: string
  fs_offset :: int

record mesh_node_info =
  mn_node_id :: string
  mn_address :: string
  mn_port :: int
  mn_partition_id :: int
  mn_total_partitions :: int
  mn_is_alive :: bool
  mn_last_seen_timestamp :: int
  mn_metadata :: "(string, string) hashmap"

record mesh_topology_response =
  mt_nodes :: "mesh_node_info list"
  mt_partition_owners :: "(int, string) hashmap"
  mt_cluster_size :: int

section \<open>The message types of the core crate\<close>

text \<open>
  \<^verbatim>\<open>crates/core/src/message.rs\<close>: plain data that the broker does not use; the identifier and the time of a
  new message come from outside.
\<close>

record core_message =
  mg_id :: string
  mg_topic :: string
  mg_payload :: "byte list"
  mg_timestamp :: int

definition mg_new :: "string \<Rightarrow> int \<Rightarrow> string \<Rightarrow> byte list \<Rightarrow> core_message" where
  "mg_new uuid now topic payload = \<lparr>mg_id = uuid, mg_topic = topic, mg_payload = payload, mg_timestamp = now\<rparr>"

datatype ack_status = AckSuccess | AckError string

record message_ack =
  ma_message_id :: string
  ma_status :: ack_status

record benchmark_metrics =
  be_message_id :: string
  be_sent_at :: int
  be_received_at :: int
  be_latency_ms :: int

end
