(* ===== verification/Batching.thy ===== *)
theory Batching
  imports Rafka_Proto
begin

text \<open>
  The message batcher of \<^verbatim>\<open>crates/broker/src/batching.rs\<close>: \<open>MessageBatch\<close> and
  \<open>BatchedProcessor\<close>. The queue of batches sits behind one mutex, so every operation is one
  atomic step. An \<open>Instant\<close> is a number of nanoseconds; \<open>elapsed\<close> saturates at zero.
\<close>

section \<open>One batch\<close>

record message_batch =
  mb_messages :: "publish_request list"
  mb_batch_size :: nat
  mb_max_wait_time :: duration
  mb_created_at :: int

definition mb_new :: "nat \<Rightarrow> duration \<Rightarrow> int \<Rightarrow> message_batch" where
  "mb_new batch_size max_wait_time now =
     \<lparr>mb_messages = [], mb_batch_size = batch_size, mb_max_wait_time = max_wait_time,
      mb_created_at = now\<rparr>"

definition mb_add_message :: "publish_request \<Rightarrow> message_batch \<Rightarrow> bool \<times> message_batch" where
  "mb_add_message m b =
     (if length (mb_messages b) \<ge> mb_batch_size b then (False, b)
      else (True, b\<lparr>mb_messages := mb_messages b @ [m]\<rparr>))"

definition mb_is_ready :: "int \<Rightarrow> message_batch \<Rightarrow> bool" where
  "mb_is_ready now b \<longleftrightarrow>
     length (mb_messages b) \<ge> mb_batch_size b \<or> nat (now - mb_created_at b) \<ge> mb_max_wait_time b"

definition mb_is_empty :: "message_batch \<Rightarrow> bool" where
  "mb_is_empty b \<longleftrightarrow> mb_messages b = []"

definition mb_get_messages :: "message_batch \<Rightarrow> publish_request list" where
  "mb_get_messages b = mb_messages b"

definition mb_take_messages :: "message_batch \<Rightarrow> publish_request list \<times> message_batch" where
  "mb_take_messages b = (mb_messages b, b\<lparr>mb_messages := []\<rparr>)"

section \<open>The queue of batches\<close>

record batched_processor =
  bp_batches :: "message_batch list"
  bp_batch_size :: nat
  bp_max_wait_time :: duration

definition bp_new :: "nat \<Rightarrow> duration \<Rightarrow> batched_processor" where
  "bp_new batch_size max_wait_time =
     \<lparr>bp_batches = [], bp_batch_size = batch_size, bp_max_wait_time = max_wait_time\<rparr>"

text \<open>The tail of \<open>add_message\<close>: a new batch with the message is put at the back.\<close>

definition bp_push_new :: "int \<Rightarrow> publish_request \<Rightarrow> batched_processor \<Rightarrow> batched_processor" where
  "bp_push_new now m p =
     p\<lparr>bp_batches := bp_batches p @
         [snd (mb_add_message m (mb_new (bp_batch_size p) (bp_max_wait_time p) now))]\<rparr>"

definition bp_add_message ::
  "int \<Rightarrow> publish_request \<Rightarrow> batched_processor \<Rightarrow> (string + unit) \<times> batched_processor" where
  "bp_add_message now m p =
     (if bp_batches p \<noteq> [] then
        (case mb_add_message m (last (bp_batches p)) of
           (True, b) \<Rightarrow> (Inr (), p\<lparr>bp_batches := butlast (bp_batches p) @ [b]\<rparr>)
         | (False, _) \<Rightarrow> (Inr (), bp_push_new now m p))
      else (Inr (), bp_push_new now m p))"

text \<open>
  The loop of \<open>get_ready_batches\<close>; every test of \<open>is_ready\<close> reads the clock again, \<open>clock i\<close>
  in the \<open>i\<close>-th turn. The result is the pair of the ready batches and the queue that is left.
\<close>

fun ready_loop ::
  "(nat \<Rightarrow> int) \<Rightarrow> nat \<Rightarrow> message_batch list \<Rightarrow> message_batch list \<times> message_batch list" where
  "ready_loop clock i [] = ([], [])"
| "ready_loop clock i (b # bs) =
     (if mb_is_ready (clock i) b then
        (case ready_loop clock (Suc i) bs of
           (ready, rest) \<Rightarrow> (if mb_is_empty b then ready else b # ready, rest))
      else ([], b # bs))"

definition bp_get_ready_batches ::
  "(nat \<Rightarrow> int) \<Rightarrow> batched_processor \<Rightarrow> message_batch list \<times> batched_processor" where
  "bp_get_ready_batches clock p =
     (case ready_loop clock 0 (bp_batches p) of (ready, rest) \<Rightarrow> (ready, p\<lparr>bp_batches := rest\<rparr>))"

section \<open>Interface: a first-in first-out buffer\<close>

text \<open>
  What the broker relies on: adding puts a message at the end of the contents, draining takes a
  prefix of the contents out. \<open>q_run\<close> drives a buffer with a sequence of calls and collects
  what the drains hand out.
\<close>

datatype ('c, 'd, 'm) q_event = QAdd 'c 'm | QDrain 'd

fun q_run :: "('c \<Rightarrow> 'm \<Rightarrow> 'q \<Rightarrow> 'q) \<Rightarrow> ('d \<Rightarrow> 'q \<Rightarrow> 'm list \<times> 'q) \<Rightarrow>
    ('c, 'd, 'm) q_event list \<Rightarrow> 'q \<Rightarrow> 'm list \<times> 'q" where
  "q_run add drain [] q = ([], q)"
| "q_run add drain (QAdd c m # es) q = q_run add drain es (add c m q)"
| "q_run add drain (QDrain d # es) q =
     (case drain d q of (out, q') \<Rightarrow>
       (case q_run add drain es q' of (out', q'') \<Rightarrow> (out @ out', q'')))"

fun q_added :: "('c, 'd, 'm) q_event list \<Rightarrow> 'm list" where
  "q_added [] = []"
| "q_added (QAdd c m # es) = m # q_added es"
| "q_added (QDrain d # es) = q_added es"

locale fifo_buffer =
  fixes add :: "'c \<Rightarrow> 'm \<Rightarrow> 'q \<Rightarrow> 'q"
    and drain :: "'d \<Rightarrow> 'q \<Rightarrow> 'm list \<times> 'q"
    and contents :: "'q \<Rightarrow> 'm list"
    and invar :: "'q \<Rightarrow> bool"
  assumes contents_add: "invar q \<Longrightarrow> contents (add c m q) = contents q @ [m]"
    and contents_drain: "invar q \<Longrightarrow> drain d q = (out, q') \<Longrightarrow> contents q = out @ contents q'"
    and invar_add: "invar q \<Longrightarrow> invar (add c m q)"
    and invar_drain: "invar q \<Longrightarrow> drain d q = (out, q') \<Longrightarrow> invar q'"
begin

lemma run_exactly_once:
  "invar q \<Longrightarrow> q_run add drain es q = (out, q') \<Longrightarrow>
   contents q @ q_added es = out @ contents q' \<and> invar q'"
proof (induction es arbitrary: q out q')
  case Nil
  then show ?case by simp
next
  case (Cons e es)
  show ?case
  proof (cases e)
    case (QAdd c m)
    with Cons.prems Cons.IH [of "add c m q" out q'] show ?thesis
      by (simp add: invar_add contents_add)
  next
    case (QDrain d)
    obtain o1 q1 where 1: "drain d q = (o1, q1)" by fastforce
    obtain o2 q2 where 2: "q_run add drain es q1 = (o2, q2)" by fastforce
    have "invar q1" using Cons.prems(1) 1 by (rule invar_drain)
    then have "contents q1 @ q_added es = o2 @ contents q2 \<and> invar q2"
      using 2 by (rule Cons.IH)
    moreover have "contents q = o1 @ contents q1"
      using Cons.prems(1) 1 by (rule contents_drain)
    ultimately show ?thesis using Cons.prems(2) QDrain 1 2 by auto
  qed
qed

end

section \<open>The batcher implements the buffer\<close>

definition bp_contents :: "batched_processor \<Rightarrow> publish_request list" where
  "bp_contents p = concat (map mb_messages (bp_batches p))"

text \<open>
  The invariant: batches have the configured limits, none is empty or over-full, and only the
  batch at the back has room left.
\<close>

definition mb_wf :: "nat \<Rightarrow> duration \<Rightarrow> message_batch \<Rightarrow> bool" where
  "mb_wf n w b \<longleftrightarrow> mb_batch_size b = n \<and> mb_max_wait_time b = w \<and>
     mb_messages b \<noteq> [] \<and> length (mb_messages b) \<le> n"

definition bp_wf :: "batched_processor \<Rightarrow> bool" where
  "bp_wf p \<longleftrightarrow> 0 < bp_batch_size p \<and>
     list_all (mb_wf (bp_batch_size p) (bp_max_wait_time p)) (bp_batches p) \<and>
     list_all (\<lambda>b. length (mb_messages b) = bp_batch_size p) (butlast (bp_batches p))"

definition bp_add :: "int \<Rightarrow> publish_request \<Rightarrow> batched_processor \<Rightarrow> batched_processor" where
  "bp_add now m p = snd (bp_add_message now m p)"

definition bp_drain :: "(nat \<Rightarrow> int) \<Rightarrow> batched_processor \<Rightarrow> publish_request list \<times> batched_processor" where
  "bp_drain clock p =
     (case bp_get_ready_batches clock p of (bs, p') \<Rightarrow> (concat (map mb_get_messages bs), p'))"

lemma ready_loop_contents:
  "ready_loop clock i bs = (ready, rest) \<Longrightarrow>
   concat (map mb_messages bs) = concat (map mb_messages ready) @ concat (map mb_messages rest)"
  by (induction clock i bs arbitrary: ready rest rule: ready_loop.induct)
    (fastforce simp: mb_is_empty_def split: if_splits prod.splits)+

lemma ready_loop_suffix: "ready_loop clock i bs = (ready, rest) \<Longrightarrow> \<exists>pre. bs = pre @ rest"
  by (induction clock i bs arbitrary: ready rest rule: ready_loop.induct)
    (fastforce split: if_splits prod.splits)+

lemma ready_loop_subset: "ready_loop clock i bs = (ready, rest) \<Longrightarrow> set ready \<subseteq> set bs"
  by (induction clock i bs arbitrary: ready rest rule: ready_loop.induct)
    (fastforce split: if_splits prod.splits)+

lemma ready_loop_drains_old:
  assumes "\<forall>b \<in> set bs. \<forall>j. nat (clock j - mb_created_at b) \<ge> mb_max_wait_time b"
  shows "snd (ready_loop clock i bs) = []"
  using assms
  by (induction clock i bs rule: ready_loop.induct) (auto simp: mb_is_ready_def split: prod.splits)

lemma butlast_suffix: "list_all P (butlast (pre @ rest)) \<Longrightarrow> list_all P (butlast rest)"
  by (cases "rest = []") (simp_all add: butlast_append)

lemma bp_add_contents: "bp_wf p \<Longrightarrow> bp_contents (bp_add now m p) = bp_contents p @ [m]"
proof (cases "bp_batches p" rule: rev_cases)
  case (snoc bs b)
  assume "bp_wf p"
  then show ?thesis
    by (auto simp: bp_add_def bp_add_message_def bp_push_new_def bp_contents_def bp_wf_def
        mb_add_message_def mb_new_def snoc)
qed (simp add: bp_add_def bp_add_message_def bp_push_new_def bp_contents_def bp_wf_def
      mb_add_message_def mb_new_def)

lemma bp_add_set: "set (bp_contents (bp_add now m p)) \<subseteq> set (bp_contents p) \<union> {m}"
proof (cases "bp_batches p" rule: rev_cases)
  case (snoc bs b)
  then show ?thesis
    by (auto simp: bp_add_def bp_add_message_def bp_push_new_def bp_contents_def mb_add_message_def mb_new_def)
qed (simp add: bp_add_def bp_add_message_def bp_push_new_def bp_contents_def mb_add_message_def mb_new_def)

lemma bp_add_wf: "bp_wf p \<Longrightarrow> bp_wf (bp_add now m p)"
proof (cases "bp_batches p" rule: rev_cases)
  case (snoc bs b)
  assume "bp_wf p"
  then show ?thesis
    by (auto simp: bp_add_def bp_add_message_def bp_push_new_def bp_wf_def mb_wf_def
        mb_add_message_def mb_new_def snoc butlast_append)
qed (simp add: bp_add_def bp_add_message_def bp_push_new_def bp_wf_def mb_wf_def
      mb_add_message_def mb_new_def)

lemma bp_drain_split:
  "bp_drain clock p = (out, p') \<Longrightarrow>
   \<exists>ready rest. ready_loop clock 0 (bp_batches p) = (ready, rest) \<and>
     out = concat (map mb_messages ready) \<and> p' = p\<lparr>bp_batches := rest\<rparr>"
  by (auto simp: bp_drain_def bp_get_ready_batches_def mb_get_messages_def split: prod.splits
      cong: map_cong)

lemma bp_drain_wf: "bp_wf p \<Longrightarrow> bp_drain clock p = (out, p') \<Longrightarrow> bp_wf p'"
proof -
  assume "bp_wf p" "bp_drain clock p = (out, p')"
  then obtain ready pre rest where "bp_batches p = pre @ rest" "p' = p\<lparr>bp_batches := rest\<rparr>"
    by (blast dest: bp_drain_split ready_loop_suffix)
  with \<open>bp_wf p\<close> show "bp_wf p'" by (auto simp: bp_wf_def intro: butlast_suffix)
qed

lemma bp_drain_contents: "bp_drain clock p = (out, p') \<Longrightarrow> bp_contents p = out @ bp_contents p'"
  by (auto simp: bp_contents_def dest!: bp_drain_split ready_loop_contents)

lemma bp_new_wf: "0 < n \<Longrightarrow> bp_wf (bp_new n w)"
  by (simp add: bp_wf_def bp_new_def)

interpretation batcher: fifo_buffer bp_add bp_drain bp_contents bp_wf
  by unfold_locales (auto simp: bp_add_contents bp_add_wf intro: bp_drain_wf bp_drain_contents)

section \<open>Properties\<close>

text \<open>
  Property C33: the batcher neither loses, duplicates nor reorders messages. For every sequence
  of \<open>add_message\<close> and \<open>get_ready_batches\<close> calls on a fresh batcher with a positive batch size,
  the messages handed out so far followed by the messages still queued are exactly the messages
  added, in the order of the calls.
\<close>

theorem batcher_exactly_once:
  assumes "0 < batch_size"
    and "q_run bp_add bp_drain es (bp_new batch_size wait) = (out, p)"
  shows "q_added es = out @ bp_contents p"
proof -
  from batcher.run_exactly_once [OF bp_new_wf [OF assms(1)] assms(2)] show ?thesis
    by (simp add: bp_contents_def bp_new_def)
qed

definition example_request :: "string \<Rightarrow> publish_request" where
  "example_request payload =
     \<lparr>pr_producer_id = ''p'', pr_topic = ''t'', pr_key = ''k'', pr_payload = payload\<rparr>"

theorem batcher_exactly_once_witness:
  "[example_request ''a'', example_request ''b'', example_request ''c''] =
   [example_request ''a'', example_request ''b''] @ bp_contents
     (snd (q_run bp_add bp_drain
        [QAdd 0 (example_request ''a''), QAdd 1 (example_request ''b''), QDrain (\<lambda>_. 2),
         QAdd 3 (example_request ''c''), QDrain (\<lambda>_. 4)] (bp_new 2 10)))"
  using batcher_exactly_once [of 2
      "[QAdd 0 (example_request ''a''), QAdd 1 (example_request ''b''), QDrain (\<lambda>_. 2),
        QAdd 3 (example_request ''c''), QDrain (\<lambda>_. 4)]" 10
      "[example_request ''a'', example_request ''b'']"]
  by (simp add: bp_add_def bp_add_message_def bp_push_new_def bp_drain_def bp_get_ready_batches_def
      bp_new_def mb_new_def mb_add_message_def mb_is_ready_def mb_is_empty_def mb_get_messages_def)

text \<open>
  Every batch that a well-formed batcher hands out is non-empty and has at most
  \<open>batch_size\<close> messages, and the batcher stays well-formed.
\<close>

lemma ready_batches_bounded:
  assumes "bp_wf p" and "bp_get_ready_batches clock p = (bs, p')"
  shows "bp_wf p' \<and>
     list_all (\<lambda>b. 0 < length (mb_messages b) \<and> length (mb_messages b) \<le> bp_batch_size p) bs"
proof -
  have "bp_drain clock p = (concat (map mb_get_messages bs), p')"
    using assms(2) by (simp add: bp_drain_def)
  with assms(1) have "bp_wf p'" by (rule bp_drain_wf)
  moreover obtain rest where "ready_loop clock 0 (bp_batches p) = (bs, rest)"
    using assms(2) by (auto simp: bp_get_ready_batches_def split: prod.splits)
  then have "set bs \<subseteq> set (bp_batches p)" by (rule ready_loop_subset)
  ultimately show ?thesis using assms(1) by (auto simp: bp_wf_def mb_wf_def list_all_iff)
qed

lemma ready_batches_bounded_example:
  "bp_wf (snd (bp_get_ready_batches (\<lambda>_. 50) (bp_add 0 (example_request ''a'') (bp_new 2 10))))"
proof -
  have "bp_wf (bp_add 0 (example_request ''a'') (bp_new 2 10))" by (simp add: bp_add_wf bp_new_wf)
  from ready_batches_bounded [OF this surjective_pairing] show ?thesis by blast
qed

text \<open>
  Property C34: nothing waits longer than the configured time. Once the clock has passed the
  waiting time of every queued batch, one call of \<open>get_ready_batches\<close> hands out every queued
  message and leaves the queue empty.
\<close>

theorem waiting_messages_flushed:
  assumes "\<forall>b \<in> set (bp_batches p). \<forall>i. nat (clock i - mb_created_at b) \<ge> mb_max_wait_time b"
  shows "concat (map mb_messages (fst (bp_get_ready_batches clock p))) = bp_contents p
     \<and> bp_batches (snd (bp_get_ready_batches clock p)) = []"
proof -
  obtain ready rest where r: "ready_loop clock 0 (bp_batches p) = (ready, rest)" by fastforce
  with ready_loop_drains_old [OF assms, of 0] have "rest = []" by simp
  with ready_loop_contents [OF r] r show ?thesis
    by (simp add: bp_get_ready_batches_def bp_contents_def)
qed

theorem waiting_messages_flushed_witness:
  "bp_batches (snd (bp_get_ready_batches (\<lambda>_. 50) (bp_add 0 (example_request ''a'') (bp_new 2 10)))) = []"
proof -
  let ?p = "bp_add 0 (example_request ''a'') (bp_new 2 10)"
  have "\<forall>b \<in> set (bp_batches ?p). \<forall>i :: nat. nat ((\<lambda>_. 50) i - mb_created_at b) \<ge> mb_max_wait_time b"
    by (simp add: bp_add_def bp_add_message_def bp_push_new_def bp_new_def mb_new_def mb_add_message_def)
  from waiting_messages_flushed [OF this] show ?thesis by blast
qed

end
