(* ===== verification/Memory_Pool.thy ===== *)
theory Memory_Pool
  imports Rafka_Prelude
begin

text \<open>
  The message pool of \<^verbatim>\<open>crates/core/src/memory_pool.rs\<close> for the one message type the
  program pools, \<open>OptimizedMessage\<close>. A \<open>PooledMessage\<close> that goes out of scope spawns a task that
  returns the message, so returns happen at any later time and in any order: the pool, the
  handles in use and the tasks in flight form a transition system.
\<close>

section \<open>The pooled messages\<close>

record optimized_message =
  om_id :: string
  om_topic :: string
  om_payload :: "byte list"
  om_timestamp :: nat
  om_partition :: nat
  om_offset :: int

definition om_new :: optimized_message where
  "om_new = \<lparr>om_id = '''', om_topic = '''', om_payload = [], om_timestamp = 0, om_partition = 0,
     om_offset = 0\<rparr>"

definition om_reset :: "optimized_message \<Rightarrow> optimized_message" where
  "om_reset m = m\<lparr>om_id := '''', om_topic := '''', om_payload := [], om_timestamp := 0,
     om_partition := 0, om_offset := 0\<rparr>"

section \<open>The pool\<close>

record message_pool =
  mp_pool :: "optimized_message list"
  mp_max_size :: nat

definition mp_new :: "nat \<Rightarrow> message_pool" where
  "mp_new max_size = \<lparr>mp_pool = [], mp_max_size = max_size\<rparr>"

definition create_message_pool :: "nat \<Rightarrow> message_pool" where
  "create_message_pool max_size = mp_new max_size"

definition mp_get :: "message_pool \<Rightarrow> optimized_message \<times> message_pool" where
  "mp_get p =
     (case mp_pool p of
        m # ms \<Rightarrow> (m, p\<lparr>mp_pool := ms\<rparr>)
      | [] \<Rightarrow> (om_new, p))"

definition mp_return_message :: "optimized_message \<Rightarrow> message_pool \<Rightarrow> message_pool" where
  "mp_return_message m p =
     (if length (mp_pool p) < mp_max_size p then p\<lparr>mp_pool := mp_pool p @ [om_reset m]\<rparr> else p)"

text \<open>\<open>PooledMessage\<close>: \<open>get\<close> and \<open>get_mut\<close> unwrap the option, dropping the handle takes it.\<close>

definition pm_get :: "optimized_message option \<Rightarrow> optimized_message outcome" where
  "pm_get h = (case h of Some m \<Rightarrow> Ret m | None \<Rightarrow> Panic)"

definition pm_drop :: "optimized_message option \<Rightarrow> optimized_message list \<times> optimized_message option" where
  "pm_drop h = (case h of Some m \<Rightarrow> ([m], None) | None \<Rightarrow> ([], None))"

section \<open>The pool in use\<close>

record pool_sys =
  sys_pool :: message_pool
  sys_handles :: "optimized_message option list"
  sys_returning :: "optimized_message list"

inductive pool_step :: "pool_sys \<Rightarrow> pool_sys \<Rightarrow> bool" where
  get: "mp_get (sys_pool s) = (m, p) \<Longrightarrow>
    pool_step s (s\<lparr>sys_pool := p, sys_handles := sys_handles s @ [Some m]\<rparr>)"
| get_mut: "i < length (sys_handles s) \<Longrightarrow> pm_get (sys_handles s ! i) = Ret m \<Longrightarrow>
    pool_step s (s\<lparr>sys_handles := (sys_handles s)[i := Some m']\<rparr>)"
| drop_handle: "sys_handles s = hs @ h # hs' \<Longrightarrow> pm_drop h = (ms, h') \<Longrightarrow>
    pool_step s (s\<lparr>sys_handles := hs @ hs', sys_returning := sys_returning s @ ms\<rparr>)"
| return_message: "sys_returning s = ms @ m # ms' \<Longrightarrow>
    pool_step s (s\<lparr>sys_pool := mp_return_message m (sys_pool s), sys_returning := ms @ ms'\<rparr>)"

definition pool_init :: "nat \<Rightarrow> pool_sys \<Rightarrow> bool" where
  "pool_init n s \<longleftrightarrow> s = \<lparr>sys_pool = mp_new n, sys_handles = [], sys_returning = []\<rparr>"

section \<open>Interface: a bounded pool\<close>

text \<open>
  A pool accepts returned objects while it has room and forgets them otherwise; \<open>clean\<close> is what
  it does to an object on the way in.
\<close>

locale bounded_pool =
  fixes items :: "'p \<Rightarrow> 'a list"
    and cap :: "'p \<Rightarrow> nat"
    and give :: "'a \<Rightarrow> 'p \<Rightarrow> 'p"
    and clean :: "'a \<Rightarrow> 'a"
  assumes items_give: "items (give a p) = (if length (items p) < cap p then items p @ [clean a] else items p)"
    and cap_give: "cap (give a p) = cap p"
begin

lemma give_bounded: "length (items p) \<le> cap p \<Longrightarrow> length (items (give a p)) \<le> cap (give a p)"
  by (simp add: items_give cap_give)

lemma give_items_subset: "set (items (give a p)) \<subseteq> insert (clean a) (set (items p))"
  by (auto simp: items_give)

lemma fold_give_bounded:
  "length (items p) \<le> cap p \<Longrightarrow> length (items (fold give as p)) \<le> cap p"
proof (induction "as" arbitrary: p)
  case (Cons a as)
  then show ?case using Cons.IH [of "give a p"] give_bounded [of p a] by (simp add: cap_give)
qed simp

end

interpretation msg_pool: bounded_pool mp_pool mp_max_size mp_return_message om_reset
  by unfold_locales (simp_all add: mp_return_message_def)

section \<open>The invariant\<close>

definition pool_inv :: "nat \<Rightarrow> pool_sys \<Rightarrow> bool" where
  "pool_inv n s \<longleftrightarrow> mp_max_size (sys_pool s) = n \<and> length (mp_pool (sys_pool s)) \<le> n \<and>
     set (mp_pool (sys_pool s)) \<subseteq> {om_new} \<and> None \<notin> set (sys_handles s)"

lemma om_reset_new [simp]: "om_reset m = om_new"
  by (simp add: om_reset_def om_new_def)

lemma mp_get_cases:
  "mp_get p = (m, p') \<Longrightarrow> set (mp_pool p) \<subseteq> {om_new} \<Longrightarrow>
   m = om_new \<and> mp_max_size p' = mp_max_size p \<and>
   length (mp_pool p') \<le> length (mp_pool p) \<and> set (mp_pool p') \<subseteq> {om_new}"
  by (auto simp: mp_get_def split: list.splits)

lemma pool_inv_step: "pool_step s t \<Longrightarrow> pool_inv n s \<Longrightarrow> pool_inv n t"
proof (induction rule: pool_step.induct)
  case (get s m p)
  then show ?case using mp_get_cases [of "sys_pool s" m p] by (auto simp: pool_inv_def)
next
  case (get_mut i s m m')
  then show ?case by (auto simp: pool_inv_def dest: set_update_subset_insert [THEN subsetD])
next
  case (drop_handle s hs h hs' ms h')
  then show ?case by (auto simp: pool_inv_def)
next
  case (return_message s ms m ms')
  then show ?case
    using msg_pool.give_bounded [of "sys_pool s" m] msg_pool.give_items_subset [of m "sys_pool s"]
    by (auto simp: pool_inv_def msg_pool.cap_give)
qed

interpretation pool_use: invariant_system "pool_init n" pool_step "pool_inv n" for n
  by unfold_locales (simp add: pool_init_def pool_inv_def mp_new_def, rule pool_inv_step)

section \<open>Properties\<close>

text \<open>
  Property C35: reuse is invisible. Whatever earlier users wrote into their messages and in
  whatever order the returns arrived, a message taken from the pool in a reachable state is
  indistinguishable from a new one, and the pool never holds more than \<open>max_size\<close> messages.
\<close>

theorem pooled_messages_are_clean:
  assumes "pool_init n s" and "pool_step\<^sup>*\<^sup>* s t"
  shows "fst (mp_get (sys_pool t)) = om_new \<and> length (mp_pool (sys_pool t)) \<le> n"
proof -
  have "pool_inv n t" using assms by (rule pool_use.inv_reachable)
  then show ?thesis
    using mp_get_cases [OF surjective_pairing, of "sys_pool t"] by (simp add: pool_inv_def)
qed

theorem pooled_messages_are_clean_witness:
  "fst (mp_get (mp_return_message (om_new\<lparr>om_id := ''x''\<rparr>) (mp_new 1))) = om_new"
proof -
  let ?h = "om_new\<lparr>om_id := ''x''\<rparr>"
  let ?s = "\<lparr>sys_pool = mp_new 1, sys_handles = [], sys_returning = []\<rparr>"
  have "pool_step ?s (?s\<lparr>sys_handles := [Some om_new]\<rparr>)"
    using pool_step.get [of ?s om_new "mp_new 1"] by (simp add: mp_get_def mp_new_def)
  moreover have "pool_step (?s\<lparr>sys_handles := [Some om_new]\<rparr>) (?s\<lparr>sys_handles := [Some ?h]\<rparr>)"
    using pool_step.get_mut [of 0 "?s\<lparr>sys_handles := [Some om_new]\<rparr>" om_new ?h] by (simp add: pm_get_def)
  moreover have "pool_step (?s\<lparr>sys_handles := [Some ?h]\<rparr>) (?s\<lparr>sys_returning := [?h]\<rparr>)"
    using pool_step.drop_handle [of "?s\<lparr>sys_handles := [Some ?h]\<rparr>" "[]" "Some ?h" "[]"]
    by (simp add: pm_drop_def)
  moreover have "pool_step (?s\<lparr>sys_returning := [?h]\<rparr>) (?s\<lparr>sys_pool := mp_return_message ?h (mp_new 1)\<rparr>)"
    using pool_step.return_message [of "?s\<lparr>sys_returning := [?h]\<rparr>" "[]" ?h "[]"] by simp
  ultimately have "pool_step\<^sup>*\<^sup>* ?s (?s\<lparr>sys_pool := mp_return_message ?h (mp_new 1)\<rparr>)"
    by (meson rtranclp.intros)
  from pooled_messages_are_clean [OF _ this, of 1] show ?thesis by (simp add: pool_init_def)
qed

end
