(* ===== verification/Wal.thy ===== *)
theory Wal
  imports Rafka_Prelude
begin

text \<open>
  The message entries and the write-ahead log of \<^verbatim>\<open>crates/storage/src/db.rs\<close>
  (\<open>MessageEntry\<close>, \<open>WalLog\<close>). The \<open>bincode\<close> crate is a parameter: \<open>ser\<close> and \<open>deser\<close> encode and
  decode the serialised fields of an entry. The log file is its byte contents together with the
  bytes a \<open>BufWriter\<close> still holds; how far a write gets is an argument of the append, and where reading
  fails is an argument of \<open>read_all\<close>.
\<close>

section \<open>Entries\<close>

record message_entry =
  me_offset :: int
  me_payload :: "byte list"
  me_timestamp :: systime
  me_partition_id :: int
  me_acknowledged_by :: "(string, bool) hashmap"

record stored_message =
  sm_offset :: int
  sm_payload :: "byte list"
  sm_timestamp :: systime
  sm_partition_id :: int

definition to_stored_message :: "message_entry \<Rightarrow> stored_message" where
  "to_stored_message e = \<lparr>sm_offset = me_offset e, sm_payload = me_payload e,
     sm_timestamp = me_timestamp e, sm_partition_id = me_partition_id e\<rparr>"

text \<open>
  The fields the derived serialiser writes: \<open>acknowledged_by\<close> is marked \<open>serde(skip)\<close>, so it is
  not written and comes back empty.
\<close>

type_synonym entry_fields = "int \<times> byte list \<times> systime \<times> int"
type_synonym serialiser = "entry_fields \<Rightarrow> byte list option"
type_synonym deserialiser = "byte list \<Rightarrow> entry_fields option"

definition entry_fields :: "message_entry \<Rightarrow> entry_fields" where
  "entry_fields e = (me_offset e, me_payload e, me_timestamp e, me_partition_id e)"

definition entry_of_fields :: "entry_fields \<Rightarrow> message_entry" where
  "entry_of_fields x = (case x of (off, pay, ts, pid) \<Rightarrow>
     \<lparr>me_offset = off, me_payload = pay, me_timestamp = ts, me_partition_id = pid,
      me_acknowledged_by = []\<rparr>)"

section \<open>The log\<close>

datatype wal_error = WalSerialize | WalWrite | WalUnexpectedEof | WalDeserialize | WalRead

text \<open>
  The fate of one write: \<open>IoOk\<close>, everything buffered reaches the file; \<open>IoErr s k\<close>, an I/O
  error after \<open>s\<close> bytes, with \<open>k\<close> more bytes left in the buffer for the next write.
\<close>

datatype io_result = IoOk | IoErr nat nat

record wal_log =
  wal_file :: "byte list"
  wal_buffer :: "byte list"

definition wal_new :: "byte list \<Rightarrow> wal_log" where
  "wal_new contents = \<lparr>wal_file = contents, wal_buffer = []\<rparr>"

definition wal_write :: "io_result \<Rightarrow> byte list \<Rightarrow> wal_log \<Rightarrow> (wal_error + unit) \<times> wal_log" where
  "wal_write io bs w =
     (let pending = wal_buffer w @ bs in
      case io of
        IoOk \<Rightarrow> (Inr (), w\<lparr>wal_file := wal_file w @ pending, wal_buffer := []\<rparr>)
      | IoErr s k \<Rightarrow> (Inl WalWrite, w\<lparr>wal_file := wal_file w @ take s pending,
                                        wal_buffer := take k (drop s pending)\<rparr>))"

definition wal_append ::
  "serialiser \<Rightarrow> io_result \<Rightarrow> message_entry \<Rightarrow> wal_log \<Rightarrow> (wal_error + unit) \<times> wal_log" where
  "wal_append ser io e w =
     (case ser (entry_fields e) of
        None \<Rightarrow> (Inl WalSerialize, w)
      | Some encoded \<Rightarrow> wal_write io (to_le 8 (length encoded) @ encoded) w)"

text \<open>
  \<open>read_all\<close>: the bytes not yet read and the entries found so far. Fewer than eight bytes left is
  the end of the file. A length above \<open>isize::MAX\<close> panics in \<open>vec![0u8; len]\<close>.
\<close>

function read_loop ::
  "deserialiser \<Rightarrow> byte list \<Rightarrow> message_entry list \<Rightarrow> (wal_error + message_entry list) outcome" where
  "read_loop deser bs entries =
     (if length bs < 8 then Ret (Inr entries)
      else
        let len = from_le (take 8 bs); rest = drop 8 bs in
        if len \<ge> 2 ^ 63 then Panic
        else if length rest < len then Ret (Inl WalUnexpectedEof)
        else case deser (take len rest) of
          None \<Rightarrow> Ret (Inl WalDeserialize)
        | Some x \<Rightarrow> read_loop deser (drop len rest) (entries @ [entry_of_fields x]))"
  by pat_completeness auto
termination
  by (relation "measure (\<lambda>(_, bs, _). length bs)") auto

declare read_loop.simps [simp del]

text \<open>
  \<open>Some n\<close>: an I/O error other than the end of the file when byte \<open>n\<close> is to be read; a failure to open the
  file again or to get its metadata is an error at byte 0. The loop sees the frames before that byte, and
  ends with the error where it would have found the end of the file.
\<close>

definition wal_read_all ::
  "deserialiser \<Rightarrow> nat option \<Rightarrow> wal_log \<Rightarrow> (wal_error + message_entry list) outcome" where
  "wal_read_all deser fault w =
     (case fault of
        None \<Rightarrow> read_loop deser (wal_file w) []
      | Some n \<Rightarrow>
          (case read_loop deser (take n (wal_file w)) [] of
             Ret (Inr _) \<Rightarrow> Ret (Inl WalRead)
           | Ret (Inl WalUnexpectedEof) \<Rightarrow> Ret (Inl WalRead)
           | r \<Rightarrow> r))"

text \<open>A log file on disk as \<open>new\<close> finds it: its bytes, and where reading them fails.\<close>

datatype log_file = Readable (log_bytes: "byte list") | Failing (log_bytes: "byte list") nat

fun log_fault :: "log_file \<Rightarrow> nat option" where
  "log_fault (Readable bs) = None"
| "log_fault (Failing bs n) = Some n"

section \<open>What is relied on of the serialisation library\<close>

text \<open>
  Documented behaviour of \<open>bincode\<close>: decoding the encoding of a value gives the value back. The
  encodings are shorter than \<open>isize::MAX\<close> bytes, as every Rust allocation is.
\<close>

definition bincode_law :: "serialiser \<Rightarrow> deserialiser \<Rightarrow> bool" where
  "bincode_law ser deser \<longleftrightarrow>
     (\<forall>x bs. ser x = Some bs \<longrightarrow> deser bs = Some x \<and> length bs < 2 ^ 63)"

text \<open>A serialiser that satisfies the law, for small integers: one byte per field.\<close>

definition small_ser :: serialiser where
  "small_ser x = (case x of (off, pay, ts, pid) \<Rightarrow>
     if 0 \<le> off \<and> off < 256 \<and> 0 \<le> ts \<and> ts < 256 \<and> 0 \<le> pid \<and> pid < 256 \<and> length pay < 1000
     then Some (word_of_int off # word_of_int ts # word_of_int pid # pay) else None)"

definition small_deser :: deserialiser where
  "small_deser bs = (case bs of
     off # ts # pid # pay \<Rightarrow> Some (uint off, pay, uint ts, uint pid) | _ \<Rightarrow> None)"

lemma small_bincode_law: "bincode_law small_ser small_deser"
  by (auto simp: bincode_law_def small_ser_def small_deser_def uint_word_of_int_eq take_bit_eq_mod
      split: if_splits)

section \<open>Reading what was written\<close>

definition log_of :: "serialiser \<Rightarrow> message_entry list \<Rightarrow> byte list" where
  "log_of ser es = concat (map (\<lambda>e. frame (to_le 8) (the (ser (entry_fields e)))) es)"

definition clear_acks :: "message_entry \<Rightarrow> message_entry" where
  "clear_acks e = e\<lparr>me_acknowledged_by := []\<rparr>"

definition serialisable :: "serialiser \<Rightarrow> message_entry \<Rightarrow> bool" where
  "serialisable ser e \<longleftrightarrow> ser (entry_fields e) \<noteq> None"

lemma entry_of_fields_inverse [simp]: "entry_of_fields (entry_fields e) = clear_acks e"
  by (simp add: entry_of_fields_def entry_fields_def clear_acks_def)

lemma log_of_simps [simp]:
  "log_of ser [] = []"
  "log_of ser (e # es) = frame (to_le 8) (the (ser (entry_fields e))) @ log_of ser es"
  "log_of ser (es @ es') = log_of ser es @ log_of ser es'"
  by (simp_all add: log_of_def)

lemma read_loop_frame:
  assumes "bincode_law ser deser" and "serialisable ser e"
  shows "read_loop deser (frame (to_le 8) (the (ser (entry_fields e))) @ rest) acc =
     read_loop deser rest (acc @ [clear_acks e])"
proof -
  obtain bs where bs: "ser (entry_fields e) = Some bs"
    using assms(2) by (auto simp: serialisable_def)
  with assms(1) have d: "deser bs = Some (entry_fields e)" and len: "length bs < 2 ^ 63"
    unfolding bincode_law_def by blast+
  then have "from_le (take 8 (frame (to_le 8) bs @ rest)) = length bs"
    by (intro le64.frame_prefix) simp
  with len d show ?thesis
    using le64.frame_payload [of bs rest] le64.frame_rest [of bs rest]
    by (subst read_loop.simps) (simp add: bs le64.frame_length Let_def not_le)
qed

lemma read_loop_log:
  assumes "bincode_law ser deser" and "list_all (serialisable ser) es"
  shows "read_loop deser (log_of ser es @ rest) acc = read_loop deser rest (acc @ map clear_acks es)"
  using assms(2)
  by (induction es arbitrary: acc) (simp_all add: read_loop_frame [OF assms(1)])

text \<open>The unfinished last frame that a crash in the middle of an append leaves behind.\<close>

lemma read_loop_torn:
  assumes "k < length (frame (to_le 8) bs)" and "length bs < 2 ^ 63"
  shows "read_loop deser (take k (frame (to_le 8) bs)) acc =
     Ret (if k < 8 then Inr acc else Inl WalUnexpectedEof)"
proof (cases "k < 8")
  case True
  with assms(1) show ?thesis by (subst read_loop.simps) simp
next
  case False
  have "take 8 (take k (frame (to_le 8) bs)) = take 8 (frame (to_le 8) bs @ [])"
    using False by simp
  then have "from_le (take 8 (take k (frame (to_le 8) bs))) = length bs"
    using le64.frame_prefix [of bs "[]"] assms(2) by simp
  moreover have "k - 8 < length bs" using False assms(1) by (simp add: le64.frame_length)
  ultimately show ?thesis
    using False assms by (subst read_loop.simps) (simp add: le64.frame_length Let_def)
qed

text \<open>A run of appends, each fully written.\<close>

fun wal_append_all :: "serialiser \<Rightarrow> message_entry list \<Rightarrow> wal_log \<Rightarrow> wal_log" where
  "wal_append_all ser [] w = w"
| "wal_append_all ser (e # es) w = wal_append_all ser es (snd (wal_append ser IoOk e w))"

lemma wal_append_ok:
  "serialisable ser e \<Longrightarrow> wal_buffer w = [] \<Longrightarrow>
   wal_append ser IoOk e w = (Inr (), w\<lparr>wal_file := wal_file w @ log_of ser [e]\<rparr>)"
  by (auto simp: wal_append_def wal_write_def serialisable_def log_of_def frame_def)

lemma wal_append_all_file:
  "list_all (serialisable ser) es \<Longrightarrow> wal_buffer w = [] \<Longrightarrow>
   wal_append_all ser es w = w\<lparr>wal_file := wal_file w @ log_of ser es\<rparr>"
  by (induction es arbitrary: w) (simp_all add: wal_append_ok)

section \<open>Properties\<close>

text \<open>
  The log is durable. Reading a new log file after any sequence of completed appends
  gives back exactly the appended entries in order, with the acknowledgements (which are not
  persisted) cleared; \<open>read_all\<close> returns and does not panic.
\<close>

lemma wal_roundtrip:
  assumes "bincode_law ser deser" and "list_all (serialisable ser) es"
  shows "wal_read_all deser None (wal_append_all ser es (wal_new [])) = Ret (Inr (map clear_acks es))"
proof -
  have "wal_file (wal_append_all ser es (wal_new [])) = log_of ser es @ []"
    using wal_append_all_file [OF assms(2), of "wal_new []"] by (simp add: wal_new_def)
  then show ?thesis
    by (simp only: wal_read_all_def read_loop_log [OF assms]) (simp add: read_loop.simps)
qed

definition example_entry :: "int \<Rightarrow> byte list \<Rightarrow> message_entry" where
  "example_entry off pay = \<lparr>me_offset = off, me_payload = pay, me_timestamp = 9,
     me_partition_id = 0, me_acknowledged_by = [(''c'', True)]\<rparr>"

lemma wal_roundtrip_example:
  "wal_read_all small_deser None
     (wal_append_all small_ser [example_entry 0 [1, 2], example_entry 1 []] (wal_new [])) =
   Ret (Inr [clear_acks (example_entry 0 [1, 2]), clear_acks (example_entry 1 [])])"
  using wal_roundtrip [OF small_bincode_law, of "[example_entry 0 [1, 2], example_entry 1 []]"]
  by (simp add: serialisable_def example_entry_def entry_fields_def small_ser_def)

text \<open>
  What a torn last write costs. After complete entries followed by the first \<open>k\<close>
  bytes of one more frame, \<open>read_all\<close> returns all complete entries if the cut falls inside the
  length prefix, but fails as a whole, returning none of the entries, if the cut falls behind it.
\<close>

lemma wal_torn_tail:
  assumes "bincode_law ser deser" and "list_all (serialisable ser) es"
    and "ser (entry_fields e) = Some bs" and "k < 8 + length bs"
  shows "wal_read_all deser None (wal_new (log_of ser es @ take k (frame (to_le 8) bs))) =
     Ret (if k < 8 then Inr (map clear_acks es) else Inl WalUnexpectedEof)"
proof -
  have "length bs < 2 ^ 63" using assms(1,3) unfolding bincode_law_def by blast
  then show ?thesis
    using assms(4) read_loop_torn [of k bs deser "map clear_acks es"]
    by (simp add: wal_read_all_def wal_new_def read_loop_log [OF assms(1,2)] le64.frame_length)
qed

lemma wal_torn_tail_example:
  "wal_read_all small_deser None (wal_new (log_of small_ser [example_entry 0 [1]] @
      take 9 (frame (to_le 8) [1, 9, 0, 5]))) = Ret (Inl WalUnexpectedEof)"
  using wal_torn_tail [OF small_bincode_law, of "[example_entry 0 [1]]" "example_entry 1 [5]" "[1, 9, 0, 5]" 9]
  by (simp add: serialisable_def example_entry_def entry_fields_def small_ser_def)

end
