(* ===== verification/Partition_Queue.thy ===== *)
theory Partition_Queue
  imports Wal
begin

text \<open>
  One partition's message queue, \<open>PartitionQueue\<close> of \<^verbatim>\<open>crates/storage/src/db.rs\<close>. The
  queue is guarded by a \<open>parking_lot::RwLock\<close>. That lock is a parameter: \<open>grant st\<close> says whether
  a request for the lock, made while the lock is in state \<open>st\<close>, is granted; a request that is not
  granted blocks the calling thread. A guard that is never dropped stays visible as \<open>WriteHeld\<close>.
\<close>

section \<open>State\<close>

datatype lock_state = Unlocked | WriteHeld

type_synonym lock_policy = "lock_state \<Rightarrow> bool"

text \<open>Documented behaviour of the lock: it is exclusive and not re-entrant.\<close>

definition exclusive_lock :: "lock_policy \<Rightarrow> bool" where
  "exclusive_lock grant \<longleftrightarrow> grant Unlocked \<and> \<not> grant WriteHeld"

record retention_policy =
  rp_max_age :: duration
  rp_max_bytes :: nat

definition rp_default :: retention_policy where
  "rp_default = \<lparr>rp_max_age = secs (7 * 24 * 60 * 60), rp_max_bytes = 1024 * 1024 * 1024\<rparr>"

record partition_queue =
  pq_messages :: "message_entry list"
  pq_next_offset :: int
  pq_retention_policy :: retention_policy
  pq_current_size :: nat
  pq_wal :: "wal_log option"
  pq_lock :: lock_state

section \<open>Creation and recovery\<close>

text \<open>The loop of \<open>new\<close> over the entries read from the log.\<close>

fun recover_loop :: "bool \<Rightarrow> message_entry list \<Rightarrow> int \<Rightarrow> nat \<Rightarrow> (int \<times> nat) outcome" where
  "recover_loop ovf [] next_offset current_size = Ret (next_offset, current_size)"
| "recover_loop ovf (e # es) next_offset current_size =
     (if me_offset e \<ge> next_offset then
        (case arith_s 64 ovf (me_offset e + 1) of
           Ret n \<Rightarrow> recover_loop ovf es n (current_size + length (me_payload e))
         | Panic \<Rightarrow> Panic
         | Block \<Rightarrow> Block)
      else recover_loop ovf es next_offset (current_size + length (me_payload e)))"

text \<open>
  \<open>disk\<close> is the log file, or \<open>None\<close> if it cannot be opened or created. Every error of \<open>read_all\<close> is dropped by
  \<open>if let Ok(..)\<close>.
\<close>

definition pq_new ::
  "bool \<Rightarrow> deserialiser \<Rightarrow> retention_policy \<Rightarrow> log_file option \<Rightarrow> partition_queue outcome" where
  "pq_new ovf deser policy disk =
     (let mk = (\<lambda>ms n sz w. \<lparr>pq_messages = ms, pq_next_offset = n, pq_retention_policy = policy,
                  pq_current_size = sz, pq_wal = w, pq_lock = Unlocked\<rparr>) in
      case disk of
        None \<Rightarrow> Ret (mk [] 0 0 None)
      | Some f \<Rightarrow>
          (let wal = wal_new (log_bytes f) in
           case wal_read_all deser (log_fault f) wal of
             Ret (Inr entries) \<Rightarrow>
               (case recover_loop ovf entries 0 0 of
                  Ret (n, sz) \<Rightarrow> Ret (mk entries n sz (Some wal))
                | Panic \<Rightarrow> Panic
                | Block \<Rightarrow> Block)
           | Ret (Inl _) \<Rightarrow> Ret (mk [] 0 0 (Some wal))
           | Panic \<Rightarrow> Panic
           | Block \<Rightarrow> Block))"

section \<open>Operations\<close>

text \<open>
  The \<open>while let\<close> loop of \<open>enforce_retention_policy\<close>: how it ends, the messages that are left and
  the local variable \<open>size\<close>.
\<close>

fun enforce_loop ::
  "bool \<Rightarrow> systime \<Rightarrow> retention_policy \<Rightarrow> message_entry list \<Rightarrow> nat \<Rightarrow>
   unit outcome \<times> message_entry list \<times> nat" where
  "enforce_loop ovf now pol [] sz = (Ret (), [], sz)"
| "enforce_loop ovf now pol (e # es) sz =
     (case duration_since now (me_timestamp e) of
        Some age \<Rightarrow>
          (if age > rp_max_age pol \<or> sz > rp_max_bytes pol then
             (case arith_u 64 ovf (int sz - int (length (me_payload e))) of
                Ret sz' \<Rightarrow> enforce_loop ovf now pol es sz'
              | Panic \<Rightarrow> (Panic, es, sz)
              | Block \<Rightarrow> (Block, es, sz))
           else (Ret (), e # es, sz))
      | None \<Rightarrow> (Ret (), e # es, sz))"

definition enforce_retention_policy ::
  "bool \<Rightarrow> lock_policy \<Rightarrow> systime \<Rightarrow> partition_queue \<Rightarrow> unit outcome \<times> partition_queue" where
  "enforce_retention_policy ovf grant now q =
     (if \<not> grant (pq_lock q) then (Block, q)
      else case enforce_loop ovf now (pq_retention_policy q) (pq_messages q) (pq_current_size q) of
        (Ret _, ms, sz) \<Rightarrow> (Ret (), q\<lparr>pq_messages := ms, pq_current_size := sz\<rparr>)
      | (Panic, ms, _) \<Rightarrow> (Panic, q\<lparr>pq_messages := ms\<rparr>)
      | (Block, ms, _) \<Rightarrow> (Block, q\<lparr>pq_messages := ms\<rparr>))"

text \<open>
  \<open>append\<close>. The write guard on \<open>messages\<close> is taken at the start and lives to the end of the
  function, so the call of \<open>enforce_retention_policy\<close> at the end runs with the lock held. A failed
  log write is printed and ignored. \<open>now\<close> is the entry's timestamp, \<open>now'\<close> the clock reading of
  the retention pass. The byte counter counts live allocations and cannot reach \<open>2 ^ 64\<close>.
\<close>

definition new_entry :: "partition_queue \<Rightarrow> systime \<Rightarrow> byte list \<Rightarrow> int \<Rightarrow> message_entry" where
  "new_entry q now payload partition_id =
     \<lparr>me_offset = pq_next_offset q, me_payload = payload, me_timestamp = now,
      me_partition_id = partition_id, me_acknowledged_by = []\<rparr>"

definition pq_append ::
  "bool \<Rightarrow> lock_policy \<Rightarrow> serialiser \<Rightarrow> io_result \<Rightarrow> systime \<Rightarrow> systime \<Rightarrow> byte list \<Rightarrow> int \<Rightarrow>
   partition_queue \<Rightarrow> int outcome \<times> partition_queue" where
  "pq_append ovf grant ser io now now' payload partition_id q =
     (if \<not> grant (pq_lock q) then (Block, q)
      else case arith_s 64 ovf (pq_next_offset q + 1) of
        Ret next \<Rightarrow>
          (let entry = new_entry q now payload partition_id;
               q1 = q\<lparr>pq_lock := WriteHeld,
                      pq_next_offset := next,
                      pq_wal := map_option (\<lambda>w. snd (wal_append ser io entry w)) (pq_wal q),
                      pq_current_size := pq_current_size q + length payload,
                      pq_messages := pq_messages q @ [entry]\<rparr>
           in case enforce_retention_policy ovf grant now' q1 of
                (Ret _, q2) \<Rightarrow> (Ret (pq_next_offset q), q2\<lparr>pq_lock := Unlocked\<rparr>)
              | (Panic, q2) \<Rightarrow> (Panic, q2\<lparr>pq_lock := Unlocked\<rparr>)
              | (Block, q2) \<Rightarrow> (Block, q2))
      | Panic \<Rightarrow> (Panic, q)
      | Block \<Rightarrow> (Block, q))"

definition read_from ::
  "lock_policy \<Rightarrow> int \<Rightarrow> nat \<Rightarrow> partition_queue \<Rightarrow> message_entry list outcome" where
  "read_from grant start_offset max_messages q =
     (if \<not> grant (pq_lock q) then Block
      else Ret (take max_messages (filter (\<lambda>e. me_offset e \<ge> start_offset) (pq_messages q))))"

text \<open>\<open>iter().find(..)\<close> and the insertion into the found entry's map.\<close>

fun ack_first :: "int \<Rightarrow> string \<Rightarrow> message_entry list \<Rightarrow> message_entry list" where
  "ack_first off consumer [] = []"
| "ack_first off consumer (e # es) =
     (if me_offset e = off
      then e\<lparr>me_acknowledged_by := hm_insert consumer True (me_acknowledged_by e)\<rparr> # es
      else e # ack_first off consumer es)"

definition pq_acknowledge ::
  "lock_policy \<Rightarrow> int \<Rightarrow> string \<Rightarrow> partition_queue \<Rightarrow> unit outcome \<times> partition_queue" where
  "pq_acknowledge grant off consumer_id q =
     (if \<not> grant (pq_lock q) then (Block, q)
      else (Ret (), q\<lparr>pq_messages := ack_first off consumer_id (pq_messages q)\<rparr>))"

abbreviation payload_bytes :: "message_entry list \<Rightarrow> nat" where
  "payload_bytes es \<equiv> sum_list (map (\<lambda>e. length (me_payload e)) es)"

definition cleanup_acknowledged ::
  "lock_policy \<Rightarrow> partition_queue \<Rightarrow> unit outcome \<times> partition_queue" where
  "cleanup_acknowledged grant q =
     (if \<not> grant (pq_lock q) then (Block, q)
      else
        let ms = filter (\<lambda>m. me_acknowledged_by m = []) (pq_messages q) in
        (Ret (), q\<lparr>pq_messages := ms, pq_current_size := payload_bytes ms\<rparr>))"

section \<open>Well-formed queues\<close>

text \<open>
  The byte counter is the size of the queued payloads, and offsets strictly increase and stay
  below the next offset.
\<close>

definition pq_wf :: "partition_queue \<Rightarrow> bool" where
  "pq_wf q \<longleftrightarrow> pq_current_size q = payload_bytes (pq_messages q) \<and>
     payload_bytes (pq_messages q) < 2 ^ 64 \<and>
     sorted_wrt (<) (map me_offset (pq_messages q)) \<and>
     (\<forall>e \<in> set (pq_messages q). 0 \<le> me_offset e \<and> me_offset e < pq_next_offset q) \<and>
     0 \<le> pq_next_offset q"

section \<open>Laws of the retention loop\<close>

text \<open>When may the message at the front of the queue stay?\<close>

definition keeps :: "systime \<Rightarrow> retention_policy \<Rightarrow> message_entry list \<Rightarrow> bool" where
  "keeps now pol es \<longleftrightarrow> (case es of [] \<Rightarrow> True | e # _ \<Rightarrow>
     now < me_timestamp e \<or>
     (nat (now - me_timestamp e) \<le> rp_max_age pol \<and> payload_bytes es \<le> rp_max_bytes pol))"

text \<open>The abstract policy: drop from the front until the front may stay.\<close>

fun retain :: "systime \<Rightarrow> retention_policy \<Rightarrow> message_entry list \<Rightarrow> message_entry list" where
  "retain now pol [] = []"
| "retain now pol (e # es) = (if keeps now pol (e # es) then e # es else retain now pol es)"

lemma enforce_loop_retain:
  "payload_bytes es < 2 ^ 64 \<Longrightarrow>
   enforce_loop ovf now pol es (payload_bytes es) =
     (Ret (), retain now pol es, payload_bytes (retain now pol es))"
proof (induction es)
  case (Cons e es)
  have "in_u 64 (int (payload_bytes (e # es)) - int (length (me_payload e)))"
    using Cons.prems by (simp add: in_u_def)
  then have "arith_u 64 ovf (int (payload_bytes (e # es)) - int (length (me_payload e)))
      = Ret (payload_bytes es)"
    by (simp add: nat_diff_distrib)
  with Cons show ?case
    by (auto simp: keeps_def duration_since_def not_le not_less)
qed simp

lemma retain_suffix: "\<exists>pre. es = pre @ retain now pol es"
  by (induction es) (auto intro: exI [of _ "[]"] exI [of _ "_ # _"])

lemma retain_keeps: "keeps now pol (retain now pol es)"
  by (induction es) (auto simp: keeps_def)

lemma retain_minimal:
  "es = pre @ e # post \<Longrightarrow> length (retain now pol es) \<le> length post \<Longrightarrow> \<not> keeps now pol (e # post)"
  by (induction es arbitrary: pre) (fastforce simp: Cons_eq_append_conv split: if_splits)+

lemma payload_bytes_suffix: "payload_bytes (retain now pol es) \<le> payload_bytes es"
  by (induction es) auto

lemma enforce_unlocked:
  assumes "pq_wf q" and "grant (pq_lock q)"
  shows "enforce_retention_policy ovf grant now q =
     (Ret (), q\<lparr>pq_messages := retain now (pq_retention_policy q) (pq_messages q),
               pq_current_size := payload_bytes (retain now (pq_retention_policy q) (pq_messages q))\<rparr>)"
  using assms enforce_loop_retain [of "pq_messages q" ovf now "pq_retention_policy q"]
  by (simp add: enforce_retention_policy_def pq_wf_def)

lemma pq_wf_suffix:
  assumes "pq_wf q" and "pq_messages q = pre @ ms"
  shows "pq_wf (q\<lparr>pq_messages := ms, pq_current_size := payload_bytes ms\<rparr>)"
  using assms by (auto simp: pq_wf_def sorted_wrt_append)

lemma pq_wf_retain:
  "pq_wf q \<Longrightarrow> pq_wf (q\<lparr>pq_messages := retain now pol (pq_messages q),
               pq_current_size := payload_bytes (retain now pol (pq_messages q))\<rparr>)"
  using retain_suffix [of "pq_messages q" now pol] by (blast intro: pq_wf_suffix)

section \<open>Laws of the other operations\<close>

lemma pq_wf_append:
  assumes "pq_wf q" and "payload_bytes (pq_messages q) + length payload < 2 ^ 64"
  shows "pq_wf (q\<lparr>pq_lock := l, pq_next_offset := pq_next_offset q + 1, pq_wal := w,
            pq_current_size := pq_current_size q + length payload,
            pq_messages := pq_messages q @ [new_entry q now payload pid]\<rparr>)"
  using assms by (fastforce simp: pq_wf_def new_entry_def sorted_wrt_append)

lemma pq_wf_lock: "pq_wf (q\<lparr>pq_lock := l\<rparr>) = pq_wf q"
  by (simp add: pq_wf_def)

lemma ack_first_offsets: "map me_offset (ack_first off c es) = map me_offset es"
  by (induction es) auto

lemma ack_first_bytes: "payload_bytes (ack_first off c es) = payload_bytes es"
  by (induction es) auto

lemma ack_first_unacked:
  "sorted_wrt (<) (map me_offset es) \<Longrightarrow>
   filter (\<lambda>m. me_acknowledged_by m = []) (ack_first off c es) =
   filter (\<lambda>m. me_acknowledged_by m = [] \<and> me_offset m \<noteq> off) es"
  by (induction es) (auto intro!: filter_cong)

lemma pq_wf_ack: "pq_wf q \<Longrightarrow> pq_wf (q\<lparr>pq_messages := ack_first off c (pq_messages q)\<rparr>)"
proof -
  assume wf: "pq_wf q"
  have "me_offset ` set (ack_first off c (pq_messages q)) = me_offset ` set (pq_messages q)"
    using ack_first_offsets [of off c "pq_messages q"] by (metis list.set_map)
  then have "\<forall>e \<in> set (ack_first off c (pq_messages q)). 0 \<le> me_offset e \<and> me_offset e < pq_next_offset q"
    using wf unfolding pq_wf_def by (metis (no_types, lifting) imageE image_eqI)
  with wf show ?thesis by (simp add: pq_wf_def ack_first_offsets ack_first_bytes)
qed

lemma payload_bytes_filter: "payload_bytes (filter P es) \<le> payload_bytes es"
  by (induction es) auto

lemma pq_wf_filter:
  "pq_wf q \<Longrightarrow> pq_wf (q\<lparr>pq_messages := filter P (pq_messages q),
     pq_current_size := payload_bytes (filter P (pq_messages q))\<rparr>)"
  using payload_bytes_filter [of P "pq_messages q"]
  by (auto simp: pq_wf_def sorted_wrt_map intro: sorted_wrt_filter)

lemma sorted_take_filter:
  assumes "sorted_wrt (<) (map f es)" and "x \<in> set es" and "P x"
  shows "x \<in> set (take n (filter P es)) \<or>
     (length (take n (filter P es)) = n \<and> (\<forall>y \<in> set (take n (filter P es)). f y < f x))"
proof -
  let ?ys = "filter P es"
  have "sorted_wrt (\<lambda>a b. f a < f b) (take n ?ys @ drop n ?ys)"
    using assms(1) by (simp add: sorted_wrt_map sorted_wrt_filter)
  then have lt: "\<forall>a \<in> set (take n ?ys). \<forall>b \<in> set (drop n ?ys). f a < f b"
    unfolding sorted_wrt_append by blast
  have "x \<in> set (take n ?ys @ drop n ?ys)" using assms(2,3) by simp
  then consider "x \<in> set (take n ?ys)" | "x \<in> set (drop n ?ys)" unfolding set_append by blast
  then show ?thesis
  proof cases
    case 2
    then have "n < length ?ys" by (metis drop_all empty_iff list.set(1) not_le)
    with 2 lt show ?thesis by (simp add: min_def)
  qed simp
qed

section \<open>Recovery of a log\<close>

definition consecutive :: "message_entry list \<Rightarrow> bool" where
  "consecutive es \<longleftrightarrow> map me_offset es = map int [0..<length es]"

lemma recover_consecutive:
  "map me_offset es = map int [k..<k + length es] \<Longrightarrow> k + length es < 2 ^ 63 \<Longrightarrow>
   recover_loop ovf es (int k) sz = Ret (int (k + length es), sz + payload_bytes es)"
proof (induction es arbitrary: k sz)
  case (Cons e es)
  have up: "[k..<k + length (e # es)] = k # [Suc k..<Suc k + length es]"
    by (simp add: upt_conv_Cons del: upt_Suc)
  from Cons.prems(1) [unfolded up] have e: "me_offset e = int k"
    and es: "map me_offset es = map int [Suc k..<Suc k + length es]" by (simp_all del: upt_Suc)
  have "in_s 64 (int k + 1)" using Cons.prems(2) by (simp add: in_s_def)
  with e Cons.IH [OF es] Cons.prems(2) show ?case by (simp add: add.assoc add.commute [of "int k"])
qed simp

lemma consecutive_wf:
  assumes "consecutive es" and "payload_bytes es < 2 ^ 64"
  shows "pq_wf \<lparr>pq_messages = es, pq_next_offset = int (length es), pq_retention_policy = pol,
           pq_current_size = payload_bytes es, pq_wal = w, pq_lock = l\<rparr>"
proof -
  have "sorted_wrt (<) (map me_offset es)"
    using assms(1) by (simp add: consecutive_def sorted_wrt_map)
  moreover have "me_offset ` set es = int ` {0..<length es}"
    using assms(1) unfolding consecutive_def by (metis list.set_map set_upt)
  then have "\<forall>e \<in> set es. 0 \<le> me_offset e \<and> me_offset e < int (length es)" by force
  ultimately show ?thesis using assms(2) by (simp add: pq_wf_def)
qed

lemma pq_new_log:
  assumes "bincode_law ser deser" and "list_all (serialisable ser) es"
    and "map clear_acks es = es" and "consecutive es" and "length es < 2 ^ 63"
  shows "pq_new ovf deser pol (Some (Readable (log_of ser es))) =
     Ret \<lparr>pq_messages = es, pq_next_offset = int (length es), pq_retention_policy = pol,
          pq_current_size = payload_bytes es, pq_wal = Some (wal_new (log_of ser es)), pq_lock = Unlocked\<rparr>"
proof -
  have "wal_read_all deser None (wal_new (log_of ser es)) = Ret (Inr es)"
    using read_loop_log [OF assms(1,2), of "[]" "[]"] assms(3)
    by (simp add: wal_read_all_def wal_new_def read_loop.simps)
  moreover have "recover_loop ovf es 0 0 = Ret (int (length es), payload_bytes es)"
    using recover_consecutive [of es 0 ovf 0] assms(4,5) by (simp add: consecutive_def)
  ultimately show ?thesis by (simp add: pq_new_def)
qed

section \<open>Appending and restarting\<close>

text \<open>
  A broker process that appends one message and is then restarted, again and again: the contents
  of the log file after the runs \<open>xs\<close>, each with its payload and its two clock readings.
\<close>

fun restart_cycles ::
  "bool \<Rightarrow> lock_policy \<Rightarrow> serialiser \<Rightarrow> deserialiser \<Rightarrow> retention_policy \<Rightarrow> int \<Rightarrow>
   (byte list \<times> systime \<times> systime) list \<Rightarrow> byte list \<Rightarrow> byte list outcome" where
  "restart_cycles ovf grant ser deser pol pid [] disk = Ret disk"
| "restart_cycles ovf grant ser deser pol pid ((payload, now, now') # xs) disk =
     (case pq_new ovf deser pol (Some (Readable disk)) of
        Ret q \<Rightarrow>
          (case pq_wal (snd (pq_append ovf grant ser IoOk now now' payload pid q)) of
             Some w \<Rightarrow> restart_cycles ovf grant ser deser pol pid xs (wal_file w)
           | None \<Rightarrow> Panic)
      | Panic \<Rightarrow> Panic
      | Block \<Rightarrow> Block)"

fun entries_from :: "int \<Rightarrow> nat \<Rightarrow> (byte list \<times> systime \<times> systime) list \<Rightarrow> message_entry list" where
  "entries_from pid k [] = []"
| "entries_from pid k ((payload, now, now') # xs) =
     \<lparr>me_offset = int k, me_payload = payload, me_timestamp = now, me_partition_id = pid,
      me_acknowledged_by = []\<rparr> # entries_from pid (Suc k) xs"

lemma entries_from_length [simp]: "length (entries_from pid k xs) = length xs"
  by (induction pid k xs rule: entries_from.induct) auto

lemma entries_from_offsets: "map me_offset (entries_from pid k xs) = map int [k..<k + length xs]"
proof (induction pid k xs rule: entries_from.induct)
  case (2 pid k payload now now' xs)
  have "[k..<k + length ((payload, now, now') # xs)] = k # [Suc k..<Suc k + length xs]"
    by (simp add: upt_conv_Cons del: upt_Suc)
  with 2 show ?case by (simp del: upt_Suc)
qed simp

lemma entries_from_payloads: "map me_payload (entries_from pid k xs) = map fst xs"
  by (induction pid k xs rule: entries_from.induct) auto

lemma entries_from_bytes: "payload_bytes (entries_from pid k xs) = sum_list (map (\<lambda>x. length (fst x)) xs)"
  by (induction pid k xs rule: entries_from.induct) auto

lemma entries_from_acks: "map clear_acks (entries_from pid k xs) = entries_from pid k xs"
  by (induction pid k xs rule: entries_from.induct) (auto simp: clear_acks_def)

lemma entries_from_append:
  "entries_from pid k (xs @ ys) = entries_from pid k xs @ entries_from pid (k + length xs) ys"
  by (induction pid k xs rule: entries_from.induct) auto

lemma append_wal:
  assumes "grant (pq_lock q)" and "in_s 64 (pq_next_offset q + 1)"
  shows "pq_wal (snd (pq_append ovf grant ser io now now' payload pid q)) =
     map_option (\<lambda>w. snd (wal_append ser io (new_entry q now payload pid) w)) (pq_wal q)"
  using assms
  by (simp add: pq_append_def enforce_retention_policy_def Let_def split: outcome.split prod.split)

lemma restart_cycles_log:
  assumes "bincode_law ser deser" and "grant Unlocked"
    and "list_all (serialisable ser) (entries_from pid 0 (past @ xs))"
    and "length (past @ xs) < 2 ^ 63"
  shows "restart_cycles ovf grant ser deser pol pid xs (log_of ser (entries_from pid 0 past)) =
     Ret (log_of ser (entries_from pid 0 (past @ xs)))"
  using assms(3,4)
proof (induction xs arbitrary: past)
  case (Cons x xs)
  obtain payload now now' where x: "x = (payload, now, now')" by (cases x)
  let ?es = "entries_from pid 0 past"
  let ?q = "\<lparr>pq_messages = ?es, pq_next_offset = int (length ?es), pq_retention_policy = pol,
          pq_current_size = payload_bytes ?es, pq_wal = Some (wal_new (log_of ser ?es)), pq_lock = Unlocked\<rparr>"
  let ?e = "new_entry ?q now payload pid"
  have ser: "list_all (serialisable ser) ?es" "serialisable ser ?e"
    using Cons.prems(1) by (simp_all add: entries_from_append x new_entry_def)
  have "consecutive ?es" using entries_from_offsets [of pid 0 past] by (simp add: consecutive_def)
  then have new: "pq_new ovf deser pol (Some (Readable (log_of ser ?es))) = Ret ?q"
    using Cons.prems(2) by (intro pq_new_log assms(1) ser entries_from_acks) simp_all
  have "in_s 64 (int (length ?es) + 1)" using Cons.prems(2) by (simp add: in_s_def)
  then have "pq_wal (snd (pq_append ovf grant ser IoOk now now' payload pid ?q)) =
      Some \<lparr>wal_file = log_of ser (entries_from pid 0 (past @ [x])), wal_buffer = []\<rparr>"
    using assms(2) ser(2)
    by (subst append_wal) (simp_all add: wal_append_ok wal_new_def entries_from_append x new_entry_def)
  with new Cons.IH [of "past @ [x]"] Cons.prems show ?case by (simp add: x)
qed simp

section \<open>Properties\<close>

text \<open>
  Property C1: an append on a free queue never returns, because \<open>append\<close> calls
  \<open>enforce_retention_policy\<close>, which requests the same non-re-entrant lock, while its own write
  guard is alive. The entry has reached the log and the queue by then, the guard is never dropped,
  and from then on every operation on the partition blocks.
\<close>

theorem append_self_deadlock:
  assumes "exclusive_lock grant" and "pq_lock q = Unlocked" and "in_s 64 (pq_next_offset q + 1)"
    and "pq_append ovf grant ser io now now' payload pid q = (r, q')"
  shows "r = Block \<and> pq_lock q' = WriteHeld
     \<and> pq_messages q' = pq_messages q @ [new_entry q now payload pid]
     \<and> (\<forall>ovf ser io now now' payload pid. pq_append ovf grant ser io now now' payload pid q' = (Block, q'))
     \<and> (\<forall>start n. read_from grant start n q' = Block)
     \<and> (\<forall>off c. pq_acknowledge grant off c q' = (Block, q'))
     \<and> (\<forall>ovf now. enforce_retention_policy ovf grant now q' = (Block, q'))
     \<and> cleanup_acknowledged grant q' = (Block, q')"
  using assms
  by (auto simp: exclusive_lock_def pq_append_def enforce_retention_policy_def read_from_def
      pq_acknowledge_def cleanup_acknowledged_def Let_def)

definition empty_queue :: partition_queue where
  "empty_queue = \<lparr>pq_messages = [], pq_next_offset = 0, pq_retention_policy = rp_default,
     pq_current_size = 0, pq_wal = Some (wal_new []), pq_lock = Unlocked\<rparr>"

definition parking_lot :: lock_policy where
  "parking_lot st \<longleftrightarrow> st = Unlocked"

lemma parking_lot_exclusive [simp]: "exclusive_lock parking_lot" "parking_lot Unlocked" "\<not> parking_lot WriteHeld"
  by (simp_all add: exclusive_lock_def parking_lot_def)

theorem append_self_deadlock_witness:
  "fst (pq_append True parking_lot small_ser IoOk 5 5 [1, 2] 0 empty_queue) = Block"
  using append_self_deadlock [OF _ _ _ surjective_pairing, of parking_lot empty_queue True small_ser IoOk 5 5 "[1, 2]" 0]
  by (simp add: empty_queue_def in_s_def)

text \<open>
  Property C10: an append assigns the next offset and writes the log before anything else, however
  it ends. For every lock policy that grants a free lock the call returns exactly if the policy
  also grants the second request, it never panics below the offset limit, the log gains the new
  entry, the next offset grows by one, and the queue is a suffix of the old queue with the new
  entry at its end, still well-formed.
\<close>

theorem append_effect:
  assumes "pq_wf q" and "grant Unlocked" and "pq_lock q = Unlocked" and "in_s 64 (pq_next_offset q + 1)"
    and "payload_bytes (pq_messages q) + length payload < 2 ^ 64"
    and "pq_append ovf grant ser io now now' payload pid q = (r, q')"
  shows "r = (if grant WriteHeld then Ret (pq_next_offset q) else Block)
     \<and> pq_next_offset q' = pq_next_offset q + 1
     \<and> pq_wal q' = map_option (\<lambda>w. snd (wal_append ser io (new_entry q now payload pid) w)) (pq_wal q)
     \<and> (\<exists>dropped. dropped @ pq_messages q' = pq_messages q @ [new_entry q now payload pid])
     \<and> pq_wf q'"
proof -
  let ?w = "map_option (\<lambda>w. snd (wal_append ser io (new_entry q now payload pid) w)) (pq_wal q)"
  let ?ms = "pq_messages q @ [new_entry q now payload pid]"
  let ?q1 = "q\<lparr>pq_lock := WriteHeld, pq_next_offset := pq_next_offset q + 1, pq_wal := ?w,
      pq_current_size := pq_current_size q + length payload, pq_messages := ?ms\<rparr>"
  have wf1: "pq_wf ?q1" using assms(1,5) by (rule pq_wf_append)
  obtain dropped where dropped: "?ms = dropped @ retain now' (pq_retention_policy q) ?ms"
    using retain_suffix by blast
  show ?thesis
  proof (cases "grant WriteHeld")
    case True
    let ?ret = "retain now' (pq_retention_policy q) ?ms"
    let ?q2 = "?q1\<lparr>pq_messages := ?ret, pq_current_size := payload_bytes ?ret, pq_lock := Unlocked\<rparr>"
    have "pq_append ovf grant ser io now now' payload pid q = (Ret (pq_next_offset q), ?q2)"
      using assms(2-4) enforce_unlocked [OF wf1, of grant ovf now'] True
      by (simp add: pq_append_def Let_def)
    moreover have "pq_wf ?q2"
      using pq_wf_retain [OF wf1, of now' "pq_retention_policy q"] by (simp add: pq_wf_def)
    ultimately show ?thesis using assms(6) dropped True by (auto intro!: exI [of _ dropped])
  next
    case False
    with assms wf1 show ?thesis
      by (auto simp: pq_append_def enforce_retention_policy_def Let_def)
  qed
qed

theorem append_effect_witness:
  "pq_next_offset (snd (pq_append True parking_lot small_ser IoOk 5 5 [1, 2] 0 empty_queue)) = 1"
  using append_effect [OF _ _ _ _ _ surjective_pairing, of empty_queue parking_lot "[1, 2]" True small_ser IoOk 5 5 0]
  by (simp add: empty_queue_def in_s_def pq_wf_def)

text \<open>
  Property C9: a retention pass on a well-formed queue returns, does not panic, drops messages
  only from the front, stops as soon as the front message is within the age limit and the queue
  within the size limit (or the clock is behind the front message), and drops no message that
  could have stayed.
\<close>

theorem retention_enforced:
  assumes "pq_wf q" and "grant (pq_lock q)"
    and "enforce_retention_policy ovf grant now q = (r, q')"
  shows "r = Ret () \<and> pq_wf q' \<and> keeps now (pq_retention_policy q) (pq_messages q')
     \<and> (\<exists>dropped. pq_messages q = dropped @ pq_messages q'
          \<and> (\<forall>p1 e p2. dropped = p1 @ e # p2 \<longrightarrow>
                \<not> keeps now (pq_retention_policy q) (e # p2 @ pq_messages q')))"
proof -
  let ?ms = "retain now (pq_retention_policy q) (pq_messages q)"
  have q': "r = Ret ()" "q' = q\<lparr>pq_messages := ?ms, pq_current_size := payload_bytes ?ms\<rparr>"
    using enforce_unlocked [of q grant ovf now] assms by simp_all
  obtain dropped where d: "pq_messages q = dropped @ ?ms" using retain_suffix by blast
  have "\<not> keeps now (pq_retention_policy q) (e # p2 @ ?ms)" if "dropped = p1 @ e # p2" for p1 e p2
    using retain_minimal [of "pq_messages q" p1 e "p2 @ ?ms" now "pq_retention_policy q"] d that by simp
  with d q' pq_wf_retain [OF assms(1), of now "pq_retention_policy q"] show ?thesis
    by (auto simp: retain_keeps intro!: exI [of _ dropped])
qed

definition two_queue :: partition_queue where
  "two_queue = empty_queue\<lparr>pq_messages := [example_entry 0 [1], example_entry 1 [2]],
     pq_next_offset := 2, pq_current_size := 2,
     pq_retention_policy := \<lparr>rp_max_age = 1000, rp_max_bytes = 1\<rparr>\<rparr>"

lemma two_queue_wf: "pq_wf two_queue" "parking_lot (pq_lock two_queue)"
  by (simp_all add: two_queue_def pq_wf_def empty_queue_def example_entry_def)

theorem retention_enforced_witness:
  "fst (enforce_retention_policy True parking_lot 100 two_queue) = Ret () \<and>
   keeps 100 \<lparr>rp_max_age = 1000, rp_max_bytes = 1\<rparr>
     (pq_messages (snd (enforce_retention_policy True parking_lot 100 two_queue)))"
  using retention_enforced [where grant = parking_lot, OF two_queue_wf surjective_pairing, of True 100]
  by (simp add: two_queue_def)

text \<open>
  Property C2: messages survive restarts. A process that starts on an empty log, appends one
  message and is restarted, any number of times, ends up with all messages recovered in order
  under consecutive offsets from zero, whether or not the appends return and whatever the
  retention pass did to the queues in memory.
\<close>

theorem crash_recovery:
  assumes "bincode_law ser deser" and "grant Unlocked"
    and "list_all (serialisable ser) (entries_from pid 0 xs)" and "length xs < 2 ^ 63"
    and "sum_list (map (\<lambda>x. length (fst x)) xs) < 2 ^ 64"
  shows "\<exists>disk q. restart_cycles ovf grant ser deser pol pid xs [] = Ret disk
     \<and> pq_new ovf deser pol (Some (Readable disk)) = Ret q \<and> pq_wf q
     \<and> map me_payload (pq_messages q) = map fst xs
     \<and> map me_offset (pq_messages q) = map int [0..<length xs]
     \<and> pq_next_offset q = int (length xs)"
proof -
  let ?es = "entries_from pid 0 xs"
  have disk: "restart_cycles ovf grant ser deser pol pid xs [] = Ret (log_of ser ?es)"
    using restart_cycles_log [where grant = grant, OF assms(1,2), of pid "[]" xs ovf pol] assms(3,4) by simp
  have cons: "consecutive ?es" using entries_from_offsets [of pid 0 xs] by (simp add: consecutive_def)
  have bytes: "payload_bytes ?es < 2 ^ 64" using assms(5) by (simp add: entries_from_bytes)
  show ?thesis
    using disk pq_new_log [OF assms(1,3) entries_from_acks cons, of ovf pol] consecutive_wf [OF cons bytes]
      assms(4) entries_from_payloads [of pid 0 xs] entries_from_offsets [of pid 0 xs]
    by simp
qed

theorem crash_recovery_witness:
  "\<exists>disk q. restart_cycles True parking_lot small_ser small_deser rp_default 0 [([1, 2], 3, 4), ([5], 6, 7)] [] = Ret disk
     \<and> pq_new True small_deser rp_default (Some (Readable disk)) = Ret q
     \<and> map me_payload (pq_messages q) = [[1, 2], [5]] \<and> pq_next_offset q = 2"
  using crash_recovery [OF small_bincode_law, of parking_lot 0 "[([1, 2], 3, 4), ([5], 6, 7)]" True rp_default]
  by (fastforce simp: serialisable_def entry_fields_def small_ser_def)

text \<open>
  Property C27: a partial last write makes recovery forget the whole partition. If the log ends
  with a frame cut behind its length prefix, the recovered queue is empty and offsets restart at
  zero, although all earlier entries are intact in the file, which stays as it is.
\<close>

theorem torn_log_forgets_everything:
  assumes "bincode_law ser deser" and "list_all (serialisable ser) es"
    and "ser (entry_fields e) = Some bs" and "8 \<le> k" and "k < 8 + length bs"
  shows "\<exists>q. pq_new ovf deser pol (Some (Readable (log_of ser es @ take k (frame (to_le 8) bs)))) = Ret q
     \<and> pq_messages q = [] \<and> pq_next_offset q = 0
     \<and> pq_wal q = Some (wal_new (log_of ser es @ take k (frame (to_le 8) bs)))"
proof -
  have "length bs < 2 ^ 63" using assms(1,3) unfolding bincode_law_def by blast
  then have "wal_read_all deser None (wal_new (log_of ser es @ take k (frame (to_le 8) bs))) = Ret (Inl WalUnexpectedEof)"
    using assms(4,5) read_loop_torn [of k bs deser "map clear_acks es"]
    by (simp add: wal_read_all_def wal_new_def read_loop_log [OF assms(1,2)] le64.frame_length)
  then show ?thesis by (simp add: pq_new_def)
qed

theorem torn_log_forgets_everything_witness:
  "\<exists>q. pq_new True small_deser rp_default (Some (Readable (log_of small_ser [example_entry 0 [1]] @
        take 9 (frame (to_le 8) [1, 9, 0, 5])))) = Ret q \<and> pq_messages q = [] \<and> pq_next_offset q = 0"
  using torn_log_forgets_everything [OF small_bincode_law, of "[example_entry 0 [1]]" "example_entry 1 [5]"
      "[1, 9, 0, 5]" 9 True rp_default]
  by (auto simp: serialisable_def example_entry_def entry_fields_def small_ser_def)

text \<open>A log that cannot be read does the same, wherever the reading fails, unless a frame before that panics.\<close>

lemma unreadable_log_forgets_everything:
  assumes "wal_read_all deser (Some n) (wal_new bs) \<noteq> Panic"
  shows "\<exists>q. pq_new ovf deser pol (Some (Failing bs n)) = Ret q \<and> pq_messages q = [] \<and> pq_next_offset q = 0
     \<and> pq_wal q = Some (wal_new bs)"
proof -
  have "read_loop deser xs acc \<noteq> Block" for xs acc
    by (induction deser xs acc rule: read_loop.induct) (subst read_loop.simps, auto simp: Let_def split: option.splits)
  then obtain e where "wal_read_all deser (Some n) (wal_new bs) = Ret (Inl e)"
    using assms by (cases "read_loop deser (take n bs) []")
      (auto simp: wal_read_all_def wal_new_def split: sum.splits wal_error.splits)
  then show ?thesis by (simp add: pq_new_def)
qed

text \<open>
  A read from a free, well-formed queue returns messages at or above the requested
  offset in strictly increasing offset order, at most as many as asked for, and skips none: a
  queued message that qualifies is either returned or lies behind a full page.
\<close>

lemma read_from_complete:
  assumes "pq_wf q" and "grant (pq_lock q)"
  shows "\<exists>es. read_from grant start n q = Ret es \<and> length es \<le> n
     \<and> sorted_wrt (<) (map me_offset es)
     \<and> set es \<subseteq> {e \<in> set (pq_messages q). start \<le> me_offset e}
     \<and> (\<forall>e \<in> set (pq_messages q). start \<le> me_offset e \<longrightarrow>
          e \<in> set es \<or> (length es = n \<and> (\<forall>e' \<in> set es. me_offset e' < me_offset e)))"
proof -
  let ?P = "\<lambda>e. start \<le> me_offset e"
  let ?es = "take n (filter ?P (pq_messages q))"
  have sorted: "sorted_wrt (<) (map me_offset (pq_messages q))" using assms(1) by (simp add: pq_wf_def)
  then have "sorted_wrt (<) (map me_offset ?es)"
    by (simp add: sorted_wrt_map sorted_wrt_filter sorted_wrt_take)
  moreover have "set ?es \<subseteq> {e \<in> set (pq_messages q). start \<le> me_offset e}"
    by (auto dest: in_set_takeD)
  moreover have "read_from grant start n q = Ret ?es"
    using assms(2) by (simp add: read_from_def)
  ultimately show ?thesis
    using sorted_take_filter [OF sorted, of _ ?P n] by (intro exI [of _ ?es]) (auto simp: min_def)
qed

lemma read_from_complete_example:
  "\<exists>es. read_from parking_lot 1 100 two_queue = Ret es \<and> set es \<subseteq> {example_entry 1 [2]}"
  using read_from_complete [where grant = parking_lot, OF two_queue_wf, of 1 100]
  by (fastforce simp: two_queue_def example_entry_def)

text \<open>
  Acknowledging a message and cleaning up removes exactly the messages that were
  acknowledged before together with the one acknowledged now, keeps the order of the others and
  leaves the byte counter equal to the bytes still queued.
\<close>

lemma acknowledge_then_cleanup:
  assumes "pq_wf q" and "grant (pq_lock q)"
    and "pq_acknowledge grant off consumer q = (r1, q1)" and "cleanup_acknowledged grant q1 = (r2, q2)"
  shows "r1 = Ret () \<and> r2 = Ret () \<and> pq_wf q2
     \<and> pq_messages q2 = filter (\<lambda>m. me_acknowledged_by m = [] \<and> me_offset m \<noteq> off) (pq_messages q)"
proof -
  have q1: "q1 = q\<lparr>pq_messages := ack_first off consumer (pq_messages q)\<rparr>" "r1 = Ret ()"
    using assms(2,3) by (auto simp: pq_acknowledge_def)
  have "pq_wf q1" using assms(1) by (simp add: q1 pq_wf_ack)
  then have "pq_wf q2" "r2 = Ret ()"
    using pq_wf_filter [of q1] assms(2,4) by (auto simp: cleanup_acknowledged_def q1 Let_def)
  moreover have "sorted_wrt (<) (map me_offset (pq_messages q))" using assms(1) by (simp add: pq_wf_def)
  ultimately show ?thesis
    using assms(2,4) by (auto simp: q1 cleanup_acknowledged_def Let_def ack_first_unacked)
qed

lemma acknowledge_then_cleanup_example:
  "pq_messages (snd (cleanup_acknowledged parking_lot (snd (pq_acknowledge parking_lot 1 ''c'' two_queue)))) = []"
  using acknowledge_then_cleanup [where grant = parking_lot, OF two_queue_wf surjective_pairing surjective_pairing, of 1 "''c''"]
  by (simp add: two_queue_def example_entry_def)

end
