(* ===== verification/Storage.thy ===== *)
theory Storage
  imports Partition_Queue "HOL-Library.Sublist"
begin

text \<open>
  The storage engine, \<open>Storage\<close> of \<^verbatim>\<open>crates/storage/src/db.rs\<close>: topics, their partitions
  and the consumer offsets. A partition's log file at the time it is opened is the
  argument \<open>fs topic partition\<close>; topics are taken to name different directories. Loops over all partitions visit them in list order; no statement
  depends on that order. The shard locks inside \<open>DashMap\<close> are not part of the state.
\<close>

section \<open>State\<close>

record storage =
  st_topics :: "(string, (int, partition_queue) hashmap) hashmap"
  st_consumer_offsets :: "(string, (string \<times> int, int) hashmap) hashmap"
  st_retention_policy :: retention_policy

record storage_metrics =
  sx_total_messages :: nat
  sx_total_bytes :: nat
  sx_oldest_message :: systime

definition with_retention_policy :: "retention_policy \<Rightarrow> storage" where
  "with_retention_policy pol =
     \<lparr>st_topics = [], st_consumer_offsets = [], st_retention_policy = pol\<rparr>"

definition st_new :: storage where
  "st_new = with_retention_policy rp_default"

definition get_queue :: "storage \<Rightarrow> string \<Rightarrow> int \<Rightarrow> partition_queue option" where
  "get_queue s topic pid =
     (case hm_get (st_topics s) topic of None \<Rightarrow> None | Some ps \<Rightarrow> hm_get ps pid)"

definition put_queue :: "string \<Rightarrow> int \<Rightarrow> partition_queue \<Rightarrow> storage \<Rightarrow> storage" where
  "put_queue topic pid q s =
     s\<lparr>st_topics := AList.map_entry topic (hm_insert pid q) (st_topics s)\<rparr>"

section \<open>Topics and partitions\<close>

definition create_topic :: "string \<Rightarrow> storage \<Rightarrow> storage" where
  "create_topic topic s = s\<lparr>st_topics := hm_insert topic [] (st_topics s)\<rparr>"

definition create_partition ::
  "bool \<Rightarrow> deserialiser \<Rightarrow> (string \<Rightarrow> int \<Rightarrow> log_file option) \<Rightarrow> string \<Rightarrow> int \<Rightarrow> storage \<Rightarrow>
   bool outcome \<times> storage" where
  "create_partition ovf deser fs topic pid s =
     (case hm_get (st_topics s) topic of
        Some _ \<Rightarrow>
          (case pq_new ovf deser (st_retention_policy s) (fs topic pid) of
             Ret q \<Rightarrow> (Ret True, put_queue topic pid q s)
           | Panic \<Rightarrow> (Panic, s)
           | Block \<Rightarrow> (Block, s))
      | None \<Rightarrow> (Ret False, s))"

definition st_append ::
  "bool \<Rightarrow> lock_policy \<Rightarrow> serialiser \<Rightarrow> io_result \<Rightarrow> systime \<Rightarrow> systime \<Rightarrow> string \<Rightarrow> int \<Rightarrow> byte list \<Rightarrow>
   storage \<Rightarrow> int option outcome \<times> storage" where
  "st_append ovf grant ser io now now' topic pid message s =
     (case get_queue s topic pid of
        Some q \<Rightarrow>
          (case pq_append ovf grant ser io now now' message pid q of
             (Ret off, q') \<Rightarrow> (Ret (Some off), put_queue topic pid q' s)
           | (Panic, q') \<Rightarrow> (Panic, put_queue topic pid q' s)
           | (Block, q') \<Rightarrow> (Block, put_queue topic pid q' s))
      | None \<Rightarrow> (Ret None, s))"

definition st_read ::
  "lock_policy \<Rightarrow> string \<Rightarrow> int \<Rightarrow> int \<Rightarrow> storage \<Rightarrow> stored_message list option outcome" where
  "st_read grant topic pid start_offset s =
     (case get_queue s topic pid of
        Some q \<Rightarrow>
          (case read_from grant start_offset 100 q of
             Ret es \<Rightarrow> Ret (Some (map to_stored_message es))
           | Panic \<Rightarrow> Panic
           | Block \<Rightarrow> Block)
      | None \<Rightarrow> Ret None)"

definition st_acknowledge ::
  "lock_policy \<Rightarrow> string \<Rightarrow> int \<Rightarrow> int \<Rightarrow> string \<Rightarrow> storage \<Rightarrow> unit outcome \<times> storage" where
  "st_acknowledge grant topic pid off consumer_id s =
     (case get_queue s topic pid of
        Some q \<Rightarrow>
          (case pq_acknowledge grant off consumer_id q of (r, q') \<Rightarrow> (r, put_queue topic pid q' s))
      | None \<Rightarrow> (Ret (), s))"

section \<open>Loops over all partitions\<close>

type_synonym queue_op = "partition_queue \<Rightarrow> unit outcome \<times> partition_queue"

fun each_partition :: "(int \<Rightarrow> queue_op) \<Rightarrow> (int, partition_queue) hashmap \<Rightarrow>
    unit outcome \<times> (int, partition_queue) hashmap" where
  "each_partition f [] = (Ret (), [])"
| "each_partition f ((pid, q) # ps) =
     (case f pid q of
        (Ret _, q') \<Rightarrow> (case each_partition f ps of (r, ps') \<Rightarrow> (r, (pid, q') # ps'))
      | (r, q') \<Rightarrow> (r, (pid, q') # ps))"

fun each_topic :: "(string \<Rightarrow> int \<Rightarrow> queue_op) \<Rightarrow> (string, (int, partition_queue) hashmap) hashmap \<Rightarrow>
    unit outcome \<times> (string, (int, partition_queue) hashmap) hashmap" where
  "each_topic f [] = (Ret (), [])"
| "each_topic f ((topic, ps) # ts) =
     (case each_partition (f topic) ps of
        (Ret _, ps') \<Rightarrow> (case each_topic f ts of (r, ts') \<Rightarrow> (r, (topic, ps') # ts'))
      | (r, ps') \<Rightarrow> (r, (topic, ps') # ts))"

definition st_cleanup :: "lock_policy \<Rightarrow> storage \<Rightarrow> unit outcome \<times> storage" where
  "st_cleanup grant s =
     (case each_topic (\<lambda>_ _. cleanup_acknowledged grant) (st_topics s) of
        (r, ts) \<Rightarrow> (r, s\<lparr>st_topics := ts\<rparr>))"

text \<open>\<open>clock t p\<close> is the clock reading of the retention pass over partition \<open>p\<close> of topic \<open>t\<close>.\<close>

definition cleanup_old_messages ::
  "bool \<Rightarrow> lock_policy \<Rightarrow> (string \<Rightarrow> int \<Rightarrow> systime) \<Rightarrow> storage \<Rightarrow> unit outcome \<times> storage" where
  "cleanup_old_messages ovf grant clock s =
     (case each_topic (\<lambda>t p. enforce_retention_policy ovf grant (clock t p)) (st_topics s) of
        (r, ts) \<Rightarrow> (r, s\<lparr>st_topics := ts\<rparr>))"

definition update_retention_policy ::
  "bool \<Rightarrow> lock_policy \<Rightarrow> (string \<Rightarrow> int \<Rightarrow> systime) \<Rightarrow> retention_policy \<Rightarrow> storage \<Rightarrow>
   unit outcome \<times> storage" where
  "update_retention_policy ovf grant clock pol s =
     (case each_topic (\<lambda>t p. enforce_retention_policy ovf grant (clock t p)) (st_topics s) of
        (r, ts) \<Rightarrow> (r, s\<lparr>st_retention_policy := pol, st_topics := ts\<rparr>))"

definition get_retention_policy :: "storage \<Rightarrow> retention_policy" where
  "get_retention_policy s = st_retention_policy s"

definition all_queues :: "storage \<Rightarrow> partition_queue list" where
  "all_queues s = concat (map (\<lambda>(_, ps). map snd ps) (st_topics s))"

definition metrics_add :: "partition_queue \<Rightarrow> storage_metrics \<Rightarrow> storage_metrics" where
  "metrics_add q m =
     \<lparr>sx_total_messages = sx_total_messages m + length (pq_messages q),
      sx_total_bytes = sx_total_bytes m + pq_current_size q,
      sx_oldest_message =
        (case pq_messages q of
           [] \<Rightarrow> sx_oldest_message m
         | first # _ \<Rightarrow> if me_timestamp first < sx_oldest_message m then me_timestamp first
                      else sx_oldest_message m)\<rparr>"

fun metrics_loop :: "lock_policy \<Rightarrow> partition_queue list \<Rightarrow> storage_metrics \<Rightarrow> storage_metrics outcome" where
  "metrics_loop grant [] m = Ret m"
| "metrics_loop grant (q # qs) m =
     (if \<not> grant (pq_lock q) then Block else metrics_loop grant qs (metrics_add q m))"

definition get_metrics :: "lock_policy \<Rightarrow> systime \<Rightarrow> storage \<Rightarrow> storage_metrics outcome" where
  "get_metrics grant now s =
     metrics_loop grant (all_queues s)
       \<lparr>sx_total_messages = 0, sx_total_bytes = 0, sx_oldest_message = now\<rparr>"

section \<open>Consumer positions\<close>

definition update_consumer_offset :: "string \<Rightarrow> string \<Rightarrow> int \<Rightarrow> int \<Rightarrow> storage \<Rightarrow> storage" where
  "update_consumer_offset consumer topic pid off s =
     s\<lparr>st_consumer_offsets :=
         hm_insert consumer
           (hm_insert (topic, pid) off
              (case hm_get (st_consumer_offsets s) consumer of None \<Rightarrow> [] | Some m \<Rightarrow> m))
           (st_consumer_offsets s)\<rparr>"

definition get_consumer_offset :: "string \<Rightarrow> string \<Rightarrow> int \<Rightarrow> storage \<Rightarrow> int option" where
  "get_consumer_offset consumer topic pid s =
     (case hm_get (st_consumer_offsets s) consumer of
        None \<Rightarrow> None | Some m \<Rightarrow> hm_get m (topic, pid))"

definition read_from_offset ::
  "lock_policy \<Rightarrow> string \<Rightarrow> int \<Rightarrow> string \<Rightarrow> storage \<Rightarrow> stored_message list option outcome" where
  "read_from_offset grant topic pid consumer s =
     st_read grant topic pid
       (case get_consumer_offset consumer topic pid s of None \<Rightarrow> 0 | Some off \<Rightarrow> off) s"

section \<open>Looking queues up\<close>

lemma get_put_queue:
  "hm_get (st_topics s) topic = Some ps \<Longrightarrow>
   get_queue (put_queue topic pid q s) t p =
     (if t = topic \<and> p = pid then Some q else get_queue s t p)"
  by (auto simp: get_queue_def put_queue_def hashmap_simps split: option.splits)

lemma get_queue_topic: "get_queue s topic pid = Some q \<Longrightarrow> \<exists>ps. hm_get (st_topics s) topic = Some ps"
  by (auto simp: get_queue_def split: option.splits)

lemma get_create_topic:
  "get_queue (create_topic topic s) t p = (if t = topic then None else get_queue s t p)"
  by (simp add: get_queue_def create_topic_def hashmap_simps)

text \<open>A property that every queue operation of a loop keeps is kept by the loop.\<close>

lemma each_partition_all:
  assumes "\<And>p q. P q \<Longrightarrow> P (snd (f p q))" and "each_partition f ps = (r, ps')"
    and "list_all P (map snd ps)"
  shows "list_all P (map snd ps')"
  using assms(2,3)
proof (induction ps arbitrary: r ps')
  case (Cons x ps)
  obtain pid q where x: "x = (pid, q)" by (cases x)
  obtain r1 q1 where 1: "f pid q = (r1, q1)" by fastforce
  obtain r2 ps2 where 2: "each_partition f ps = (r2, ps2)" by fastforce
  have "P q1" using assms(1) [of q pid] Cons.prems(2) 1 x by simp
  with Cons.IH [OF 2] Cons.prems x 1 2 show ?case by (auto split: outcome.splits)
qed simp

abbreviation topic_queues :: "(string, (int, partition_queue) hashmap) hashmap \<Rightarrow> partition_queue list" where
  "topic_queues ts \<equiv> concat (map (\<lambda>(_, ps). map snd ps) ts)"

lemma each_topic_all:
  assumes "\<And>t p q. P q \<Longrightarrow> P (snd (f t p q))" and "each_topic f ts = (r, ts')"
    and "list_all P (topic_queues ts)"
  shows "list_all P (topic_queues ts')"
  using assms(2,3)
proof (induction ts arbitrary: r ts')
  case (Cons x ts)
  obtain t ps where x: "x = (t, ps)" by (cases x)
  obtain r1 ps1 where 1: "each_partition (f t) ps = (r1, ps1)" by fastforce
  obtain r2 ts2 where 2: "each_topic f ts = (r2, ts2)" by fastforce
  have "list_all P (map snd ps1)"
    using each_partition_all [of P "f t", OF assms(1) 1] Cons.prems(2) x by simp
  with Cons.IH [OF 2] Cons.prems x 1 2 show ?case by (auto split: outcome.splits)
qed simp

text \<open>
  A loop whose operations return and whose effect is \<open>g\<close> maps \<open>g\<close> over all queues, whatever
  the order of the visits.
\<close>

lemma each_partition_map:
  "(\<And>p q. (p, q) \<in> set ps \<Longrightarrow> f p q = (Ret (), g p q)) \<Longrightarrow>
   each_partition f ps = (Ret (), map (\<lambda>(p, q). (p, g p q)) ps)"
  by (induction ps) auto

lemma each_topic_map:
  "(\<And>t ps p q. (t, ps) \<in> set ts \<Longrightarrow> (p, q) \<in> set ps \<Longrightarrow> f t p q = (Ret (), g t p q)) \<Longrightarrow>
   each_topic f ts = (Ret (), map (\<lambda>(t, ps). (t, map (\<lambda>(p, q). (p, g t p q)) ps)) ts)"
proof (induction ts)
  case (Cons x ts)
  obtain t ps where x: "x = (t, ps)" by (cases x)
  have "each_partition (f t) ps = (Ret (), map (\<lambda>(p, q). (p, g t p q)) ps)"
    using Cons.prems [of t ps] x by (intro each_partition_map) simp
  moreover have "each_topic f ts = (Ret (), map (\<lambda>(t, ps). (t, map (\<lambda>(p, q). (p, g t p q)) ps)) ts)"
    by (rule Cons.IH) (rule Cons.prems, simp_all)
  ultimately show ?case by (simp add: x)
qed simp

lemma get_map_queues:
  "get_queue (s\<lparr>st_topics := map (\<lambda>(t, ps). (t, map (\<lambda>(p, q). (p, g t p q)) ps)) (st_topics s)\<rparr>) t p =
   map_option (g t p) (get_queue s t p)"
  by (cases "hm_get (st_topics s) t") (simp_all add: get_queue_def map_of_map_values)

section \<open>Well-formed storage\<close>

definition st_wf :: "storage \<Rightarrow> bool" where
  "st_wf s \<longleftrightarrow> list_all pq_wf (all_queues s)"

lemma update_all: "P v \<Longrightarrow> list_all P (map snd m) \<Longrightarrow> list_all P (map snd (hm_insert k v m))"
  by (induction m) auto

lemma topic_queues_put:
  "P q \<Longrightarrow> list_all P (topic_queues ts) \<Longrightarrow>
   list_all P (topic_queues (AList.map_entry t (hm_insert p q) ts))"
  by (induction ts) (auto intro: update_all)

lemma topic_queues_create:
  "list_all P (topic_queues ts) \<Longrightarrow> list_all P (topic_queues (hm_insert t [] ts))"
  by (induction ts) auto

lemma get_queue_in: "get_queue s t p = Some q \<Longrightarrow> q \<in> set (all_queues s)"
  by (force simp: get_queue_def all_queues_def split: option.splits dest: map_of_SomeD)

lemma st_wf_get: "st_wf s \<Longrightarrow> get_queue s t p = Some q \<Longrightarrow> pq_wf q"
  unfolding st_wf_def by (metis get_queue_in list_all_iff)

lemma st_wf_put: "st_wf s \<Longrightarrow> pq_wf q \<Longrightarrow> st_wf (put_queue t p q s)"
  by (simp add: st_wf_def all_queues_def put_queue_def topic_queues_put)

lemma enforce_keeps_wf: "pq_wf q \<Longrightarrow> pq_wf (snd (enforce_retention_policy ovf grant now q))"
proof (cases "grant (pq_lock q)")
  case True
  assume "pq_wf q"
  from enforce_unlocked [where grant = grant, OF this True] pq_wf_retain [OF this] show ?thesis by simp
qed (simp add: enforce_retention_policy_def)

lemma append_keeps_wf:
  assumes "pq_wf q" and "in_s 64 (pq_next_offset q + 1)"
    and "payload_bytes (pq_messages q) + length payload < 2 ^ 64"
  shows "pq_wf (snd (pq_append ovf grant ser io now now' payload pid q))"
proof -
  let ?q1 = "q\<lparr>pq_lock := WriteHeld, pq_next_offset := pq_next_offset q + 1,
      pq_wal := map_option (\<lambda>w. snd (wal_append ser io (new_entry q now payload pid) w)) (pq_wal q),
      pq_current_size := pq_current_size q + length payload,
      pq_messages := pq_messages q @ [new_entry q now payload pid]\<rparr>"
  obtain r q2 where e: "enforce_retention_policy ovf grant now' ?q1 = (r, q2)" by fastforce
  have "pq_wf q2"
    using enforce_keeps_wf [OF pq_wf_append [OF assms(1,3)], of ovf grant now'] e by (metis snd_conv)
  with assms(1,2) e show ?thesis
    by (cases r) (simp_all add: pq_append_def Let_def pq_wf_lock)
qed

lemma acknowledge_keeps_wf: "pq_wf q \<Longrightarrow> pq_wf (snd (pq_acknowledge grant off c q))"
  by (simp add: pq_acknowledge_def pq_wf_ack)

lemma cleanup_keeps_wf: "pq_wf q \<Longrightarrow> pq_wf (snd (cleanup_acknowledged grant q))"
  by (simp add: cleanup_acknowledged_def Let_def pq_wf_filter)

lemma st_wf_topics: "st_wf (s\<lparr>st_topics := ts\<rparr>) \<longleftrightarrow> list_all pq_wf (topic_queues ts)"
  by (simp add: st_wf_def all_queues_def)

lemma st_wf_each_topic:
  assumes "st_wf s" and "\<And>t p q. pq_wf q \<Longrightarrow> pq_wf (snd (f t p q))"
    and "each_topic f (st_topics s) = (r, ts)"
  shows "list_all pq_wf (topic_queues ts)"
  using each_topic_all [where P = pq_wf and f = f, OF assms(2,3)] assms(1) by (simp add: st_wf_def all_queues_def)

lemma st_append_wf:
  assumes "st_wf s" and "\<And>q. get_queue s topic pid = Some q \<Longrightarrow> in_s 64 (pq_next_offset q + 1) \<and>
       payload_bytes (pq_messages q) + length message < 2 ^ 64"
    and "st_append ovf grant ser io now now' topic pid message s = (r, t)"
  shows "st_wf t"
proof (cases "get_queue s topic pid")
  case (Some q)
  obtain r' q' where a: "pq_append ovf grant ser io now now' message pid q = (r', q')" by fastforce
  have "pq_wf q'"
    using append_keeps_wf [OF st_wf_get [OF assms(1) Some], of message ovf grant ser io now now' pid]
      assms(2) [OF Some] a by simp
  with assms(1,3) Some a show ?thesis by (cases r') (auto simp: st_append_def st_wf_put)
qed (use assms in \<open>simp add: st_append_def\<close>)

lemma create_partition_wf:
  assumes "st_wf s" and "\<exists>q. pq_new ovf deser (st_retention_policy s) (fs topic pid) = Ret q \<and> pq_wf q"
    and "create_partition ovf deser fs topic pid s = (r, t)"
  shows "st_wf t"
  using assms by (auto simp: create_partition_def st_wf_put split: option.splits)

lemma storage_ops_wf:
  assumes "st_wf s"
  shows "st_wf (create_topic topic s)"
    and "st_acknowledge grant topic pid off consumer s = (r, t) \<Longrightarrow> st_wf t"
    and "st_cleanup grant s = (r, t) \<Longrightarrow> st_wf t"
    and "cleanup_old_messages ovf grant clock s = (r, t) \<Longrightarrow> st_wf t"
    and "update_retention_policy ovf grant clock pol s = (r, t) \<Longrightarrow> st_wf t"
    and "st_wf (update_consumer_offset consumer topic pid off s)"
proof -
  show "st_wf (create_topic topic s)"
    using assms by (simp add: create_topic_def st_wf_def all_queues_def topic_queues_create)
  show "st_wf t" if "st_acknowledge grant topic pid off consumer s = (r, t)"
    using that assms acknowledge_keeps_wf
    by (auto simp: st_acknowledge_def intro!: st_wf_put split: option.splits prod.splits) (metis snd_conv st_wf_get)
  show "st_wf t" if "st_cleanup grant s = (r, t)"
    using that st_wf_each_topic [OF assms, of "\<lambda>_ _. cleanup_acknowledged grant"]
    by (auto simp: st_cleanup_def st_wf_topics cleanup_keeps_wf split: prod.splits)
  show "st_wf t" if "cleanup_old_messages ovf grant clock s = (r, t)"
    using that st_wf_each_topic [OF assms, of "\<lambda>t p. enforce_retention_policy ovf grant (clock t p)"]
    by (auto simp: cleanup_old_messages_def st_wf_topics enforce_keeps_wf split: prod.splits)
  show "st_wf t" if "update_retention_policy ovf grant clock pol s = (r, t)"
    using that st_wf_each_topic [OF assms, of "\<lambda>t p. enforce_retention_policy ovf grant (clock t p)"]
    by (auto simp: update_retention_policy_def st_wf_def all_queues_def enforce_keeps_wf split: prod.splits)
  show "st_wf (update_consumer_offset consumer topic pid off s)"
    using assms by (simp add: update_consumer_offset_def st_wf_def all_queues_def)
qed

section \<open>The storage and its log files as a transition system\<close>

text \<open>
  The log files stay when the process ends. After a call they have what the queues wrote; a queue without
  a log writes nothing.
\<close>

type_synonym disk = "string \<Rightarrow> int \<Rightarrow> byte list"

definition synced :: "storage \<Rightarrow> disk \<Rightarrow> disk" where
  "synced s d topic pid =
     (case get_queue s topic pid of
        Some q \<Rightarrow> (case pq_wal q of Some w \<Rightarrow> wal_file w | None \<Rightarrow> d topic pid)
      | None \<Rightarrow> d topic pid)"

text \<open>
  The calls that change the storage, in any order, and restarts of the process at any moment, also while a call
  is blocked. The files are those the program wrote itself: a partition is created over its file, or without one if it
  cannot be opened. Two faults are left out, because the log does not survive them: a file that cannot be read and a
  write that does not complete (its rest stays in the writer's buffer). An entry that cannot be serialised is queued but not logged. An append finds room
  for one more offset (\<open>2 ^ 63\<close> messages are never reached).
\<close>

inductive storage_step ::
  "bool \<Rightarrow> lock_policy \<Rightarrow> serialiser \<Rightarrow> deserialiser \<Rightarrow> storage \<times> disk \<Rightarrow> storage \<times> disk \<Rightarrow> bool"
  for ovf grant ser deser where
  create_topic: "storage_step ovf grant ser deser (s, d) (create_topic topic s, synced (create_topic topic s) d)"
| create_partition:
    "fs topic pid = None \<or> fs topic pid = Some (Readable (d topic pid)) \<Longrightarrow>
     create_partition ovf deser fs topic pid s = (r, t) \<Longrightarrow>
     storage_step ovf grant ser deser (s, d) (t, synced t d)"
| append:
    "(\<And>q. get_queue s topic pid = Some q \<Longrightarrow> in_s 64 (pq_next_offset q + 1)) \<Longrightarrow>
     st_append ovf grant ser IoOk now now' topic pid message s = (r, t) \<Longrightarrow>
     storage_step ovf grant ser deser (s, d) (t, synced t d)"
| acknowledge:
    "st_acknowledge grant topic pid off consumer s = (r, t) \<Longrightarrow> storage_step ovf grant ser deser (s, d) (t, synced t d)"
| cleanup: "st_cleanup grant s = (r, t) \<Longrightarrow> storage_step ovf grant ser deser (s, d) (t, synced t d)"
| cleanup_old:
    "cleanup_old_messages ovf grant clock s = (r, t) \<Longrightarrow> storage_step ovf grant ser deser (s, d) (t, synced t d)"
| update_policy:
    "update_retention_policy ovf grant clock pol s = (r, t) \<Longrightarrow> storage_step ovf grant ser deser (s, d) (t, synced t d)"
| consumer_offset:
    "update_consumer_offset consumer topic pid off s = t \<Longrightarrow> storage_step ovf grant ser deser (s, d) (t, synced t d)"
| restart: "storage_step ovf grant ser deser (s, d) (with_retention_policy pol, d)"

section \<open>Queues and logs in order\<close>

text \<open>Where the messages of a list belong: their offsets and partitions.\<close>

definition places :: "message_entry list \<Rightarrow> (int \<times> int) list" where
  "places es = map (\<lambda>e. (me_offset e, me_partition_id e)) es"

definition in_order :: "int \<Rightarrow> int \<Rightarrow> message_entry list \<Rightarrow> bool" where
  "in_order pid n es \<longleftrightarrow>
     sorted_wrt (<) (map fst (places es)) \<and> (\<forall>(off, p) \<in> set (places es). 0 \<le> off \<and> off < n \<and> p = pid)"

lemma subseq_sorted: "subseq xs ys \<Longrightarrow> sorted_wrt P ys \<Longrightarrow> sorted_wrt P xs"
  by (induction rule: list_emb.induct) (auto dest: list_emb_set)

lemma in_order_subseq: "in_order pid n es \<Longrightarrow> subseq (places es') (places es) \<Longrightarrow> in_order pid n es'"
proof -
  assume o: "in_order pid n es" and s: "subseq (places es') (places es)"
  have "sorted_wrt (<) (map fst (places es'))"
    using o subseq_map [OF s, of fst] by (auto simp: in_order_def intro: subseq_sorted)
  moreover have "set (places es') \<subseteq> set (places es)" using s by (metis subseq_conv_nths set_nths_subset)
  ultimately show ?thesis using o by (auto simp: in_order_def)
qed

lemma in_order_mono: "in_order pid n es \<Longrightarrow> n \<le> m \<Longrightarrow> in_order pid m es"
  unfolding in_order_def by fastforce

lemma in_order_snoc:
  "in_order pid n es \<Longrightarrow> me_offset e = n \<Longrightarrow> 0 \<le> n \<Longrightarrow> me_partition_id e = pid \<Longrightarrow> in_order pid (n + 1) (es @ [e])"
  unfolding in_order_def places_def by (fastforce simp: sorted_wrt_append)

text \<open>What an operation on a queue in memory may do: drop messages and change acknowledgements.\<close>

definition thins :: "partition_queue \<Rightarrow> partition_queue \<Rightarrow> bool" where
  "thins q q' \<longleftrightarrow> subseq (places (pq_messages q')) (places (pq_messages q)) \<and> pq_wal q' = pq_wal q
     \<and> pq_next_offset q' = pq_next_offset q"

lemma thins_refl: "thins q q"
  by (simp add: thins_def)

lemma enforce_loop_suffix: "enforce_loop ovf now pol es sz = (r, es', sz') \<Longrightarrow> subseq es' es"
  by (induction ovf now pol es sz arbitrary: r es' sz' rule: enforce_loop.induct)
    (auto split: option.splits if_splits outcome.splits)

lemma enforce_thins: "thins q (snd (enforce_retention_policy ovf grant now q))"
proof -
  obtain r ms sz where e: "enforce_loop ovf now (pq_retention_policy q) (pq_messages q) (pq_current_size q) = (r, ms, sz)"
    by (rule prod_cases3)
  have "subseq (places ms) (places (pq_messages q))"
    unfolding places_def by (rule subseq_map) (rule enforce_loop_suffix [OF e])
  then show ?thesis using e by (cases r) (simp_all add: enforce_retention_policy_def thins_def)
qed

lemma acknowledge_thins: "thins q (snd (pq_acknowledge grant off c q))"
proof -
  have "places (ack_first off c es) = places es" for es by (induction es) (simp_all add: places_def)
  then show ?thesis by (simp add: pq_acknowledge_def thins_def)
qed

lemma cleanup_thins: "thins q (snd (cleanup_acknowledged grant q))"
  by (simp add: cleanup_acknowledged_def Let_def thins_def places_def subseq_map)

text \<open>A loop over all partitions changes each queue by its operation, or not at all.\<close>

lemma each_partition_rel:
  assumes "\<And>p q. R q q" and "\<And>p q. R q (snd (f p q))"
  shows "each_partition f ps = (r, ps') \<Longrightarrow> rel_option R (hm_get ps p) (hm_get ps' p)"
proof (induction ps arbitrary: r ps')
  case (Cons x ps)
  obtain k q where x: "x = (k, q)" by (cases x)
  obtain r1 q1 where 1: "f k q = (r1, q1)" by fastforce
  obtain r2 ps2 where 2: "each_partition f ps = (r2, ps2)" by fastforce
  have "R q q1" using assms(2) [of q k] 1 by simp
  moreover have "rel_option R (hm_get ps p) (hm_get ps p)" using assms(1) by (simp add: option.rel_refl)
  ultimately show ?case using Cons.IH [OF 2] Cons.prems x 1 2 by (auto split: outcome.splits)
qed simp

lemma each_topic_rel:
  assumes "\<And>q. R q q" and "\<And>t p q. R q (snd (f t p q))"
  shows "each_topic f ts = (r, ts') \<Longrightarrow>
     rel_option R (case hm_get ts t of None \<Rightarrow> None | Some ps \<Rightarrow> hm_get ps p) (case hm_get ts' t of None \<Rightarrow> None | Some ps \<Rightarrow> hm_get ps p)"
proof (induction ts arbitrary: r ts')
  case (Cons x ts)
  obtain k ps where x: "x = (k, ps)" by (cases x)
  obtain r1 ps1 where 1: "each_partition (f k) ps = (r1, ps1)" by fastforce
  obtain r2 ts2 where 2: "each_topic f ts = (r2, ts2)" by fastforce
  have "rel_option R (hm_get ps p) (hm_get ps1 p)" using each_partition_rel [OF assms(1) assms(2) 1] .
  moreover have "rel_option R (case hm_get ts t of None \<Rightarrow> None | Some ps \<Rightarrow> hm_get ps p) (case hm_get ts t of None \<Rightarrow> None | Some ps \<Rightarrow> hm_get ps p)"
    using assms(1) by (simp add: option.rel_refl)
  ultimately show ?case using Cons.IH [OF 2] Cons.prems x 1 2 by (auto split: outcome.splits)
qed simp

section \<open>The invariant\<close>

text \<open>
  A log file has whole frames of entries in order; the offsets of a queue and of the log it writes are below its
  next offset.
\<close>

definition log_ok :: "serialiser \<Rightarrow> int \<Rightarrow> int \<Rightarrow> byte list \<Rightarrow> bool" where
  "log_ok ser pid n bs \<longleftrightarrow>
     (\<exists>es. bs = log_of ser es \<and> list_all (serialisable ser) es \<and> map clear_acks es = es \<and> in_order pid n es)"

definition queue_ok :: "serialiser \<Rightarrow> int \<Rightarrow> partition_queue \<Rightarrow> bool" where
  "queue_ok ser pid q \<longleftrightarrow>
     in_order pid (pq_next_offset q) (pq_messages q) \<and> 0 \<le> pq_next_offset q \<and> in_s 64 (pq_next_offset q)
     \<and> (\<forall>w. pq_wal q = Some w \<longrightarrow> wal_buffer w = [] \<and> log_ok ser pid (pq_next_offset q) (wal_file w))"

definition disk_inv :: "serialiser \<Rightarrow> storage \<times> disk \<Rightarrow> bool" where
  "disk_inv ser x \<longleftrightarrow> (case x of (s, d) \<Rightarrow> \<forall>topic pid.
     (\<exists>n. 0 \<le> n \<and> in_s 64 n \<and> log_ok ser pid n (d topic pid))
     \<and> (\<forall>q. get_queue s topic pid = Some q \<longrightarrow> queue_ok ser pid q))"

lemma disk_inv_queue: "disk_inv ser (s, d) \<Longrightarrow> get_queue s topic pid = Some q \<Longrightarrow> queue_ok ser pid q"
  by (simp add: disk_inv_def)

lemma disk_inv_log:
  assumes "disk_inv ser (s, d)"
  obtains n where "0 \<le> n" and "in_s 64 n" and "log_ok ser pid n (d topic pid)"
  using assms unfolding disk_inv_def by blast

lemma queue_ok_thins: "queue_ok ser pid q \<Longrightarrow> thins q q' \<Longrightarrow> queue_ok ser pid q'"
  unfolding queue_ok_def thins_def by (auto intro: in_order_subseq)

lemma disk_inv_synced:
  assumes "disk_inv ser (s, d)" and "\<And>topic pid q. get_queue t topic pid = Some q \<Longrightarrow> queue_ok ser pid q"
  shows "disk_inv ser (t, synced t d)"
proof -
  have "\<exists>n. 0 \<le> n \<and> in_s 64 n \<and> log_ok ser pid n (synced t d topic pid)" for topic pid
  proof (cases "\<exists>q w. get_queue t topic pid = Some q \<and> pq_wal q = Some w")
    case True
    then obtain q w where q: "get_queue t topic pid = Some q" "pq_wal q = Some w" by blast
    with assms(2) [OF q(1)] show ?thesis by (auto simp: synced_def queue_ok_def)
  next
    case False
    then have "synced t d topic pid = d topic pid" by (auto simp: synced_def split: option.splits)
    then show ?thesis using assms(1) by (simp add: disk_inv_def)
  qed
  with assms(2) show ?thesis by (simp add: disk_inv_def)
qed

lemma disk_inv_thins:
  assumes "disk_inv ser (s, d)" and "\<And>topic pid. rel_option thins (get_queue s topic pid) (get_queue t topic pid)"
  shows "disk_inv ser (t, synced t d)"
proof (rule disk_inv_synced [OF assms(1)])
  fix topic pid q' assume "get_queue t topic pid = Some q'"
  with assms(2) [of topic pid] obtain q where "get_queue s topic pid = Some q" "thins q q'" by (cases "get_queue s topic pid") auto
  then show "queue_ok ser pid q'" using disk_inv_queue [OF assms(1)] queue_ok_thins by blast
qed

lemma recover_in_order:
  assumes "in_s 64 n"
  shows "sorted_wrt (<) (map me_offset es) \<Longrightarrow> \<forall>e \<in> set es. k \<le> me_offset e \<and> me_offset e < n \<Longrightarrow> 0 \<le> k \<Longrightarrow> k \<le> n \<Longrightarrow>
   \<exists>k' sz'. recover_loop ovf es k sz = Ret (k', sz') \<and> k \<le> k' \<and> k' \<le> n \<and> (\<forall>e \<in> set es. me_offset e < k')"
proof (induction es arbitrary: k sz)
  case (Cons e es)
  let ?o = "me_offset e"
  have o: "k \<le> ?o" "?o < n" using Cons.prems by simp_all
  then have "in_s 64 (?o + 1)" using assms Cons.prems(3) by (simp add: in_s_def)
  moreover have "\<exists>k' sz'. recover_loop ovf es (?o + 1) (sz + length (me_payload e)) = Ret (k', sz')
      \<and> ?o + 1 \<le> k' \<and> k' \<le> n \<and> (\<forall>e \<in> set es. me_offset e < k')"
    by (rule Cons.IH) (use Cons.prems o in auto)
  ultimately show ?case using o by auto
qed (use assms in auto)

lemma pq_new_ok:
  assumes "bincode_law ser deser" and "log_ok ser pid n bs" and "0 \<le> n" and "in_s 64 n"
    and "disk = None \<or> disk = Some (Readable bs)"
  shows "\<exists>q. pq_new ovf deser pol disk = Ret q \<and> queue_ok ser pid q"
proof (cases disk)
  case None
  then show ?thesis by (simp add: pq_new_def queue_ok_def in_order_def places_def in_s_def)
next
  case (Some f)
  obtain es where es: "bs = log_of ser es" "list_all (serialisable ser) es" "map clear_acks es = es" "in_order pid n es"
    using assms(2) by (auto simp: log_ok_def)
  have read: "wal_read_all deser None (wal_new bs) = Ret (Inr es)"
    using read_loop_log [OF assms(1) es(2), of "[]" "[]"] es(1,3) by (simp add: wal_read_all_def wal_new_def read_loop.simps)
  have "sorted_wrt (<) (map me_offset es)" "\<forall>e \<in> set es. 0 \<le> me_offset e \<and> me_offset e < n"
    using es(4) by (auto simp: in_order_def places_def comp_def)
  from recover_in_order [OF assms(4) this order.refl assms(3), of ovf 0]
  obtain k sz where k: "recover_loop ovf es 0 0 = Ret (k, sz)" "0 \<le> k" "k \<le> n" "\<forall>e \<in> set es. me_offset e < k" by blast
  have "in_order pid k es" using es(4) k(4) by (auto simp: in_order_def places_def)
  moreover have "in_s 64 k" using assms(4) k(2,3) by (simp add: in_s_def)
  moreover have "log_ok ser pid k bs" using es \<open>in_order pid k es\<close> by (auto simp: log_ok_def)
  ultimately show ?thesis using assms(5) Some read k(1,2) by (simp add: pq_new_def queue_ok_def wal_new_def)
qed

lemma append_ok:
  assumes "queue_ok ser pid q" and "in_s 64 (pq_next_offset q + 1)"
  shows "queue_ok ser pid (snd (pq_append ovf grant ser IoOk now now' payload pid q))"
proof (cases "grant (pq_lock q)")
  case True
  let ?e = "new_entry q now payload pid"
  let ?q1 = "q\<lparr>pq_lock := WriteHeld, pq_next_offset := pq_next_offset q + 1,
      pq_wal := map_option (\<lambda>w. snd (wal_append ser IoOk ?e w)) (pq_wal q),
      pq_current_size := pq_current_size q + length payload, pq_messages := pq_messages q @ [?e]\<rparr>"
  note q = assms(1) [unfolded queue_ok_def]
  have e: "me_offset ?e = pq_next_offset q" "me_partition_id ?e = pid" "clear_acks ?e = ?e"
    by (simp_all add: new_entry_def clear_acks_def)
  have "log_ok ser pid (pq_next_offset q + 1) (wal_file (snd (wal_append ser IoOk ?e w))) \<and> wal_buffer (snd (wal_append ser IoOk ?e w)) = []"
    if w: "pq_wal q = Some w" for w
  proof -
    obtain es where es: "wal_file w = log_of ser es" "list_all (serialisable ser) es" "map clear_acks es = es"
        "in_order pid (pq_next_offset q) es" and buf: "wal_buffer w = []"
      using q w by (auto simp: log_ok_def)
    show ?thesis
    proof (cases "serialisable ser ?e")
      case True
      then show ?thesis using wal_append_ok [OF True buf] es e in_order_snoc [OF es(4), of ?e] q buf
        by (auto simp: log_ok_def intro!: exI [of _ "es @ [?e]"])
    next
      case False
      then have "snd (wal_append ser IoOk ?e w) = w" by (simp add: wal_append_def serialisable_def)
      then show ?thesis using es buf in_order_mono [OF es(4), of "pq_next_offset q + 1"] by (auto simp: log_ok_def)
    qed
  qed
  then have q1: "queue_ok ser pid ?q1" using q e in_order_snoc [of pid "pq_next_offset q" "pq_messages q" ?e] assms(2)
    by (auto simp: queue_ok_def)
  obtain r q2 where en: "enforce_retention_policy ovf grant now' ?q1 = (r, q2)" by fastforce
  have "queue_ok ser pid q2" using queue_ok_thins [OF q1 enforce_thins, of ovf grant now'] en by simp
  then show ?thesis using True assms(2) en by (cases r) (simp_all add: pq_append_def Let_def queue_ok_def)
qed (use assms in \<open>simp add: pq_append_def\<close>)

lemma put_queue_ok:
  assumes "disk_inv ser (s, d)" and "queue_ok ser pid q" and "hm_get (st_topics s) topic = Some ps"
  shows "disk_inv ser (put_queue topic pid q s, synced (put_queue topic pid q s) d)"
proof (rule disk_inv_synced [OF assms(1)])
  fix t p q' assume "get_queue (put_queue topic pid q s) t p = Some q'"
  then show "queue_ok ser p q'" using assms by (auto simp: get_put_queue [OF assms(3)] disk_inv_def split: if_splits)
qed

lemma disk_inv_loop:
  assumes "disk_inv ser (s, d)" and "\<And>t p q. thins q (snd (f t p q))"
    and "each_topic f (st_topics s) = (r, ts)" and "st_topics t = ts"
  shows "disk_inv ser (t, synced t d)"
proof (rule disk_inv_thins [OF assms(1)])
  show "rel_option thins (get_queue s topic pid) (get_queue t topic pid)" for topic pid
    using each_topic_rel [where R = thins, OF thins_refl assms(2,3)] assms(4) by (simp add: get_queue_def)
qed

lemma storage_step_inv:
  assumes "bincode_law ser deser" and "storage_step ovf grant ser deser x y" and "disk_inv ser x"
  shows "disk_inv ser y"
  using assms(2)
proof cases
  case (create_topic s d topic)
  show ?thesis unfolding create_topic(2)
    by (rule disk_inv_synced) (use assms(3) create_topic in \<open>auto simp: get_create_topic disk_inv_def split: if_splits\<close>)
next
  case (create_partition fs topic pid d s r t)
  then have inv: "disk_inv ser (s, d)" using assms(3) by simp
  obtain n where n: "0 \<le> n" "in_s 64 n" "log_ok ser pid n (d topic pid)" by (rule disk_inv_log [OF inv])
  obtain q where q: "pq_new ovf deser (st_retention_policy s) (fs topic pid) = Ret q" "queue_ok ser pid q"
    using pq_new_ok [OF assms(1) n(3,1,2) create_partition(3)] by blast
  show ?thesis
  proof (cases "hm_get (st_topics s) topic")
    case (Some ps)
    then show ?thesis using create_partition q put_queue_ok [OF inv q(2) Some] by (auto simp: create_partition_def)
  next
    case None
    then show ?thesis using create_partition disk_inv_thins [OF inv, of s]
      by (simp add: create_partition_def option.rel_refl thins_refl)
  qed
next
  case (append s topic pid now now' message r t d)
  then have inv: "disk_inv ser (s, d)" using assms(3) by simp
  show ?thesis
  proof (cases "get_queue s topic pid")
    case (Some q)
    obtain ps where ps: "hm_get (st_topics s) topic = Some ps" using get_queue_topic [OF Some] by blast
    have "queue_ok ser pid q" using inv Some by (simp add: disk_inv_def)
    note ok = append_ok [OF this append(3) [OF Some], of ovf grant now now' message]
    have "t = put_queue topic pid (snd (pq_append ovf grant ser IoOk now now' message pid q)) s"
      using append(4) Some by (auto simp: st_append_def split: prod.splits outcome.splits)
    then show ?thesis using put_queue_ok [OF inv ok ps] append(2) by simp
  next
    case None
    then show ?thesis using append disk_inv_thins [OF inv, of s] by (simp add: st_append_def option.rel_refl thins_refl)
  qed
next
  case (acknowledge topic pid off consumer s r t d)
  then have inv: "disk_inv ser (s, d)" using assms(3) by simp
  have "rel_option thins (get_queue s t' p) (get_queue t t' p)" for t' p
  proof (cases "get_queue s topic pid")
    case (Some q)
    obtain ps where ps: "hm_get (st_topics s) topic = Some ps" using get_queue_topic [OF Some] by blast
    then show ?thesis using acknowledge(3) Some get_put_queue [OF ps] acknowledge_thins [of q grant off consumer]
      by (auto simp: st_acknowledge_def option.rel_refl thins_refl split: prod.splits)
  qed (use acknowledge(3) in \<open>simp add: st_acknowledge_def option.rel_refl thins_refl\<close>)
  from disk_inv_thins [OF inv this] show ?thesis using acknowledge(2) by simp
next
  case (cleanup s r t d)
  then show ?thesis using disk_inv_loop [where f = "\<lambda>_ _. cleanup_acknowledged grant", OF _ cleanup_thins] assms(3)
    by (auto simp: st_cleanup_def split: prod.splits)
next
  case (cleanup_old clock s r t d)
  then show ?thesis using disk_inv_loop [where f = "\<lambda>t p. enforce_retention_policy ovf grant (clock t p)", OF _ enforce_thins] assms(3)
    by (auto simp: cleanup_old_messages_def split: prod.splits)
next
  case (update_policy clock pol s r t d)
  then show ?thesis using disk_inv_loop [where f = "\<lambda>t p. enforce_retention_policy ovf grant (clock t p)", OF _ enforce_thins] assms(3)
    by (auto simp: update_retention_policy_def split: prod.splits)
next
  case (consumer_offset consumer topic pid off s t d)
  then have inv: "disk_inv ser (s, d)" using assms(3) by simp
  have "get_queue t t' p = get_queue s t' p" for t' p
    using consumer_offset(3) by (auto simp: update_consumer_offset_def get_queue_def)
  then show ?thesis using consumer_offset(2) disk_inv_thins [OF inv, of t] by (simp add: option.rel_refl thins_refl)
next
  case (restart s d pol)
  then show ?thesis using assms(3) by (simp add: disk_inv_def get_queue_def with_retention_policy_def)
qed

definition empty_disk :: disk where
  "empty_disk = (\<lambda>_ _. [])"

lemma disk_inv_start: "disk_inv ser (with_retention_policy pol, empty_disk)"
proof -
  have "log_ok ser pid 0 []" for pid by (auto simp: log_ok_def in_order_def places_def intro!: exI [of _ "[]"])
  then show ?thesis by (auto simp: disk_inv_def empty_disk_def get_queue_def with_retention_policy_def in_s_def intro!: exI [of _ 0])
qed

text \<open>The system for every profile, lock and encoding that satisfies the encoder's law.\<close>

interpretation storage_system: invariant_system "\<lambda>x. \<exists>pol. x = (with_retention_policy pol, empty_disk)"
  "\<lambda>x y. \<exists>ovf grant deser. bincode_law ser deser \<and> storage_step ovf grant ser deser x y" "disk_inv ser"
  for ser
proof unfold_locales
  show "disk_inv ser x" if "\<exists>pol. x = (with_retention_policy pol, empty_disk)" for x
    using that disk_inv_start by blast
  show "disk_inv ser y" if "disk_inv ser x" "\<exists>ovf grant deser. bincode_law ser deser \<and> storage_step ovf grant ser deser x y" for x y
    using that storage_step_inv by blast
qed

lemma storage_step_reachable:
  assumes "bincode_law ser deser" and "(storage_step ovf grant ser deser)\<^sup>*\<^sup>* (with_retention_policy pol, empty_disk) x"
  shows "disk_inv ser x"
proof -
  have "(\<lambda>x y. \<exists>ovf grant deser. bincode_law ser deser \<and> storage_step ovf grant ser deser x y)\<^sup>*\<^sup>* (with_retention_policy pol, empty_disk) x"
    using assms(2) by (rule mono_rtranclp [rule_format, rotated]) (use assms(1) in blast)
  then show ?thesis by (rule storage_system.inv_reachable [rotated]) blast
qed

lemma metrics_loop_fold:
  "\<forall>q \<in> set qs. grant (pq_lock q) \<Longrightarrow> metrics_loop grant qs m = Ret (fold metrics_add qs m)"
  by (induction qs arbitrary: m) auto

lemma metrics_fold_totals:
  assumes "list_all pq_wf qs"
  shows "sx_total_messages (fold metrics_add qs m) =
      sx_total_messages m + length (concat (map pq_messages qs))"
    and "sx_total_bytes (fold metrics_add qs m) =
      sx_total_bytes m + payload_bytes (concat (map pq_messages qs))"
  using assms by (induction qs arbitrary: m) (simp_all add: metrics_add_def pq_wf_def)

text \<open>The reported age: the clock reading, lowered to the oldest front message.\<close>

lemma metrics_fold_oldest:
  "sx_oldest_message (fold metrics_add qs m) =
   Min (insert (sx_oldest_message m) {me_timestamp (hd (pq_messages q)) | q. q \<in> set qs \<and> pq_messages q \<noteq> []})"
proof (induction qs arbitrary: m)
  case (Cons q qs)
  let ?F = "\<lambda>qs. {me_timestamp (hd (pq_messages q)) | q. q \<in> set qs \<and> pq_messages q \<noteq> []}"
  have fin: "finite (?F qs)" by simp
  have F: "?F (q # qs) = (if pq_messages q = [] then ?F qs
      else insert (me_timestamp (hd (pq_messages q))) (?F qs))" by auto
  have m: "Min (insert (min a b) A) = Min (insert a (insert b A))" if "finite A" for a b :: int and A
    using that by (cases "A = {}") (simp_all add: min.assoc)
  have add: "sx_oldest_message (metrics_add q m) = (if pq_messages q = [] then sx_oldest_message m
      else min (sx_oldest_message m) (me_timestamp (hd (pq_messages q))))"
    by (simp add: metrics_add_def min_def split: list.split)
  show ?case unfolding fold_simps comp_apply Cons.IH F add
    by (cases "pq_messages q = []") (simp_all only: m [OF fin] if_True if_False simp_thms)
qed simp

section \<open>Properties\<close>

text \<open>
  Property C28: the storage keeps its messages in order, over restarts. The log files start empty and are only
  written by the program itself; the process may be restarted at any moment, also while an append waits for ever.
  Then, under any lock, a read that returns gives messages of the requested partition only, at or above the requested
  offset, in strictly increasing offset order and at most one page of 100; a queued message at or above the offset that is
  not on the page lies behind a full page. A read of an unknown topic or partition returns \<open>None\<close>. The runs are those in which the
  writes to a log complete and a log that can be opened can be read: after a torn write or a failed read the
  offsets start again at zero over the old log, and the order is lost.
\<close>

theorem storage_reads_ordered:
  assumes "bincode_law ser deser"
    and "(storage_step ovf grant ser deser)\<^sup>*\<^sup>* (with_retention_policy pol, empty_disk) (s, d)"
    and "st_read grant topic pid start s = Ret r"
  shows "case get_queue s topic pid of
       None \<Rightarrow> r = None
     | Some q \<Rightarrow> (\<exists>ms. r = Some ms \<and> length ms \<le> 100 \<and> sorted_wrt (<) (map sm_offset ms)
         \<and> (\<forall>m \<in> set ms. sm_partition_id m = pid \<and> start \<le> sm_offset m \<and> m \<in> to_stored_message ` set (pq_messages q))
         \<and> (\<forall>e \<in> set (pq_messages q). start \<le> me_offset e \<longrightarrow> to_stored_message e \<in> set ms
              \<or> (length ms = 100 \<and> (\<forall>m \<in> set ms. sm_offset m < me_offset e))))"
proof (cases "get_queue s topic pid")
  case (Some q)
  have "in_order pid (pq_next_offset q) (pq_messages q)"
    using storage_step_reachable [OF assms(1,2)] Some by (auto simp: disk_inv_def queue_ok_def)
  then have sorted: "sorted_wrt (<) (map me_offset (pq_messages q))" and own: "\<forall>e \<in> set (pq_messages q). me_partition_id e = pid"
    by (auto simp: in_order_def places_def comp_def)
  let ?es = "take 100 (filter (\<lambda>e. start \<le> me_offset e) (pq_messages q))"
  have r: "r = Some (map to_stored_message ?es)"
    using assms(3) Some by (simp add: st_read_def read_from_def split: if_splits)
  have off: "sm_offset \<circ> to_stored_message = me_offset" by (auto simp: to_stored_message_def)
  have "sorted_wrt (<) (map sm_offset (map to_stored_message ?es))"
    using sorted unfolding map_map off by (simp add: sorted_wrt_map sorted_wrt_filter sorted_wrt_take)
  moreover have "\<forall>m \<in> set (map to_stored_message ?es). sm_partition_id m = pid \<and> start \<le> sm_offset m
      \<and> m \<in> to_stored_message ` set (pq_messages q)"
    using own by (auto simp: to_stored_message_def dest!: in_set_takeD)
  moreover have "to_stored_message e \<in> set (map to_stored_message ?es)
      \<or> (length (map to_stored_message ?es) = 100 \<and> (\<forall>m \<in> set (map to_stored_message ?es). sm_offset m < me_offset e))"
    if "e \<in> set (pq_messages q)" "start \<le> me_offset e" for e
    using sorted_take_filter [OF sorted that(1), of "\<lambda>e. start \<le> me_offset e" 100] that(2)
    by (auto simp: to_stored_message_def)
  ultimately show ?thesis using r Some by auto
qed (use assms(3) in \<open>simp add: st_read_def\<close>)

definition example_storage :: storage where
  "example_storage = snd (create_partition True small_deser (\<lambda>_ _. None) ''t'' 0 (create_topic ''t'' st_new))"

lemma example_storage_queue:
  "get_queue example_storage ''t'' 0 = Some \<lparr>pq_messages = [], pq_next_offset = 0,
     pq_retention_policy = rp_default, pq_current_size = 0, pq_wal = None, pq_lock = Unlocked\<rparr>"
  by (simp add: example_storage_def create_partition_def create_topic_def st_new_def with_retention_policy_def
      get_queue_def put_queue_def pq_new_def)

lemma example_storage_wf: "st_wf example_storage"
  by (simp add: st_wf_def example_storage_def create_partition_def create_topic_def st_new_def with_retention_policy_def
      all_queues_def put_queue_def pq_new_def pq_wf_def)

text \<open>A first process appends a message and is killed while the append waits; a second one reads it.\<close>

lemma example_restart:
  "\<exists>s d q. (storage_step True parking_lot small_ser small_deser)\<^sup>*\<^sup>* (with_retention_policy rp_default, empty_disk) (s, d)
     \<and> get_queue s ''t'' 0 = Some q \<and> pq_messages q = [\<lparr>me_offset = 0, me_payload = [1, 2], me_timestamp = 5,
         me_partition_id = 0, me_acknowledged_by = []\<rparr>] \<and> pq_lock q = Unlocked"
proof -
  let ?step = "storage_step True parking_lot small_ser small_deser" and ?s0 = "with_retention_policy rp_default"
  let ?e = "\<lparr>me_offset = 0, me_payload = [1, 2], me_timestamp = 5, me_partition_id = 0, me_acknowledged_by = []\<rparr>"
  let ?fs = "\<lambda>d t p. Some (Readable (d t p))"
  let ?q = "\<lparr>pq_messages = [], pq_next_offset = 0, pq_retention_policy = rp_default, pq_current_size = 0,
      pq_wal = Some (wal_new []), pq_lock = Unlocked\<rparr>"
  let ?s1 = "create_topic ''t'' ?s0"
  have t1: "hm_get (st_topics ?s1) ''t'' = Some []" "st_retention_policy ?s1 = rp_default"
    by (simp_all add: create_topic_def with_retention_policy_def)
  have q1: "get_queue ?s1 t p = None" for t p by (simp add: get_queue_def create_topic_def with_retention_policy_def)
  have d1: "synced ?s1 d = d" for d by (intro ext) (simp add: synced_def q1)
  have e: "serialisable small_ser ?e" "map clear_acks [?e] = [?e]" "consecutive [?e]"
    by (simp_all add: serialisable_def entry_fields_def small_ser_def clear_acks_def consecutive_def)
  have new0: "pq_new True small_deser rp_default (Some (Readable [])) = Ret ?q"
    by (simp add: pq_new_def wal_read_all_def wal_new_def read_loop.simps)
  have part: "create_partition True small_deser (?fs d) ''t'' 0 ?s1 = (Ret True, put_queue ''t'' 0 q ?s1)"
    if "pq_new True small_deser rp_default (Some (Readable (d ''t'' 0))) = Ret q" for d q
    using that t1 by (simp add: create_partition_def)
  let ?s2 = "put_queue ''t'' 0 ?q ?s1" and ?d2 = "synced (put_queue ''t'' 0 ?q ?s1) empty_disk"
  have c2: "?step (?s1, empty_disk) (?s2, ?d2)"
    by (rule storage_step.create_partition [OF _ part [of empty_disk ?q]]) (simp_all add: empty_disk_def new0)
  have a: "?step\<^sup>*\<^sup>* (?s0, empty_disk) (?s2, ?d2)"
    using storage_step.create_topic [of True parking_lot small_ser small_deser ?s0 empty_disk "''t''"]
      c2 d1
    by (metis (no_types, lifting) converse_rtranclp_into_rtranclp r_into_rtranclp)
  have q2: "get_queue ?s2 ''t'' 0 = Some ?q" using t1 by (simp add: get_put_queue)
  obtain r s3 where ap: "st_append True parking_lot small_ser IoOk 5 5 ''t'' 0 [1, 2] ?s2 = (r, s3)" by fastforce
  have "\<exists>q3. s3 = put_queue ''t'' 0 q3 ?s2 \<and> pq_wal q3 = Some (wal_new (log_of small_ser [?e]))"
    using ap q2 wal_append_ok [OF e(1), of "wal_new []"]
    by (auto simp: st_append_def pq_append_def new_entry_def enforce_retention_policy_def Let_def wal_new_def in_s_def)
  then obtain q3 where q3: "s3 = put_queue ''t'' 0 q3 ?s2" "pq_wal q3 = Some (wal_new (log_of small_ser [?e]))" by blast
  have "?step (?s2, ?d2) (s3, synced s3 ?d2)"
    by (rule storage_step.append [OF _ ap]) (simp add: q2 in_s_def)
  moreover have "hm_get (st_topics ?s2) ''t'' = Some [(0, ?q)]" using t1 by (simp add: put_queue_def hashmap_simps)
  then have d3: "synced s3 ?d2 ''t'' 0 = log_of small_ser [?e]"
    using q3 by (simp add: synced_def get_put_queue wal_new_def)
  ultimately have b: "?step\<^sup>*\<^sup>* (?s0, empty_disk) (?s0, synced s3 ?d2)"
    using a storage_step.restart by (meson rtranclp.rtrancl_into_rtrancl)
  let ?d3 = "synced s3 ?d2"
  obtain q where q: "pq_new True small_deser rp_default (Some (Readable (?d3 ''t'' 0))) = Ret q" "pq_messages q = [?e]"
      "pq_lock q = Unlocked"
    unfolding d3 using pq_new_log [OF small_bincode_law _ e(2,3), of True rp_default] e(1) by simp
  let ?s4 = "put_queue ''t'' 0 q ?s1"
  have "?step (?s1, ?d3) (?s4, synced ?s4 ?d3)"
    by (rule storage_step.create_partition [OF _ part [of ?d3 q, OF q(1)]]) simp
  moreover have "?step (?s0, ?d3) (?s1, ?d3)"
    using storage_step.create_topic [of True parking_lot small_ser small_deser ?s0 ?d3 "''t''"] d1 by simp
  ultimately have "?step\<^sup>*\<^sup>* (?s0, empty_disk) (?s4, synced ?s4 ?d3)" using b by (meson rtranclp.rtrancl_into_rtrancl)
  moreover have "get_queue ?s4 ''t'' 0 = Some q" using t1 by (simp add: get_put_queue)
  ultimately show ?thesis using q by blast
qed

theorem storage_reads_ordered_witness:
  "\<exists>s d ms. (storage_step True parking_lot small_ser small_deser)\<^sup>*\<^sup>* (with_retention_policy rp_default, empty_disk) (s, d)
     \<and> st_read parking_lot ''t'' 0 0 s = Ret (Some ms) \<and> map sm_payload ms = [[1, 2]]
     \<and> (\<forall>m \<in> set ms. sm_partition_id m = 0)"
proof -
  obtain s d q where run: "(storage_step True parking_lot small_ser small_deser)\<^sup>*\<^sup>* (with_retention_policy rp_default, empty_disk) (s, d)"
    and q: "get_queue s ''t'' 0 = Some q" "pq_messages q = [\<lparr>me_offset = 0, me_payload = [1, 2], me_timestamp = 5,
         me_partition_id = 0, me_acknowledged_by = []\<rparr>]" "pq_lock q = Unlocked"
    using example_restart by blast
  let ?ms = "map to_stored_message (pq_messages q)"
  have read: "st_read parking_lot ''t'' 0 0 s = Ret (Some ?ms)" using q by (simp add: st_read_def read_from_def)
  from storage_reads_ordered [OF small_bincode_law run read] have "\<forall>m \<in> set ?ms. sm_partition_id m = 0" by (simp add: q(1))
  moreover have "map sm_payload ?ms = [[1, 2]]" using q(2) by (simp add: to_stored_message_def)
  ultimately show ?thesis using run read by (intro exI [of _ s] exI [of _ d] exI [of _ ?ms]) simp
qed

lemma pq_append_blocks:
  assumes "exclusive_lock grant" and "in_s 64 (pq_next_offset q + 1)"
    and "pq_append ovf grant ser io now now' message pid q = (r, q')"
  shows "r = Block \<and> pq_lock q' = WriteHeld"
  using assms
  by (cases "pq_lock q") (auto simp: pq_append_def enforce_retention_policy_def exclusive_lock_def Let_def)

lemma st_append_blocks:
  assumes "exclusive_lock grant" and "get_queue s topic pid = Some q" and "in_s 64 (pq_next_offset q + 1)"
  shows "fst (st_append ovf grant ser io now now' topic pid message s) = Block"
proof -
  obtain r q' where "pq_append ovf grant ser io now now' message pid q = (r, q')" by fastforce
  with pq_append_blocks [OF assms(1,3) this] assms(2) show ?thesis by (simp add: st_append_def)
qed

text \<open>
  An append touches only its own partition. Every other partition's queue is as
  before, the consumer offsets and the policy are unchanged, an append to a missing topic or
  partition returns \<open>None\<close> and changes nothing, and under the exclusive lock an append to an
  existing free partition does not return.
\<close>

lemma append_isolated:
  assumes "exclusive_lock grant"
    and "st_append ovf grant ser io now now' topic pid message s = (r, t)"
  shows "(\<forall>topic' pid'. (topic', pid') \<noteq> (topic, pid) \<longrightarrow> get_queue t topic' pid' = get_queue s topic' pid')
     \<and> st_consumer_offsets t = st_consumer_offsets s \<and> st_retention_policy t = st_retention_policy s
     \<and> (get_queue s topic pid = None \<longrightarrow> r = Ret None \<and> t = s)
     \<and> (\<forall>q. get_queue s topic pid = Some q \<and> in_s 64 (pq_next_offset q + 1) \<longrightarrow>
          r = Block \<and> (\<exists>q'. get_queue t topic pid = Some q' \<and> pq_lock q' = WriteHeld))"
proof (cases "get_queue s topic pid")
  case (Some q)
  then obtain ps where ps: "hm_get (st_topics s) topic = Some ps" using get_queue_topic by blast
  obtain r' q' where a: "pq_append ovf grant ser io now now' message pid q = (r', q')" by fastforce
  have t: "t = put_queue topic pid q' s"
    using assms(2) Some a by (cases r') (auto simp: st_append_def)
  have blk: "r' = Block \<and> pq_lock q' = WriteHeld" if "in_s 64 (pq_next_offset q + 1)"
    using pq_append_blocks [OF assms(1) that a] .
  have "\<forall>topic' pid'. (topic', pid') \<noteq> (topic, pid) \<longrightarrow> get_queue t topic' pid' = get_queue s topic' pid'"
    using t get_put_queue [OF ps] by auto
  moreover have "get_queue t topic pid = Some q'" using t get_put_queue [OF ps] by simp
  moreover have "r = Block" if "r' = Block" using assms(2) Some a that by (simp add: st_append_def)
  ultimately show ?thesis using Some t blk by (simp add: put_queue_def)
qed (use assms(2) in \<open>simp add: st_append_def\<close>)

lemma append_isolated_example:
  "fst (st_append True parking_lot small_ser IoOk 5 5 ''t'' 0 [1, 2] example_storage) = Block"
  using append_isolated [OF parking_lot_exclusive(1) surjective_pairing,
      of "''t''" 0 True small_ser IoOk 5 5 "[1, 2]" example_storage]
  by (simp add: example_storage_queue in_s_def)

text \<open>
  \<open>update_retention_policy\<close> does not apply the new policy to the partitions that
  exist. On a well-formed storage with free locks it returns, stores the new policy for future
  partitions, and prunes every existing queue by the policy the queue was created with, which the
  queue also keeps.
\<close>

lemma update_retention_policy_effect:
  assumes "st_wf s" and "\<forall>q \<in> set (all_queues s). grant (pq_lock q)"
    and "update_retention_policy ovf grant clock pol s = (r, t)"
  shows "r = Ret () \<and> get_retention_policy t = pol
     \<and> (\<forall>topic pid. get_queue t topic pid = map_option
          (\<lambda>q. let ms = retain (clock topic pid) (pq_retention_policy q) (pq_messages q)
               in q\<lparr>pq_messages := ms, pq_current_size := payload_bytes ms\<rparr>) (get_queue s topic pid))"
proof -
  let ?g = "\<lambda>tp pid q. let ms = retain (clock tp pid) (pq_retention_policy q) (pq_messages q)
               in q\<lparr>pq_messages := ms, pq_current_size := payload_bytes ms\<rparr>"
  have op: "enforce_retention_policy ovf grant (clock tp p) q = (Ret (), ?g tp p q)"
    if "(tp, ps) \<in> set (st_topics s)" "(p, q) \<in> set ps" for tp ps p q
  proof -
    have "q \<in> set (all_queues s)" using that by (force simp: all_queues_def)
    then have "pq_wf q" "grant (pq_lock q)" using assms(1,2) by (simp_all add: st_wf_def list_all_iff)
    then show ?thesis using enforce_unlocked [where grant = grant] by (simp add: Let_def)
  qed
  have each: "each_topic (\<lambda>t p. enforce_retention_policy ovf grant (clock t p)) (st_topics s) =
      (Ret (), map (\<lambda>(t, ps). (t, map (\<lambda>(p, q). (p, ?g t p q)) ps)) (st_topics s))"
    by (rule each_topic_map) (rule op)
  have "get_queue t topic pid = map_option (?g topic pid) (get_queue s topic pid)" for topic pid
    using assms(3) each get_map_queues [where s = "s\<lparr>st_retention_policy := pol\<rparr>" and g = ?g and t = topic and p = pid]
    by (auto simp: update_retention_policy_def get_queue_def)
  then show ?thesis using assms(3) each by (auto simp: update_retention_policy_def get_retention_policy_def)
qed

lemma update_retention_policy_effect_example:
  "\<exists>q. get_queue (snd (update_retention_policy True parking_lot (\<lambda>_ _. 9) \<lparr>rp_max_age = 1, rp_max_bytes = 1\<rparr> example_storage))
     ''t'' 0 = Some q \<and> pq_retention_policy q = rp_default"
proof -
  have "st_wf example_storage" by (rule example_storage_wf)
  moreover have "\<forall>q \<in> set (all_queues example_storage). parking_lot (pq_lock q)"
    by (simp add: example_storage_def create_partition_def create_topic_def st_new_def with_retention_policy_def
      all_queues_def put_queue_def pq_new_def)
  ultimately show ?thesis
    using update_retention_policy_effect [where grant = parking_lot and s = example_storage, OF _ _ surjective_pairing,
      of True "\<lambda>_ _. 9" "\<lparr>rp_max_age = 1, rp_max_bytes = 1\<rparr>"]
    by (simp add: example_storage_queue Let_def)
qed

text \<open>
  The storage metrics are exact. On a well-formed storage with free locks
  \<open>get_metrics\<close> returns the number of queued messages, the total size of their payloads over all
  partitions, and the earliest timestamp among the messages at the front of the partitions and the
  current time.
\<close>

lemma metrics_exact:
  assumes "st_wf s" and "\<forall>q \<in> set (all_queues s). grant (pq_lock q)"
  shows "get_metrics grant now s = Ret
     \<lparr>sx_total_messages = length (concat (map pq_messages (all_queues s))),
      sx_total_bytes = payload_bytes (concat (map pq_messages (all_queues s))),
      sx_oldest_message = Min (insert now {me_timestamp (hd (pq_messages q)) | q.
        q \<in> set (all_queues s) \<and> pq_messages q \<noteq> []})\<rparr>"
proof -
  let ?m = "fold metrics_add (all_queues s) \<lparr>sx_total_messages = 0, sx_total_bytes = 0, sx_oldest_message = now\<rparr>"
  have "get_metrics grant now s = Ret ?m"
    using assms(2) by (simp add: get_metrics_def metrics_loop_fold)
  moreover have "?m = \<lparr>sx_total_messages = length (concat (map pq_messages (all_queues s))),
      sx_total_bytes = payload_bytes (concat (map pq_messages (all_queues s))),
      sx_oldest_message = Min (insert now {me_timestamp (hd (pq_messages q)) | q.
        q \<in> set (all_queues s) \<and> pq_messages q \<noteq> []})\<rparr>"
    by (rule storage_metrics.equality)
      (use assms(1) in \<open>simp_all add: metrics_fold_totals metrics_fold_oldest st_wf_def\<close>)
  ultimately show ?thesis by simp
qed

lemma example_storage_queues: "all_queues example_storage = [\<lparr>pq_messages = [], pq_next_offset = 0,
     pq_retention_policy = rp_default, pq_current_size = 0, pq_wal = None, pq_lock = Unlocked\<rparr>]"
  by (simp add: example_storage_def create_partition_def create_topic_def st_new_def with_retention_policy_def
      all_queues_def put_queue_def pq_new_def)

lemma metrics_exact_example:
  "get_metrics parking_lot 5 example_storage =
     Ret \<lparr>sx_total_messages = 0, sx_total_bytes = 0, sx_oldest_message = 5\<rparr>"
  using metrics_exact [where grant = parking_lot and s = example_storage and now = 5]
    example_storage_wf
  by (simp add: example_storage_queues)

end
