(* ===== verification/Transactions.thy ===== *)
theory Transactions
  imports Rafka_Prelude
begin

text \<open>
  The transaction coordinator, \<^verbatim>\<open>crates/broker/src/transactions.rs\<close>. Every operation takes the
  write lock of the table for its whole body, so operations are atomic steps and an execution is
  a sequence of calls. The identifier drawn from \<open>Uuid::new_v4\<close> and the clock readings are
  arguments. Error strings are the constructors of \<open>txn_error\<close>.
\<close>

section \<open>State\<close>

datatype transaction_state =
  Preparing | Prepared | Committing | Committed | Aborting | Aborted | TimedOut

record transactional_write =
  tw_topic :: string
  tw_partition :: int
  tw_key :: string
  tw_value :: "byte list"
  tw_offset :: "int option"

record transaction =
  tx_transaction_id :: string
  tx_producer_id :: string
  tx_state :: transaction_state
  tx_writes :: "transactional_write list"
  tx_started_at :: systime
  tx_timeout :: duration

datatype txn_error =
    CannotAddWrites transaction_state
  | CannotPrepare transaction_state
  | CannotCommit transaction_state
  | CannotAbortCommitted
  | TransactionTimedOut
  | TransactionNotFound
  | ActiveTransaction
  | ProducerNotFound

record producer_state =
  tp_producer_id :: string
  tp_producer_epoch :: int
  tp_sequence_number :: int
  tp_last_update :: systime

record transaction_coordinator =
  tc_transactions :: "(string, transaction) hashmap"
  tc_producers :: "(string, producer_state) hashmap"
  tc_default_timeout :: duration

section \<open>Operations of a transaction\<close>

definition tx_new :: "string \<Rightarrow> systime \<Rightarrow> string \<Rightarrow> duration \<Rightarrow> transaction" where
  "tx_new uuid now producer_id timeout =
     \<lparr>tx_transaction_id = uuid, tx_producer_id = producer_id, tx_state = Preparing, tx_writes = [],
      tx_started_at = now, tx_timeout = timeout\<rparr>"

definition tx_add_write :: "transactional_write \<Rightarrow> transaction \<Rightarrow> (txn_error + unit) \<times> transaction" where
  "tx_add_write write tx =
     (if tx_state tx \<noteq> Preparing then (Inl (CannotAddWrites (tx_state tx)), tx)
      else (Inr (), tx\<lparr>tx_writes := tx_writes tx @ [write]\<rparr>))"

definition is_timed_out :: "systime \<Rightarrow> transaction \<Rightarrow> bool" where
  "is_timed_out now tx \<longleftrightarrow>
     (case duration_since now (tx_started_at tx) of None \<Rightarrow> secs 0 | Some d \<Rightarrow> d) > tx_timeout tx"

section \<open>Producer sequence numbers\<close>

definition ps_new :: "systime \<Rightarrow> string \<Rightarrow> producer_state" where
  "ps_new now producer_id =
     \<lparr>tp_producer_id = producer_id, tp_producer_epoch = 0, tp_sequence_number = 0, tp_last_update = now\<rparr>"

definition ps_next_sequence :: "bool \<Rightarrow> systime \<Rightarrow> producer_state \<Rightarrow> int outcome \<times> producer_state" where
  "ps_next_sequence ovf now p =
     (case arith_s 64 ovf (tp_sequence_number p + 1) of
        Ret n \<Rightarrow> (Ret n, p\<lparr>tp_sequence_number := n, tp_last_update := now\<rparr>)
      | Panic \<Rightarrow> (Panic, p)
      | Block \<Rightarrow> (Block, p))"

section \<open>Operations of the coordinator\<close>

definition tc_new :: transaction_coordinator where
  "tc_new = \<lparr>tc_transactions = [], tc_producers = [], tc_default_timeout = secs 60\<rparr>"

definition active :: "transaction \<Rightarrow> bool" where
  "active tx \<longleftrightarrow> tx_state tx = Preparing \<or> tx_state tx = Prepared"

definition begin_transaction ::
  "string \<Rightarrow> systime \<Rightarrow> systime \<Rightarrow> string \<Rightarrow> transaction_coordinator \<Rightarrow>
   (txn_error + string) \<times> transaction_coordinator" where
  "begin_transaction uuid now now' producer_id c =
     (if list_ex (\<lambda>(_, tx). tx_producer_id tx = producer_id \<and> active tx) (tc_transactions c)
      then (Inl ActiveTransaction, c)
      else
        let tx = tx_new uuid now producer_id (tc_default_timeout c);
            txn_id = tx_transaction_id tx
        in (Inr txn_id,
            c\<lparr>tc_transactions := hm_insert txn_id tx (tc_transactions c),
              tc_producers :=
                (case hm_get (tc_producers c) producer_id of
                   Some _ \<Rightarrow> tc_producers c
                 | None \<Rightarrow> hm_insert producer_id (ps_new now' producer_id) (tc_producers c))\<rparr>))"

definition put_txn :: "string \<Rightarrow> transaction \<Rightarrow> transaction_coordinator \<Rightarrow> transaction_coordinator" where
  "put_txn transaction_id tx c =
     c\<lparr>tc_transactions := hm_insert transaction_id tx (tc_transactions c)\<rparr>"

definition add_write ::
  "systime \<Rightarrow> string \<Rightarrow> transactional_write \<Rightarrow> transaction_coordinator \<Rightarrow>
   (txn_error + unit) \<times> transaction_coordinator" where
  "add_write now transaction_id write c =
     (case hm_get (tc_transactions c) transaction_id of
        Some tx \<Rightarrow>
          (if is_timed_out now tx
           then (Inl TransactionTimedOut, put_txn transaction_id (tx\<lparr>tx_state := TimedOut\<rparr>) c)
           else case tx_add_write write tx of (r, tx') \<Rightarrow> (r, put_txn transaction_id tx' c))
      | None \<Rightarrow> (Inl TransactionNotFound, c))"

definition prepare_transaction ::
  "systime \<Rightarrow> string \<Rightarrow> transaction_coordinator \<Rightarrow> (txn_error + unit) \<times> transaction_coordinator" where
  "prepare_transaction now transaction_id c =
     (case hm_get (tc_transactions c) transaction_id of
        Some tx \<Rightarrow>
          (if is_timed_out now tx
           then (Inl TransactionTimedOut, put_txn transaction_id (tx\<lparr>tx_state := TimedOut\<rparr>) c)
           else if tx_state tx \<noteq> Preparing then (Inl (CannotPrepare (tx_state tx)), c)
           else (Inr (), put_txn transaction_id (tx\<lparr>tx_state := Prepared\<rparr>) c))
      | None \<Rightarrow> (Inl TransactionNotFound, c))"

definition commit_transaction ::
  "string \<Rightarrow> transaction_coordinator \<Rightarrow>
   (txn_error + transactional_write list) \<times> transaction_coordinator" where
  "commit_transaction transaction_id c =
     (case hm_get (tc_transactions c) transaction_id of
        Some tx \<Rightarrow>
          (if tx_state tx \<noteq> Prepared then (Inl (CannotCommit (tx_state tx)), c)
           else
             let tx1 = tx\<lparr>tx_state := Committing\<rparr>;
                 writes = tx_writes tx1;
                 tx2 = tx1\<lparr>tx_state := Committed\<rparr>
             in (Inr writes, put_txn transaction_id tx2 c))
      | None \<Rightarrow> (Inl TransactionNotFound, c))"

definition abort_transaction ::
  "string \<Rightarrow> transaction_coordinator \<Rightarrow> (txn_error + unit) \<times> transaction_coordinator" where
  "abort_transaction transaction_id c =
     (case hm_get (tc_transactions c) transaction_id of
        Some tx \<Rightarrow>
          (if tx_state tx = Committed then (Inl CannotAbortCommitted, c)
           else
             let tx1 = tx\<lparr>tx_state := Aborting\<rparr>;
                 tx2 = tx1\<lparr>tx_writes := []\<rparr>;
                 tx3 = tx2\<lparr>tx_state := Aborted\<rparr>
             in (Inr (), put_txn transaction_id tx3 c))
      | None \<Rightarrow> (Inl TransactionNotFound, c))"

definition next_sequence ::
  "bool \<Rightarrow> systime \<Rightarrow> string \<Rightarrow> transaction_coordinator \<Rightarrow>
   (txn_error + int) outcome \<times> transaction_coordinator" where
  "next_sequence ovf now producer_id c =
     (case hm_get (tc_producers c) producer_id of
        Some p \<Rightarrow>
          (case ps_next_sequence ovf now p of
             (Ret n, p') \<Rightarrow>
               (Ret (Inr n), c\<lparr>tc_producers := hm_insert producer_id p' (tc_producers c)\<rparr>)
           | (Panic, _) \<Rightarrow> (Panic, c)
           | (Block, _) \<Rightarrow> (Block, c))
      | None \<Rightarrow> (Ret (Inl ProducerNotFound), c))"

definition validate_sequence ::
  "bool \<Rightarrow> string \<Rightarrow> int \<Rightarrow> transaction_coordinator \<Rightarrow> (txn_error + bool) outcome" where
  "validate_sequence ovf producer_id sequence c =
     (case hm_get (tc_producers c) producer_id of
        Some p \<Rightarrow>
          (case arith_s 64 ovf (tp_sequence_number p + 1) of
             Ret n \<Rightarrow> Ret (Inr (sequence = n))
           | Panic \<Rightarrow> Panic
           | Block \<Rightarrow> Block)
      | None \<Rightarrow> Ret (Inl ProducerNotFound))"

text \<open>\<open>retain\<close> reads the clock for each transaction: \<open>clock id\<close> is the reading made for \<open>id\<close>.\<close>

definition cleanup_old_transactions ::
  "(string \<Rightarrow> systime) \<Rightarrow> transaction_coordinator \<Rightarrow> transaction_coordinator" where
  "cleanup_old_transactions clock c =
     c\<lparr>tc_transactions := filter
        (\<lambda>(k, tx). tx_state tx = Preparing \<or> tx_state tx = Prepared \<or> \<not> is_timed_out (clock k) tx)
        (tc_transactions c)\<rparr>"

definition get_transaction_state :: "string \<Rightarrow> transaction_coordinator \<Rightarrow> transaction_state option" where
  "get_transaction_state transaction_id c =
     map_option tx_state (hm_get (tc_transactions c) transaction_id)"

section \<open>Executions\<close>

text \<open>A call of the coordinator with the values it draws from outside, and what it returns.\<close>

datatype txn_call =
    Begin string systime systime string
  | AddWrite systime string transactional_write
  | Prepare systime string
  | Commit string
  | Abort string
  | NextSequence systime string
  | Cleanup "string \<Rightarrow> systime"

datatype txn_reply =
    Began "txn_error + string"
  | Added "txn_error + unit"
  | PrepareReply "txn_error + unit"
  | CommitReply "txn_error + transactional_write list"
  | AbortReply "txn_error + unit"
  | SequenceReply "(txn_error + int) outcome"
  | Cleaned

fun txn_exec :: "bool \<Rightarrow> txn_call \<Rightarrow> transaction_coordinator \<Rightarrow> txn_reply \<times> transaction_coordinator" where
  "txn_exec ovf (Begin uuid now now' p) c = (case begin_transaction uuid now now' p c of (r, c') \<Rightarrow> (Began r, c'))"
| "txn_exec ovf (AddWrite now i w) c = (case add_write now i w c of (r, c') \<Rightarrow> (Added r, c'))"
| "txn_exec ovf (Prepare now i) c = (case prepare_transaction now i c of (r, c') \<Rightarrow> (PrepareReply r, c'))"
| "txn_exec ovf (Commit i) c = (case commit_transaction i c of (r, c') \<Rightarrow> (CommitReply r, c'))"
| "txn_exec ovf (Abort i) c = (case abort_transaction i c of (r, c') \<Rightarrow> (AbortReply r, c'))"
| "txn_exec ovf (NextSequence now p) c = (case next_sequence ovf now p c of (r, c') \<Rightarrow> (SequenceReply r, c'))"
| "txn_exec ovf (Cleanup clock) c = (Cleaned, cleanup_old_transactions clock c)"

fun txn_run :: "bool \<Rightarrow> txn_call list \<Rightarrow> transaction_coordinator \<Rightarrow>
    (txn_call \<times> txn_reply) list \<times> transaction_coordinator" where
  "txn_run ovf [] c = ([], c)"
| "txn_run ovf (x # xs) c =
     (case txn_exec ovf x c of (r, c1) \<Rightarrow>
        (case txn_run ovf xs c1 of (rs, c2) \<Rightarrow> ((x, r) # rs, c2)))"

section \<open>Laws of the executions\<close>

lemma txn_run_snoc:
  "txn_run ovf (xs @ [x]) c =
   (case txn_run ovf xs c of (tr, c1) \<Rightarrow>
      (case txn_exec ovf x c1 of (r, c2) \<Rightarrow> (tr @ [(x, r)], c2)))"
  by (induction xs arbitrary: c) (auto split: prod.splits)

lemma txn_run_calls: "map fst (fst (txn_run ovf xs c)) = xs"
  by (induction xs arbitrary: c) (simp_all add: case_prod_beta)

text \<open>An invariant of the single calls holds after every execution from a new coordinator.\<close>

lemma txn_run_inv:
  assumes "P tc_new" and "\<And>x c. P c \<Longrightarrow> P (snd (txn_exec ovf x c))"
  shows "P (snd (txn_run ovf xs tc_new))"
proof (induction xs rule: rev_induct)
  case (snoc x xs)
  with assms(2) [of "snd (txn_run ovf xs tc_new)" x] show ?case
    by (simp add: txn_run_snoc case_prod_beta)
qed (simp add: assms(1))

lemmas txn_call_defs = begin_transaction_def add_write_def prepare_transaction_def
  commit_transaction_def abort_transaction_def next_sequence_def cleanup_old_transactions_def
  put_txn_def tx_add_write_def tx_new_def Let_def

definition tc_wf :: "transaction_coordinator \<Rightarrow> bool" where
  "tc_wf c \<longleftrightarrow> hm_wf (tc_transactions c)"

lemma txn_exec_wf: "tc_wf c \<Longrightarrow> tc_wf (snd (txn_exec ovf x c))"
  by (cases x)
    (auto simp: tc_wf_def txn_call_defs hashmap_simps filter_hm_wf split: option.splits outcome.splits prod.splits)

lemma txn_run_wf: "tc_wf (snd (txn_run ovf xs tc_new))"
  by (rule txn_run_inv) (simp_all add: tc_wf_def tc_new_def txn_exec_wf [unfolded tc_wf_def])

text \<open>What one call does to the transaction \<open>i\<close>.\<close>

definition txn_of :: "string \<Rightarrow> transaction_coordinator \<Rightarrow> transaction option" where
  "txn_of i c = hm_get (tc_transactions c) i"

lemma txn_of_exec:
  assumes "tc_wf c"
  shows "txn_of i (snd (txn_exec ovf x c)) =
    (case x of
       Begin uuid now now' p \<Rightarrow>
         if uuid = i \<and> fst (begin_transaction uuid now now' p c) \<noteq> Inl ActiveTransaction
         then Some (tx_new uuid now p (tc_default_timeout c)) else txn_of i c
     | AddWrite now j w \<Rightarrow>
         if j = i then map_option (\<lambda>tx. if is_timed_out now tx then tx\<lparr>tx_state := TimedOut\<rparr>
             else snd (tx_add_write w tx)) (txn_of i c) else txn_of i c
     | Prepare now j \<Rightarrow>
         if j = i then map_option (\<lambda>tx. if is_timed_out now tx then tx\<lparr>tx_state := TimedOut\<rparr>
             else if tx_state tx = Preparing then tx\<lparr>tx_state := Prepared\<rparr> else tx) (txn_of i c)
         else txn_of i c
     | Commit j \<Rightarrow>
         if j = i then map_option (\<lambda>tx. if tx_state tx = Prepared then tx\<lparr>tx_state := Committed\<rparr> else tx) (txn_of i c)
         else txn_of i c
     | Abort j \<Rightarrow>
         if j = i then map_option (\<lambda>tx. if tx_state tx = Committed then tx
             else tx\<lparr>tx_state := Aborted, tx_writes := []\<rparr>) (txn_of i c)
         else txn_of i c
     | NextSequence now p \<Rightarrow> txn_of i c
     | Cleanup clock \<Rightarrow>
         (case txn_of i c of None \<Rightarrow> None
          | Some tx \<Rightarrow> if active tx \<or> \<not> is_timed_out (clock i) tx then Some tx else None))"
proof (cases x)
  case (Cleanup clock)
  then show ?thesis
    using assms
    by (auto simp: txn_of_def tc_wf_def cleanup_old_transactions_def map_of_filter_key active_def split: option.split)
qed (auto simp: txn_of_def txn_call_defs hashmap_simps split: option.splits outcome.splits prod.splits if_splits)

section \<open>What an execution accepted and committed\<close>

text \<open>The writes accepted for \<open>i\<close>, and the replies of its successful commits, in a trace.\<close>

definition accepted_writes :: "string \<Rightarrow> (txn_call \<times> txn_reply) list \<Rightarrow> transactional_write list" where
  "accepted_writes i tr = concat (map (\<lambda>(x, r).
     case x of AddWrite _ j w \<Rightarrow> if j = i \<and> r = Added (Inr ()) then [w] else [] | _ \<Rightarrow> []) tr)"

definition commits :: "string \<Rightarrow> (txn_call \<times> txn_reply) list \<Rightarrow> transactional_write list list" where
  "commits i tr = concat (map (\<lambda>(x, r).
     case r of CommitReply (Inr ws) \<Rightarrow> if x = Commit i then [ws] else [] | _ \<Rightarrow> []) tr)"

definition begun :: "txn_call list \<Rightarrow> string list" where
  "begun xs = concat (map (\<lambda>x. case x of Begin uuid _ _ _ \<Rightarrow> [uuid] | _ \<Rightarrow> []) xs)"

definition commit_inv :: "string \<Rightarrow> (txn_call \<times> txn_reply) list \<times> transaction_coordinator \<Rightarrow> bool" where
  "commit_inv i s \<longleftrightarrow> (case s of (tr, c) \<Rightarrow>
     tc_wf c \<and> (commits i tr = [] \<or> commits i tr = [accepted_writes i tr]) \<and>
     (i \<notin> set (begun (map fst tr)) \<longrightarrow> txn_of i c = None \<and> accepted_writes i tr = [] \<and> commits i tr = []) \<and>
     (\<forall>tx. txn_of i c = Some tx \<and> active tx \<longrightarrow> commits i tr = [] \<and> tx_writes tx = accepted_writes i tr))"

lemma commits_snoc [simp]:
  "commits i (tr @ [(x, r)]) = commits i tr @
     (case r of CommitReply (Inr ws) \<Rightarrow> if x = Commit i then [ws] else [] | _ \<Rightarrow> [])"
  by (simp add: commits_def)

lemma accepted_writes_snoc [simp]:
  "accepted_writes i (tr @ [(x, r)]) = accepted_writes i tr @
     (case x of AddWrite _ j w \<Rightarrow> if j = i \<and> r = Added (Inr ()) then [w] else [] | _ \<Rightarrow> [])"
  by (simp add: accepted_writes_def)

lemma begun_snoc [simp]:
  "begun (xs @ [x]) = begun xs @ (case x of Begin uuid _ _ _ \<Rightarrow> [uuid] | _ \<Rightarrow> [])"
  by (simp add: begun_def)

lemma commit_inv_step:
  assumes inv: "commit_inv i (tr, c)" and ex: "txn_exec ovf x c = (r, c')"
    and fresh: "distinct (begun (map fst tr @ [x]))"
  shows "commit_inv i (tr @ [(x, r)], c')"
proof -
  have wf: "tc_wf c" and wf': "tc_wf c'"
    using inv txn_exec_wf [of c ovf x] ex by (simp_all add: commit_inv_def)
  have c': "txn_of i c' = txn_of i (snd (txn_exec ovf x c))" by (simp add: ex)
  note st = c' [unfolded txn_of_exec [OF wf]]
  show ?thesis
  proof (cases x)
    case (Begin uuid now now' p)
    then have "r = Began (fst (begin_transaction uuid now now' p c))" using ex by (auto split: prod.splits)
    with Begin show ?thesis using inv fresh wf' st
      by (auto simp: commit_inv_def tx_new_def active_def split: if_splits)
  next
    case (AddWrite now j w)
    then have "r = Added (fst (add_write now j w c))" using ex by (auto split: prod.splits)
    with AddWrite show ?thesis
    proof (cases "j = i")
      case True
      then show ?thesis
      proof (cases "txn_of i c")
        case (Some tx)
        with True AddWrite \<open>r = _\<close> inv wf' st show ?thesis
          by (cases "is_timed_out now tx"; cases "tx_state tx = Preparing")
            (auto simp: commit_inv_def active_def add_write_def tx_add_write_def txn_of_def)
      qed (use True AddWrite \<open>r = _\<close> inv wf' st in
          \<open>auto simp: commit_inv_def add_write_def txn_of_def\<close>)
    qed (use inv wf' st in \<open>auto simp: commit_inv_def\<close>)
  next
    case (Prepare now j)
    then have "r = PrepareReply (fst (prepare_transaction now j c))" using ex by (auto split: prod.splits)
    with Prepare show ?thesis using inv wf' st
      by (auto simp: commit_inv_def active_def split: if_splits)
  next
    case (Commit j)
    then have "r = CommitReply (fst (commit_transaction j c))" using ex by (auto split: prod.splits)
    with Commit show ?thesis using inv wf' st
      by (cases "txn_of j c")
        (auto simp: commit_inv_def active_def commit_transaction_def txn_of_def Let_def split: if_splits)
  next
    case (Abort j)
    then have "r = AbortReply (fst (abort_transaction j c))" using ex by (auto split: prod.splits)
    with Abort show ?thesis using inv wf' st
      by (auto simp: commit_inv_def active_def split: if_splits)
  next
    case (NextSequence now p)
    then have "r = SequenceReply (fst (next_sequence ovf now p c))" using ex by (auto split: prod.splits)
    with NextSequence show ?thesis using inv wf' st by (auto simp: commit_inv_def)
  next
    case (Cleanup clock)
    then have "r = Cleaned" using ex by simp
    with Cleanup show ?thesis using inv wf' st
      by (auto simp: commit_inv_def split: if_splits option.splits)
  qed
qed

lemma commit_inv_run: "distinct (begun xs) \<Longrightarrow> commit_inv i (txn_run ovf xs tc_new)"
proof (induction xs rule: rev_induct)
  case Nil
  then show ?case
    by (simp add: commit_inv_def tc_wf_def tc_new_def commits_def accepted_writes_def txn_of_def)
next
  case (snoc x xs)
  obtain tr c where run: "txn_run ovf xs tc_new = (tr, c)" by fastforce
  obtain r c' where ex: "txn_exec ovf x c = (r, c')" by fastforce
  have calls: "map fst tr = xs" using txn_run_calls [of ovf xs tc_new] run by simp
  have "distinct (begun xs)" using snoc.prems by simp
  then have "commit_inv i (tr, c)" using snoc.IH run by simp
  then have "commit_inv i (tr @ [(x, r)], c')"
    using commit_inv_step [OF _ ex] snoc.prems calls by simp
  then show ?case by (simp add: txn_run_snoc run ex)
qed

text \<open>At most one active transaction per producer.\<close>

definition one_active :: "transaction_coordinator \<Rightarrow> bool" where
  "one_active c \<longleftrightarrow> tc_wf c \<and>
     (\<forall>i j tx ty. txn_of i c = Some tx \<and> txn_of j c = Some ty \<and> active tx \<and> active ty
        \<and> tx_producer_id tx = tx_producer_id ty \<longrightarrow> i = j)"

lemma begin_checks:
  assumes "tc_wf c" and "fst (begin_transaction uuid now now' p c) \<noteq> Inl ActiveTransaction"
    and "txn_of i c = Some tx" and "active tx"
  shows "tx_producer_id tx \<noteq> p"
proof -
  have "(i, tx) \<in> set (tc_transactions c)" using assms(3) unfolding txn_of_def by (rule map_of_SomeD)
  with assms(2,4) show ?thesis by (auto simp: begin_transaction_def list_ex_iff split: if_splits)
qed

lemma active_after:
  assumes "tc_wf c" and "txn_of i (snd (txn_exec ovf x c)) = Some tx" and "active tx"
  shows "(\<exists>tx0. txn_of i c = Some tx0 \<and> active tx0 \<and> tx_producer_id tx0 = tx_producer_id tx)
     \<or> (\<exists>now now' p. x = Begin i now now' p \<and> tx_producer_id tx = p
          \<and> fst (begin_transaction i now now' p c) \<noteq> Inl ActiveTransaction)"
  using assms(2,3) unfolding txn_of_exec [OF assms(1)]
  by (cases x) (auto simp: active_def tx_add_write_def tx_new_def split: if_splits option.splits)

lemma one_active_step: "one_active c \<Longrightarrow> one_active (snd (txn_exec ovf x c))"
proof -
  assume one: "one_active c"
  then have wf: "tc_wf c" by (simp add: one_active_def)
  show ?thesis
    unfolding one_active_def
  proof (intro conjI allI impI)
    show "tc_wf (snd (txn_exec ovf x c))" using wf by (rule txn_exec_wf)
    fix i j tx ty
    assume a: "txn_of i (snd (txn_exec ovf x c)) = Some tx \<and> txn_of j (snd (txn_exec ovf x c)) = Some ty \<and>
       active tx \<and> active ty \<and> tx_producer_id tx = tx_producer_id ty"
    then have i: "(\<exists>tx0. txn_of i c = Some tx0 \<and> active tx0 \<and> tx_producer_id tx0 = tx_producer_id tx)
       \<or> (\<exists>now now' p. x = Begin i now now' p \<and> tx_producer_id tx = p
          \<and> fst (begin_transaction i now now' p c) \<noteq> Inl ActiveTransaction)"
      using active_after [OF wf] by blast
    from a have "(\<exists>tx0. txn_of j c = Some tx0 \<and> active tx0 \<and> tx_producer_id tx0 = tx_producer_id ty)
       \<or> (\<exists>now now' p. x = Begin j now now' p \<and> tx_producer_id ty = p
          \<and> fst (begin_transaction j now now' p c) \<noteq> Inl ActiveTransaction)"
      using active_after [OF wf] by blast
    with i a one begin_checks [OF wf] show "i = j" unfolding one_active_def by (metis txn_call.inject(1))
  qed
qed

section \<open>Properties\<close>

text \<open>
  Property C6: a transaction commits at most once, and its commit hands out exactly the writes
  that were accepted for it, in order. This holds for every sequence of calls with arbitrary clock
  readings in which no two \<open>begin_transaction\<close> calls draw the same identifier.
\<close>

theorem commit_at_most_once:
  assumes "distinct (begun xs)" and "txn_run ovf xs tc_new = (tr, c)"
  shows "commits i tr = [] \<or> commits i tr = [accepted_writes i tr]"
  using commit_inv_run [OF assms(1), of i ovf] assms(2) by (simp add: commit_inv_def)

definition example_write :: transactional_write where
  "example_write = \<lparr>tw_topic = ''t'', tw_partition = 0, tw_key = ''k'', tw_value = [1], tw_offset = None\<rparr>"

definition example_calls :: "txn_call list" where
  "example_calls = [Begin ''x'' 0 0 ''p'', AddWrite 1 ''x'' example_write, Prepare 2 ''x'', Commit ''x'', Commit ''x'']"

lemma example_calls_commit: "commits ''x'' (fst (txn_run True example_calls tc_new)) \<noteq> []"
  by (simp add: example_calls_def txn_call_defs commits_def tc_new_def is_timed_out_def duration_since_def
      secs_def active_def)

theorem commit_at_most_once_witness:
  "commits ''x'' (fst (txn_run True example_calls tc_new)) =
     [accepted_writes ''x'' (fst (txn_run True example_calls tc_new))]"
  using commit_at_most_once [OF _ surjective_pairing, of example_calls "''x''" True] example_calls_commit
  by (simp add: example_calls_def begun_def)

text \<open>
  Property C24: after any sequence of calls, a producer has at most one transaction that is being
  prepared or prepared.
\<close>

theorem one_active_transaction:
  assumes "txn_run ovf xs tc_new = (tr, c)" and "txn_of i c = Some tx" and "txn_of j c = Some ty"
    and "active tx" and "active ty" and "tx_producer_id tx = tx_producer_id ty"
  shows "i = j"
proof -
  have "one_active (snd (txn_run ovf xs tc_new))"
    by (rule txn_run_inv) (simp_all add: one_active_step, simp add: one_active_def tc_wf_def tc_new_def txn_of_def)
  with assms show ?thesis by (simp add: one_active_def)
qed

theorem one_active_transaction_witness:
  "\<exists>tx. txn_of ''x'' (snd (txn_run True (take 2 example_calls) tc_new)) = Some tx \<and> active tx
     \<and> (\<forall>j ty. txn_of j (snd (txn_run True (take 2 example_calls) tc_new)) = Some ty \<and> active ty
          \<and> tx_producer_id ty = tx_producer_id tx \<longrightarrow> j = ''x'')"
proof -
  have "\<exists>tx. txn_of ''x'' (snd (txn_run True (take 2 example_calls) tc_new)) = Some tx \<and> active tx"
    by (simp add: example_calls_def txn_call_defs txn_of_def tc_new_def is_timed_out_def duration_since_def
      secs_def active_def)
  then show ?thesis using one_active_transaction [OF surjective_pairing] by metis
qed

text \<open>
  What can happen to a committed transaction. It stays committed under every call,
  except that an \<open>add_write\<close> or \<open>prepare_transaction\<close> for it after its deadline overwrites the
  state with \<open>TimedOut\<close>, from which \<open>abort_transaction\<close> succeeds, and that a clean-up after its
  deadline forgets it. (A new transaction with the same identifier is excluded.)
\<close>

lemma committed_not_final:
  assumes "tc_wf c" and "txn_of i c = Some tx" and "tx_state tx = Committed" and "i \<notin> set (begun [x])"
    and "txn_exec ovf x c = (r, c')"
  shows "get_transaction_state i c' =
     (case x of
        AddWrite now j _ \<Rightarrow> Some (if j = i \<and> is_timed_out now tx then TimedOut else Committed)
      | Prepare now j \<Rightarrow> Some (if j = i \<and> is_timed_out now tx then TimedOut else Committed)
      | Cleanup clock \<Rightarrow> if is_timed_out (clock i) tx then None else Some Committed
      | _ \<Rightarrow> Some Committed)
   \<and> (get_transaction_state i c' = Some TimedOut \<longrightarrow>
        fst (abort_transaction i c') = Inr () \<and>
        get_transaction_state i (snd (abort_transaction i c')) = Some Aborted)"
proof -
  have st: "txn_of i c' = txn_of i (snd (txn_exec ovf x c))" by (simp add: assms(5))
  have gs: "get_transaction_state i d = map_option tx_state (txn_of i d)" for d
    by (simp add: get_transaction_state_def txn_of_def)
  have "get_transaction_state i c' = Some TimedOut \<longrightarrow>
        fst (abort_transaction i c') = Inr () \<and>
        get_transaction_state i (snd (abort_transaction i c')) = Some Aborted"
    by (auto simp: abort_transaction_def get_transaction_state_def put_txn_def Let_def hashmap_simps)
  with assms(2-4) show ?thesis
    unfolding gs st txn_of_exec [OF assms(1)]
    by (cases x) (auto simp: active_def tx_add_write_def begun_def)
qed

definition committed_example :: transaction_coordinator where
  "committed_example = \<lparr>tc_transactions = [(''x'', (tx_new ''x'' 0 ''p'' 10)\<lparr>tx_state := Committed\<rparr>)],
     tc_producers = [], tc_default_timeout = 10\<rparr>"

lemma committed_not_final_example:
  "get_transaction_state ''x'' (snd (txn_exec True (Prepare 11 ''x'') committed_example)) = Some TimedOut"
  using committed_not_final [OF _ _ _ _ surjective_pairing, of committed_example "''x''" _ "Prepare 11 ''x''" True]
  by (simp add: committed_example_def tc_wf_def txn_of_def tx_new_def begun_def is_timed_out_def duration_since_def)

text \<open>
  Sequence numbers are issued in order, but the check rejects an issued number.
  \<open>next_sequence\<close> returns the number that \<open>validate_sequence\<close> accepted before the call, and after
  the call \<open>validate_sequence\<close> never accepts it.
\<close>

lemma issued_sequence_rejected:
  assumes "next_sequence ovf now p c = (Ret (Inr n), c')"
  shows "validate_sequence ovf p n c = Ret (Inr True) \<and> validate_sequence ovf p n c' \<noteq> Ret (Inr True)"
proof -
  obtain s where s: "hm_get (tc_producers c) p = Some s" "arith_s 64 ovf (tp_sequence_number s + 1) = Ret n"
    and c': "hm_get (tc_producers c') p = Some (s\<lparr>tp_sequence_number := n, tp_last_update := now\<rparr>)"
    using assms by (auto simp: next_sequence_def ps_next_sequence_def hashmap_simps
        split: option.splits outcome.splits)
  have "in_s 64 n" using arith_s_range [OF _ s(2)] by simp
  then have "n = 2 ^ 63 - 1" if "\<not> in_s 64 (n + 1)" using that by (auto simp: in_s_def)
  then have "arith_s 64 ovf (n + 1) \<noteq> Ret n"
    by (cases "in_s 64 (n + 1)") (simp_all add: arith_s_def wrap_s_def)
  then show ?thesis using s c' by (auto simp: validate_sequence_def split: outcome.splits)
qed

lemma issued_sequence_rejected_example:
  "\<exists>n c'. next_sequence True 5 ''p'' (snd (begin_transaction ''x'' 0 0 ''p'' tc_new)) = (Ret (Inr n), c')
     \<and> validate_sequence True ''p'' n c' \<noteq> Ret (Inr True)"
proof -
  let ?c = "snd (begin_transaction ''x'' 0 0 ''p'' tc_new)"
  have "\<exists>c'. next_sequence True 5 ''p'' ?c = (Ret (Inr 1), c')"
    by (simp add: begin_transaction_def tc_new_def tx_new_def ps_new_def next_sequence_def ps_next_sequence_def
        Let_def in_s_def)
  then show ?thesis using issued_sequence_rejected by blast
qed

end
