(* ===== verification/Coordinator.thy ===== *)
theory Coordinator
  imports Rafka_Prelude
begin

text \<open>
  The consumer-group coordinator, \<^verbatim>\<open>crates/broker/src/coordinator.rs\<close>: group membership, the
  rebalance protocol and the two partition assignment strategies. Each handler holds the lock of
  its group for the whole body and is one atomic step. The identifier drawn by \<open>Uuid::new_v4\<close>,
  the clock reading and the iteration order of a hash map are arguments.
\<close>

section \<open>State\<close>

record member_metadata =
  mm_member_id :: string
  mm_client_id :: string
  mm_client_host :: string
  mm_protocol_type :: string
  mm_topics :: "string list"
  mm_last_heartbeat :: systime
  mm_assignment :: "byte list"

datatype group_state = GroupEmpty | PreparingRebalance | CompletingRebalance | Stable | Dead

record group_metadata =
  gm_group_id :: string
  gm_state :: group_state
  gm_members :: "(string, member_metadata) hashmap"
  gm_leader_id :: "string option"
  gm_generation_id :: int
  gm_protocol :: "string option"

type_synonym group_coordinator = "(string, group_metadata) hashmap"

datatype group_error =
  InvalidGenerationId | RebalanceInProgress | MemberNotFound | GroupNotFound

section \<open>Handlers\<close>

definition gc_new :: group_coordinator where
  "gc_new = []"

definition new_group :: "string \<Rightarrow> group_metadata" where
  "new_group group_id =
     \<lparr>gm_group_id = group_id, gm_state = GroupEmpty, gm_members = [], gm_leader_id = None,
      gm_generation_id = 0, gm_protocol = None\<rparr>"

definition new_member ::
  "string \<Rightarrow> string \<Rightarrow> string \<Rightarrow> string list \<Rightarrow> systime \<Rightarrow> member_metadata" where
  "new_member member_id client_id protocol_type topics now =
     \<lparr>mm_member_id = member_id, mm_client_id = client_id, mm_client_host = ''127.0.0.1'',
      mm_protocol_type = protocol_type, mm_topics = topics, mm_last_heartbeat = now, mm_assignment = []\<rparr>"

text \<open>The body of \<open>handle_join_group\<close> on the group; the reply and the group it leaves behind.\<close>

definition join_group ::
  "bool \<Rightarrow> string \<Rightarrow> systime \<Rightarrow> string \<Rightarrow> string \<Rightarrow> string \<Rightarrow> string list \<Rightarrow> group_metadata \<Rightarrow>
   (string \<times> string \<times> int \<times> string) outcome \<times> group_metadata" where
  "join_group ovf uuid now member_id client_id protocol_type topics g =
     (let new_member_id = (if member_id = [] then client_id @ ''-'' @ uuid else member_id);
          g1 = g\<lparr>gm_members := hm_insert new_member_id
                   (new_member new_member_id client_id protocol_type topics now) (gm_members g)\<rparr>;
          g2 = (if gm_leader_id g1 = None then g1\<lparr>gm_leader_id := Some new_member_id\<rparr> else g1);
          reply = (\<lambda>g'. case gm_leader_id g' of
                     Some leader \<Rightarrow> Ret (new_member_id, leader, gm_generation_id g', protocol_type)
                   | None \<Rightarrow> Panic)
      in if gm_state g2 = Stable \<or> gm_state g2 = GroupEmpty then
           (let g3 = g2\<lparr>gm_state := PreparingRebalance\<rparr> in
            case arith_s 32 ovf (gm_generation_id g3 + 1) of
              Ret n \<Rightarrow> (let g4 = g3\<lparr>gm_generation_id := n\<rparr> in (reply g4, g4))
            | Panic \<Rightarrow> (Panic, g3)
            | Block \<Rightarrow> (Block, g3))
         else (reply g2, g2))"

definition handle_join_group ::
  "bool \<Rightarrow> string \<Rightarrow> systime \<Rightarrow> string \<Rightarrow> string \<Rightarrow> string \<Rightarrow> string \<Rightarrow> string list \<Rightarrow> group_coordinator \<Rightarrow>
   (string \<times> string \<times> int \<times> string) outcome \<times> group_coordinator" where
  "handle_join_group ovf uuid now group_id member_id client_id protocol_type topics groups =
     (let g = (case hm_get groups group_id of Some g \<Rightarrow> g | None \<Rightarrow> new_group group_id)
      in case join_group ovf uuid now member_id client_id protocol_type topics g of
           (r, g') \<Rightarrow> (r, hm_insert group_id g' groups))"

definition assign_member :: "string \<times> byte list \<Rightarrow> (string, member_metadata) hashmap \<Rightarrow>
    (string, member_metadata) hashmap" where
  "assign_member x members =
     AList.map_entry (fst x) (\<lambda>m. m\<lparr>mm_assignment := snd x\<rparr>) members"

definition sync_group ::
  "((string \<times> byte list) list \<Rightarrow> (string \<times> byte list) list) \<Rightarrow> string \<Rightarrow> int \<Rightarrow>
   (string, byte list) hashmap \<Rightarrow> group_metadata \<Rightarrow> (group_error + byte list) \<times> group_metadata" where
  "sync_group \<pi> member_id generation_id group_assignment g =
     (if gm_generation_id g \<noteq> generation_id then (Inl InvalidGenerationId, g)
      else
        let g' = (if gm_state g = PreparingRebalance \<and> gm_leader_id g = Some member_id
                  then g\<lparr>gm_members := fold assign_member (\<pi> group_assignment) (gm_members g),
                         gm_state := Stable\<rparr>
                  else g)
        in (case hm_get (gm_members g') member_id of
              Some m \<Rightarrow> Inr (mm_assignment m)
            | None \<Rightarrow> Inl MemberNotFound, g'))"

definition handle_sync_group ::
  "((string \<times> byte list) list \<Rightarrow> (string \<times> byte list) list) \<Rightarrow> string \<Rightarrow> string \<Rightarrow> int \<Rightarrow>
   (string, byte list) hashmap \<Rightarrow> group_coordinator \<Rightarrow> (group_error + byte list) \<times> group_coordinator" where
  "handle_sync_group \<pi> group_id member_id generation_id group_assignment groups =
     (case hm_get groups group_id of
        Some g \<Rightarrow>
          (case sync_group \<pi> member_id generation_id group_assignment g of
             (r, g') \<Rightarrow> (r, hm_insert group_id g' groups))
      | None \<Rightarrow> (Inl GroupNotFound, groups))"

definition handle_heartbeat ::
  "systime \<Rightarrow> string \<Rightarrow> string \<Rightarrow> int \<Rightarrow> group_coordinator \<Rightarrow> (group_error + unit) \<times> group_coordinator" where
  "handle_heartbeat now group_id member_id generation_id groups =
     (case hm_get groups group_id of
        Some g \<Rightarrow>
          (if gm_generation_id g \<noteq> generation_id then (Inl RebalanceInProgress, groups)
           else case hm_get (gm_members g) member_id of
             Some m \<Rightarrow>
               (Inr (), hm_insert group_id
                  (g\<lparr>gm_members := hm_insert member_id (m\<lparr>mm_last_heartbeat := now\<rparr>) (gm_members g)\<rparr>) groups)
           | None \<Rightarrow> (Inl MemberNotFound, groups))
      | None \<Rightarrow> (Inl GroupNotFound, groups))"

definition get_group_members ::
  "(string list \<Rightarrow> string list) \<Rightarrow> string \<Rightarrow> group_coordinator \<Rightarrow> group_error + string list" where
  "get_group_members \<pi> group_id groups =
     (case hm_get groups group_id of
        Some g \<Rightarrow> Inr (\<pi> (map fst (gm_members g)))
      | None \<Rightarrow> Inl GroupNotFound)"

section \<open>Assignment strategies\<close>

text \<open>The inner loop of the range strategy: \<open>n\<close> pushes of the running partition number.\<close>

fun push_partitions :: "bool \<Rightarrow> nat \<Rightarrow> int \<Rightarrow> int list \<Rightarrow> (int list \<times> int) outcome" where
  "push_partitions ovf 0 idx acc = Ret (acc, idx)"
| "push_partitions ovf (Suc n) idx acc =
     (case arith_s 32 ovf (idx + 1) of
        Ret idx' \<Rightarrow> push_partitions ovf n idx' (acc @ [idx])
      | Panic \<Rightarrow> Panic
      | Block \<Rightarrow> Block)"

fun range_loop :: "bool \<Rightarrow> nat \<Rightarrow> nat \<Rightarrow> nat \<Rightarrow> string list \<Rightarrow> int \<Rightarrow> (string, int list) hashmap \<Rightarrow>
    (string, int list) hashmap outcome" where
  "range_loop ovf per extra i [] idx assignments = Ret assignments"
| "range_loop ovf per extra i (m # ms) idx assignments =
     (case push_partitions ovf (if i < extra then per + 1 else per) idx [] of
        Ret (ps, idx') \<Rightarrow> range_loop ovf per extra (Suc i) ms idx' (hm_insert m ps assignments)
      | Panic \<Rightarrow> Panic
      | Block \<Rightarrow> Block)"

definition assign_partitions_range ::
  "bool \<Rightarrow> string list \<Rightarrow> int \<Rightarrow> (string, int list) hashmap outcome" where
  "assign_partitions_range ovf member_ids num_partitions =
     (if member_ids = [] \<or> num_partitions = 0 then Ret []
      else range_loop ovf (wrap_u 64 num_partitions div length member_ids)
             (wrap_u 64 num_partitions mod length member_ids) 0 member_ids 0 [])"

fun roundrobin_loop :: "string list \<Rightarrow> int list \<Rightarrow> (string, int list) hashmap \<Rightarrow>
    (string, int list) hashmap outcome" where
  "roundrobin_loop member_ids [] assignments = Ret assignments"
| "roundrobin_loop member_ids (p # ps) assignments =
     (let member_id = member_ids ! (wrap_u 64 p mod length member_ids) in
      case hm_get assignments member_id of
        Some qs \<Rightarrow> roundrobin_loop member_ids ps (hm_insert member_id (qs @ [p]) assignments)
      | None \<Rightarrow> Panic)"

definition assign_partitions_roundrobin ::
  "bool \<Rightarrow> string list \<Rightarrow> int \<Rightarrow> (string, int list) hashmap outcome" where
  "assign_partitions_roundrobin ovf member_ids num_partitions =
     (if member_ids = [] \<or> num_partitions = 0 then Ret []
      else roundrobin_loop member_ids (map int [0..<nat num_partitions])
             (fold (\<lambda>m. hm_insert m []) member_ids []))"

section \<open>Interface: a fair assignment of partitions\<close>

text \<open>
  What a group relies on: every member is present, every partition occurs exactly once over all
  members, and the loads are even up to one partition.
\<close>

definition fair_assignment :: "string list \<Rightarrow> int \<Rightarrow> (string, int list) hashmap \<Rightarrow> bool" where
  "fair_assignment ms n asg \<longleftrightarrow> hm_wf asg \<and> set (map fst asg) = set ms \<and>
     mset (concat (map snd asg)) = mset (map int [0..<nat n]) \<and>
     (\<forall>(m, ps) \<in> set asg. length ps \<in> {nat n div length ms, nat n div length ms + 1})"

locale partition_assignor =
  fixes assign :: "bool \<Rightarrow> string list \<Rightarrow> int \<Rightarrow> (string, int list) hashmap outcome"
  assumes assign_fair:
    "distinct ms \<Longrightarrow> ms \<noteq> [] \<Longrightarrow> 0 < n \<Longrightarrow> n < 2 ^ 31 \<Longrightarrow>
     \<exists>asg. assign ovf ms n = Ret asg \<and> fair_assignment ms n asg"
begin

text \<open>Every partition has exactly one owner.\<close>

lemma one_owner:
  assumes "distinct ms" and "ms \<noteq> []" and "0 < n" and "n < 2 ^ 31" and "0 \<le> p" and "p < n"
  shows "\<exists>asg. assign ovf ms n = Ret asg \<and> (\<exists>!m. \<exists>ps. hm_get asg m = Some ps \<and> p \<in> set ps)"
proof -
  obtain asg where asg: "assign ovf ms n = Ret asg" and fair: "fair_assignment ms n asg"
    using assign_fair [OF assms(1-4)] by blast
  have wf: "hm_wf asg" and ms: "mset (concat (map snd asg)) = mset (map int [0..<nat n])"
    using fair by (auto simp: fair_assignment_def)
  have "distinct (map int [0..<nat n])" by (simp add: distinct_map)
  then have "distinct (concat (map snd asg))" using mset_eq_imp_distinct_iff [OF ms] by simp
  moreover have "p \<in> set (map int [0..<nat n])" using assms(5,6) by (auto intro: image_eqI [of _ _ "nat p"])
  then have "p \<in> set (concat (map snd asg))" using mset_eq_setD [OF ms] by (simp only:)
  ultimately have "\<exists>!m. \<exists>ps. (m, ps) \<in> set asg \<and> p \<in> set ps"
    using wf by (intro concat_unique_key)
  then show ?thesis using asg wf by auto
qed

text \<open>With at least as many partitions as members nobody is idle.\<close>

lemma nobody_idle:
  assumes "distinct ms" and "ms \<noteq> []" and "0 < n" and "n < 2 ^ 31" and "int (length ms) \<le> n" and "m \<in> set ms"
  shows "\<exists>asg ps. assign ovf ms n = Ret asg \<and> hm_get asg m = Some ps \<and> ps \<noteq> []"
proof -
  obtain asg where asg: "assign ovf ms n = Ret asg" and fair: "fair_assignment ms n asg"
    using assign_fair [OF assms(1-4)] by blast
  then obtain ps where ps: "(m, ps) \<in> set asg" using assms(6) by (fastforce simp: fair_assignment_def)
  have "0 < nat n div length ms" using assms(2,5) by (simp add: div_greater_zero_iff nat_le_eq_zle le_nat_iff)
  then have "ps \<noteq> []" using fair ps by (fastforce simp: fair_assignment_def)
  then show ?thesis using asg ps fair by (auto simp: fair_assignment_def)
qed

end

section \<open>The range strategy is fair\<close>

lemma push_partitions_upt:
  "k + n < 2 ^ 31 \<Longrightarrow> push_partitions ovf n (int k) acc = Ret (acc @ map int [k..<k + n], int (k + n))"
proof (induction n arbitrary: k acc)
  case (Suc n)
  have "in_s 32 (int k + 1)" using Suc.prems by (simp add: in_s_def)
  then have "push_partitions ovf (Suc n) (int k) acc = push_partitions ovf n (int (Suc k)) (acc @ [int k])"
    by (simp add: add.commute)
  moreover have "[k..<k + Suc n] = k # [Suc k..<Suc k + n]" by (simp add: upt_conv_Cons del: upt_Suc)
  ultimately show ?case using Suc.IH [of "Suc k" "acc @ [int k]"] Suc.prems by (simp del: upt_Suc)
qed simp

definition load :: "nat \<Rightarrow> nat \<Rightarrow> nat \<Rightarrow> nat" where
  "load per extra i = (if i < extra then per + 1 else per)"

fun range_entries :: "nat \<Rightarrow> nat \<Rightarrow> nat \<Rightarrow> nat \<Rightarrow> string list \<Rightarrow> (string, int list) hashmap" where
  "range_entries per extra i k [] = []"
| "range_entries per extra i k (m # ms) =
     (m, map int [k..<k + load per extra i]) # range_entries per extra (Suc i) (k + load per extra i) ms"

abbreviation loads :: "nat \<Rightarrow> nat \<Rightarrow> nat \<Rightarrow> nat \<Rightarrow> nat" where
  "loads per extra i l \<equiv> sum (load per extra) {i..<i + l}"

lemma loads_Suc: "loads per extra i (Suc l) = load per extra i + loads per extra (Suc i) l"
  by (simp add: sum.atLeast_Suc_lessThan)

lemma range_loop_entries:
  "distinct ms \<Longrightarrow> set ms \<inter> fst ` set asg = {} \<Longrightarrow> k + loads per extra i (length ms) < 2 ^ 31 \<Longrightarrow>
   range_loop ovf per extra i ms (int k) asg = Ret (asg @ range_entries per extra i k ms)"
proof (induction ms arbitrary: i k asg)
  case (Cons m ms)
  have "k + load per extra i < 2 ^ 31"
    and rest: "k + load per extra i + loads per extra (Suc i) (length ms) < 2 ^ 31"
    using Cons.prems(3) loads_Suc [of per extra i "length ms"] by simp_all
  then have "push_partitions ovf (if i < extra then per + 1 else per) (int k) [] =
      Ret (map int [k..<k + load per extra i], int (k + load per extra i))"
    using push_partitions_upt [of k "load per extra i" ovf "[]"] by (simp add: load_def)
  moreover have "hm_insert m ps asg = asg @ [(m, ps)]" for ps
    using Cons.prems(2) by (intro update_fresh) auto
  moreover have "range_loop ovf per extra (Suc i) ms (int (k + load per extra i)) (asg @ [(m, ps)]) =
      Ret ((asg @ [(m, ps)]) @ range_entries per extra (Suc i) (k + load per extra i) ms)" for ps
    using Cons.prems rest by (intro Cons.IH) auto
  ultimately show ?case by simp
qed simp

lemma range_entries_keys: "map fst (range_entries per extra i k ms) = ms"
  by (induction per extra i k ms rule: range_entries.induct) auto

lemma range_entries_concat:
  "concat (map snd (range_entries per extra i k ms)) = map int [k..<k + loads per extra i (length ms)]"
proof (induction per extra i k ms rule: range_entries.induct)
  case (2 per extra i k m ms)
  have "[k..<k + loads per extra i (Suc (length ms))] =
      [k..<k + load per extra i] @ [k + load per extra i..<k + load per extra i + loads per extra (Suc i) (length ms)]"
    unfolding loads_Suc add.assoc [symmetric] by (rule upt_add_eq_append) simp
  then show ?case using 2 by simp
qed simp

lemma range_entries_load: "(m, ps) \<in> set (range_entries per extra i k ms) \<Longrightarrow> length ps \<in> {per, per + 1}"
  by (induction per extra i k ms rule: range_entries.induct) (auto simp: load_def split: if_splits)

lemma loads_total: "extra \<le> l \<Longrightarrow> loads per extra 0 l = per * l + extra"
proof -
  have "loads per extra 0 l = per * l + min extra l"
    by (induction l) (auto simp: load_def min_def)
  then show "extra \<le> l \<Longrightarrow> ?thesis" by simp
qed

lemma range_fair:
  assumes "distinct ms" and "ms \<noteq> []" and "0 < n" and "n < 2 ^ 31"
  shows "\<exists>asg. assign_partitions_range ovf ms n = Ret asg \<and> fair_assignment ms n asg"
proof -
  let ?per = "nat n div length ms" and ?extra = "nat n mod length ms"
  let ?asg = "range_entries ?per ?extra 0 0 ms"
  have "?extra < length ms" using assms(2) by simp
  then have total: "loads ?per ?extra 0 (length ms) = nat n"
    using loads_total [of ?extra "length ms" ?per] by simp
  then have "range_loop ovf ?per ?extra 0 ms (int 0) [] = Ret ?asg"
    using range_loop_entries [of ms "[]" 0 ?per ?extra 0 ovf] assms by simp
  then have "assign_partitions_range ovf ms n = Ret ?asg"
    using assms by (simp add: assign_partitions_range_def wrap_u_id)
  moreover have "fair_assignment ms n ?asg"
    unfolding fair_assignment_def range_entries_concat range_entries_keys
    using assms(1) range_entries_load total by (simp, blast)
  ultimately show ?thesis by blast
qed

interpretation range_assignor: partition_assignor assign_partitions_range
  by unfold_locales (rule range_fair)

section \<open>The round-robin strategy is fair\<close>

abbreviation turns :: "nat \<Rightarrow> nat \<Rightarrow> nat \<Rightarrow> int list" where
  "turns l t j \<equiv> map int (filter (\<lambda>p. p mod l = j) [0..<t])"

definition dealt :: "string list \<Rightarrow> nat \<Rightarrow> (string, int list) hashmap" where
  "dealt ms t = map (\<lambda>j. (ms ! j, turns (length ms) t j)) [0..<length ms]"

lemma dealt_keys: "map fst (dealt ms t) = ms"
  by (simp add: dealt_def map_nth comp_def)

lemma dealt_get:
  assumes "distinct ms" and "j < length ms"
  shows "hm_get (dealt ms t) (ms ! j) = Some (turns (length ms) t j)"
proof -
  have "hm_wf (dealt ms t)" using assms(1) by (simp only: dealt_keys)
  moreover have "(ms ! j, turns (length ms) t j) \<in> set (dealt ms t)" using assms(2) by (auto simp: dealt_def)
  ultimately show ?thesis by (rule map_of_is_SomeI)
qed

lemma dealt_next:
  assumes "distinct ms" and "j = t mod length ms" and "ms \<noteq> []"
  shows "hm_insert (ms ! j) (turns (length ms) t j @ [int t]) (dealt ms t) = dealt ms (Suc t)"
proof -
  have j: "j < length ms" using assms(2,3) by simp
  have "hm_insert (fst (dealt ms t ! j)) v (dealt ms t) = (dealt ms t)[j := (fst (dealt ms t ! j), v)]" for v
  proof (rule update_nth)
    show "hm_wf (dealt ms t)" using assms(1) by (simp only: dealt_keys)
    show "j < length (dealt ms t)" using j by (simp add: dealt_def)
  qed
  then show ?thesis using j assms(2) by (auto simp: dealt_def intro!: nth_equalityI simp: nth_list_update)
qed

lemma dealt_0: "distinct ms \<Longrightarrow> fold (\<lambda>m. hm_insert m []) ms [] = dealt ms 0"
proof -
  have "fold (\<lambda>m. hm_insert m []) ms asg = asg @ map (\<lambda>m. (m, [])) ms"
    if "distinct ms" "set ms \<inter> fst ` set asg = {}" for asg :: "(string, int list) hashmap"
    using that by (induction ms arbitrary: asg) (auto simp: update_fresh)
  moreover have "dealt ms 0 = map (\<lambda>m. (m, [])) ms"
    by (intro nth_equalityI) (simp_all add: dealt_def)
  ultimately show "distinct ms \<Longrightarrow> ?thesis" by simp
qed

lemma roundrobin_dealt:
  assumes "distinct ms" and "ms \<noteq> []" and "t + n < 2 ^ 31"
  shows "roundrobin_loop ms (map int [t..<t + n]) (dealt ms t) = Ret (dealt ms (t + n))"
  using assms(3)
proof (induction n arbitrary: t)
  case (Suc n)
  have "wrap_u 64 (int t) = t" using Suc.prems by (simp add: wrap_u_id)
  moreover have "t mod length ms < length ms" using assms(2) by simp
  moreover have "[t..<t + Suc n] = t # [Suc t..<Suc t + n]" by (simp add: upt_conv_Cons del: upt_Suc)
  ultimately show ?case
    using Suc.IH [of "Suc t"] Suc.prems dealt_next [OF assms(1) refl assms(2), of t] dealt_get [OF assms(1)]
    by (simp del: upt_Suc)
qed simp

lemma turns_length: "j < l \<Longrightarrow> length (turns l t j) = t div l + (if j < t mod l then 1 else 0)"
proof (induction t)
  case (Suc t)
  then show ?case by (auto simp: div_Suc mod_Suc)
qed simp

lemma dealt_all: "ms \<noteq> [] \<Longrightarrow> mset (concat (map snd (dealt ms t))) = mset (map int [0..<t])"
proof (induction t)
  case (Suc t)
  let ?l = "length ms"
  have "(\<Sum>j\<leftarrow>[0..<l]. mset (turns l' (Suc t) j)) =
      (\<Sum>j\<leftarrow>[0..<l]. mset (turns l' t j)) + (if t mod l' < l then {#int t#} else {#})" for l l'
    by (induction l) (auto simp: less_Suc_eq)
  from this [of ?l ?l] Suc show ?case
    by (simp add: dealt_def mset_concat comp_def sum_mset_sum_list [symmetric])
qed (simp add: dealt_def)

lemma roundrobin_fair:
  assumes "distinct ms" and "ms \<noteq> []" and "0 < n" and "n < 2 ^ 31"
  shows "\<exists>asg. assign_partitions_roundrobin ovf ms n = Ret asg \<and> fair_assignment ms n asg"
proof -
  have "assign_partitions_roundrobin ovf ms n = Ret (dealt ms (nat n))"
    using assms roundrobin_dealt [of ms 0 "nat n"] by (simp add: assign_partitions_roundrobin_def dealt_0)
  moreover have "fair_assignment ms n (dealt ms (nat n))"
    unfolding fair_assignment_def dealt_keys using assms(1,2) dealt_all turns_length
    by (auto simp: dealt_def)
  ultimately show ?thesis by blast
qed

interpretation roundrobin_assignor: partition_assignor assign_partitions_roundrobin
  by unfold_locales (rule roundrobin_fair)

section \<open>The rebalance protocol as a transition system\<close>

text \<open>
  A group's members are stored under their own identifiers, the leader is a member, the group is
  empty exactly while it has no leader, and the generation fits in 32 bits. The states
  \<open>CompletingRebalance\<close> and \<open>Dead\<close> do not occur.
\<close>

definition group_ok :: "group_metadata \<Rightarrow> bool" where
  "group_ok g \<longleftrightarrow> hm_wf (gm_members g) \<and> (\<forall>(k, m) \<in> set (gm_members g). mm_member_id m = k)
     \<and> (case gm_leader_id g of
          None \<Rightarrow> gm_members g = [] \<and> gm_state g = GroupEmpty
        | Some l \<Rightarrow> hm_contains (gm_members g) l \<and> gm_state g \<in> {PreparingRebalance, Stable})
     \<and> in_s 32 (gm_generation_id g)"

definition gc_ok :: "group_coordinator \<Rightarrow> bool" where
  "gc_ok groups \<longleftrightarrow> hm_wf groups \<and> (\<forall>(k, g) \<in> set groups. group_ok g \<and> gm_group_id g = k)"

inductive gc_step :: "group_coordinator \<Rightarrow> group_coordinator \<Rightarrow> bool" where
  join: "handle_join_group ovf uuid now gid mid client proto topics s = (r, t) \<Longrightarrow> gc_step s t"
| sync: "handle_sync_group \<pi> gid mid gen asg s = (r', t) \<Longrightarrow> gc_step s t"
| heartbeat: "handle_heartbeat now gid mid gen s = (r'', t) \<Longrightarrow> gc_step s t"

lemma gc_ok_get: "gc_ok groups \<Longrightarrow> hm_get groups gid = Some g \<Longrightarrow> group_ok g \<and> gm_group_id g = gid"
  by (auto simp: gc_ok_def dest!: map_of_SomeD)

lemma gc_ok_insert:
  "gc_ok groups \<Longrightarrow> group_ok g \<Longrightarrow> gm_group_id g = gid \<Longrightarrow> gc_ok (hm_insert gid g groups)"
  unfolding gc_ok_def
  using hm_insert_all [of groups "\<lambda>k g. group_ok g \<and> gm_group_id g = k" gid g] by (simp add: hashmap_simps)

lemma group_ok_members:
  assumes "group_ok g" and "hm_wf ms" and "\<forall>(k, m) \<in> set ms. mm_member_id m = k"
    and "\<And>k. hm_contains (gm_members g) k = hm_contains ms k"
    and "st = gm_state g \<or> (st = Stable \<and> gm_leader_id g \<noteq> None)"
  shows "group_ok (g\<lparr>gm_members := ms, gm_state := st\<rparr>)"
proof -
  have "ms = []" if "gm_members g = []" using assms(4) [of "fst (hd ms)"] that by (cases ms) auto
  then show ?thesis using assms
    by (cases "gm_leader_id g") (auto simp: group_ok_def simp del: map_of_eq_Some_iff)
qed

lemma new_group_ok: "group_ok (new_group gid) \<and> gm_group_id (new_group gid) = gid"
  by (simp add: group_ok_def new_group_def in_s_def)

text \<open>
  A join always leaves the group preparing a rebalance, with the joining member added and either
  the old leader or the joining member as the leader.
\<close>

lemma join_group_shape:
  assumes "group_ok g" and "join_group ovf uuid now mid client proto topics g = (r, g')"
  defines "nid \<equiv> if mid = [] then client @ ''-'' @ uuid else mid"
  defines "ms \<equiv> hm_insert nid (new_member nid client proto topics now) (gm_members g)"
  defines "l \<equiv> case gm_leader_id g of None \<Rightarrow> nid | Some l \<Rightarrow> l"
  shows "\<exists>n. g' = g\<lparr>gm_members := ms, gm_leader_id := Some l, gm_state := PreparingRebalance,
             gm_generation_id := n\<rparr>
     \<and> (r = Ret (nid, l, n, proto) \<or> (r = Panic \<and> ovf \<and> \<not> in_s 32 (gm_generation_id g + 1)))
     \<and> (if gm_state g = PreparingRebalance then n = gm_generation_id g
        else r = Panic \<and> n = gm_generation_id g \<or> arith_s 32 ovf (gm_generation_id g + 1) = Ret n)
     \<and> hm_contains ms l"
proof (cases "gm_leader_id g")
  case None
  then have "gm_state g = GroupEmpty" using assms(1) by (simp add: group_ok_def)
  then show ?thesis using None assms(2)
    by (auto simp: join_group_def Let_def hashmap_simps nid_def ms_def l_def arith_s_def split: if_splits)
next
  case (Some l')
  then have "hm_contains (gm_members g) l'" "gm_state g = PreparingRebalance \<or> gm_state g = Stable"
    using assms(1) by (auto simp: group_ok_def)
  then have c: "hm_contains ms l" using Some by (simp add: ms_def l_def hashmap_simps)
  have l: "g\<lparr>gm_members := ms\<rparr> = g\<lparr>gm_members := ms, gm_leader_id := Some l\<rparr>" using Some by (simp add: l_def)
  show ?thesis
  proof (cases "gm_state g = PreparingRebalance")
    case True
    then have "r = Ret (nid, l, gm_generation_id g, proto)" "g' = g\<lparr>gm_members := ms\<rparr>"
      using Some assms(2) by (simp_all add: join_group_def Let_def nid_def ms_def l_def)
    with True l c show ?thesis by (intro exI [of _ "gm_generation_id g"]) simp
  next
    case False
    with \<open>gm_state g = PreparingRebalance \<or> gm_state g = Stable\<close> c Some assms(2) show ?thesis
      by (cases "arith_s 32 ovf (gm_generation_id g + 1)")
        (auto simp: join_group_def Let_def nid_def [symmetric] ms_def [symmetric] l_def arith_s_def
          split: if_splits)
  qed
qed

lemma join_group_ok:
  assumes "group_ok g" and "join_group ovf uuid now mid client proto topics g = (r, g')"
  shows "group_ok g' \<and> gm_group_id g' = gm_group_id g"
proof -
  define nid where "nid = (if mid = [] then client @ ''-'' @ uuid else mid)"
  let ?ms = "hm_insert nid (new_member nid client proto topics now) (gm_members g)"
  have ms: "\<forall>(k, m) \<in> set ?ms. mm_member_id m = k" "hm_wf ?ms"
    using hm_insert_all [of "gm_members g" "\<lambda>k m. mm_member_id m = k" nid "new_member nid client proto topics now"] assms(1)
    by (auto simp: group_ok_def new_member_def hashmap_simps)
  obtain l n where g': "g' = g\<lparr>gm_members := ?ms, gm_leader_id := Some l, gm_state := PreparingRebalance,
      gm_generation_id := n\<rparr>" "hm_contains ?ms l"
    and "n = gm_generation_id g \<or> arith_s 32 ovf (gm_generation_id g + 1) = Ret n"
    using join_group_shape [OF assms, folded nid_def] by metis
  then have "in_s 32 n" using assms(1) arith_s_range [of 32] by (auto simp: group_ok_def)
  with ms g' show ?thesis by (simp add: group_ok_def del: map_of_eq_Some_iff)
qed

lemma assign_members_get:
  "hm_get (fold assign_member xs ms) k =
     map_option (fold (\<lambda>x m. if fst x = k then m\<lparr>mm_assignment := snd x\<rparr> else m) xs) (hm_get ms k)"
  by (induction xs arbitrary: ms)
    (auto simp: assign_member_def map_of_map_entry option.map_comp comp_def option.map_id split: option.split)

lemma assign_members_wf:
  "hm_wf ms \<Longrightarrow> (\<forall>(k, m) \<in> set ms. mm_member_id m = k) \<Longrightarrow>
   hm_wf (fold assign_member xs ms) \<and> (\<forall>(k, m) \<in> set (fold assign_member xs ms). mm_member_id m = k)"
proof (induction xs arbitrary: ms)
  case (Cons x xs)
  have "\<forall>(k, m) \<in> set (assign_member x ms). mm_member_id m = k"
    unfolding assign_member_def using Cons.prems(2) by (rule map_entry_all) simp
  moreover have "hm_wf (assign_member x ms)"
    using Cons.prems(1) by (simp add: assign_member_def AList.distinct_map_entry)
  ultimately show ?case using Cons.IH by simp
qed simp

lemma sync_group_ok:
  assumes "group_ok g" and "sync_group \<pi> mid gen asg g = (r, g')"
  shows "group_ok g' \<and> gm_group_id g' = gm_group_id g"
proof -
  let ?ms = "fold assign_member (\<pi> asg) (gm_members g)"
  have ms: "hm_wf ?ms" "\<forall>(k, m) \<in> set ?ms. mm_member_id m = k"
    using assign_members_wf [of "gm_members g" "\<pi> asg"] assms(1) by (simp_all add: group_ok_def)
  have "group_ok (g\<lparr>gm_members := ?ms, gm_state := Stable\<rparr>)" if "gm_leader_id g \<noteq> None"
    using that by (intro group_ok_members [OF assms(1) ms]) (simp_all add: assign_members_get)
  then show ?thesis using assms by (auto simp: sync_group_def Let_def split: if_splits)
qed

lemma heartbeat_ok:
  assumes "group_ok g" and "hm_get (gm_members g) mid = Some m"
  shows "group_ok (g\<lparr>gm_members := hm_insert mid (m\<lparr>mm_last_heartbeat := now\<rparr>) (gm_members g)\<rparr>)"
proof -
  have "mm_member_id m = mid" using assms by (auto simp: group_ok_def dest: map_of_SomeD)
  then have keys: "\<forall>(k, m) \<in> set (hm_insert mid (m\<lparr>mm_last_heartbeat := now\<rparr>) (gm_members g)). mm_member_id m = k"
    using assms(1) by (intro hm_insert_all) (auto simp: group_ok_def)
  have "hm_wf (hm_insert mid (m\<lparr>mm_last_heartbeat := now\<rparr>) (gm_members g))"
    using assms(1) by (simp add: group_ok_def hashmap_simps)
  from group_ok_members [OF assms(1) this keys, of "gm_state g"] assms(2)
  show ?thesis by (simp add: hashmap_simps)
qed

lemma gc_step_ok:
  assumes "gc_step s t" and "gc_ok s"
  shows "gc_ok t"
  using assms
proof (induction rule: gc_step.induct)
  case (join ovf uuid now gid mid client proto topics s r t)
  let ?g = "case hm_get s gid of Some g \<Rightarrow> g | None \<Rightarrow> new_group gid"
  have "group_ok ?g \<and> gm_group_id ?g = gid"
    using join(2) gc_ok_get [of s gid] by (cases "hm_get s gid") (simp_all add: new_group_ok)
  moreover obtain r' g' where "join_group ovf uuid now mid client proto topics ?g = (r', g')" by fastforce
  ultimately show ?case
    using join join_group_ok [of ?g] gc_ok_insert [OF join(2)] by (auto simp: handle_join_group_def Let_def)
next
  case (sync \<pi> gid mid gen asg s r t)
  show ?case
  proof (cases "hm_get s gid")
    case (Some g)
    obtain r' g' where g': "sync_group \<pi> mid gen asg g = (r', g')" by fastforce
    with sync Some sync_group_ok [OF _ g'] gc_ok_get [OF sync(2) Some] gc_ok_insert show ?thesis
      by (auto simp: handle_sync_group_def)
  qed (use sync in \<open>simp add: handle_sync_group_def\<close>)
next
  case (heartbeat now gid mid gen s r t)
  then show ?case
    using gc_ok_get [OF heartbeat(2)] heartbeat_ok gc_ok_insert [OF heartbeat(2)]
    by (auto simp: handle_heartbeat_def split: option.splits if_splits)
qed

lemma gc_new_ok: "gc_ok gc_new"
  by (simp add: gc_ok_def gc_new_def)

interpretation group_system: invariant_system "\<lambda>s. s = gc_new" gc_step gc_ok
  by unfold_locales (auto intro: gc_step_ok simp: gc_new_ok)

lemma assign_members_lookup:
  assumes "hash_order \<pi>" and "hm_wf asg"
  shows "hm_get (fold assign_member (\<pi> asg) ms) k = map_option
     (\<lambda>m. case hm_get asg k of Some bs \<Rightarrow> m\<lparr>mm_assignment := bs\<rparr> | None \<Rightarrow> m) (hm_get ms k)"
proof -
  have fold_none: "fold (\<lambda>x m. if fst x = k then m\<lparr>mm_assignment := snd x\<rparr> else m) xs m = m"
    if "k \<notin> fst ` set xs" for xs and m :: member_metadata using that by (induction xs) auto
  have fold_some: "fold (\<lambda>x m. if fst x = k then m\<lparr>mm_assignment := snd x\<rparr> else m) xs m = m\<lparr>mm_assignment := bs\<rparr>"
    if "distinct (map fst xs)" "(k, bs) \<in> set xs" for xs bs and m :: member_metadata
    using that
  proof (induction xs arbitrary: m)
    case (Cons x xs)
    then show ?case by (cases "x = (k, bs)") (force simp: fold_none image_iff)+
  qed simp
  have "mset (\<pi> asg) = mset asg" using assms(1) by (simp add: hash_order_def)
  then have d: "distinct (map fst (\<pi> asg))" and s: "set (\<pi> asg) = set asg"
    using assms(2) by (metis mset_map mset_eq_imp_distinct_iff, metis mset_eq_setD)
  show ?thesis
  proof (cases "hm_get asg k")
    case None
    then have "k \<notin> fst ` set (\<pi> asg)" by (simp add: s map_of_eq_None_iff)
    then show ?thesis using None
      by (simp add: assign_members_get fold_none option.map_ident cong: map_option_cong)
  next
    case (Some bs)
    then have "(k, bs) \<in> set (\<pi> asg)" by (simp add: s map_of_SomeD)
    then show ?thesis using Some d by (simp add: assign_members_get fold_some cong: map_option_cong)
  qed
qed

section \<open>Properties\<close>

text \<open>
  Property C29: the range strategy is fair. For distinct members and at least one partition the
  call returns in both build profiles, gives every member an entry, assigns every partition
  exactly once, and the loads differ by at most one.
\<close>

theorem range_assignment_fair:
  assumes "distinct member_ids" and "member_ids \<noteq> []" and "0 < num_partitions" and "num_partitions < 2 ^ 31"
  shows "\<exists>asg. assign_partitions_range ovf member_ids num_partitions = Ret asg
     \<and> fair_assignment member_ids num_partitions asg"
  by (rule range_assignor.assign_fair [OF assms])

theorem range_assignment_fair_witness:
  "\<exists>asg. assign_partitions_range True [''a'', ''b''] 3 = Ret asg \<and> fair_assignment [''a'', ''b''] 3 asg"
  using range_assignment_fair [of "[''a'', ''b'']" 3 True] by simp

text \<open>
  Under the round-robin strategy every partition has exactly one owner, and with at
  least as many partitions as members nobody is idle.
\<close>

lemma roundrobin_one_owner:
  assumes "distinct member_ids" and "member_ids \<noteq> []" and "0 < num_partitions" and "num_partitions < 2 ^ 31"
    and "0 \<le> p" and "p < num_partitions"
  shows "\<exists>asg. assign_partitions_roundrobin ovf member_ids num_partitions = Ret asg
     \<and> (\<exists>!m. \<exists>ps. hm_get asg m = Some ps \<and> p \<in> set ps)
     \<and> (int (length member_ids) \<le> num_partitions \<longrightarrow>
          (\<forall>m \<in> set member_ids. \<exists>ps. hm_get asg m = Some ps \<and> ps \<noteq> []))"
  using roundrobin_assignor.one_owner [OF assms, of ovf] roundrobin_assignor.nobody_idle [OF assms(1-4), of _ ovf]
  by fastforce

lemma roundrobin_one_owner_example:
  "\<exists>asg. assign_partitions_roundrobin True [''a'', ''b''] 3 = Ret asg
     \<and> (\<exists>!m. \<exists>ps. hm_get asg m = Some ps \<and> 2 \<in> set ps)"
  using roundrobin_one_owner [of "[''a'', ''b'']" 3 2 True] by auto

text \<open>
  Property C30: a rebalance fences the old generation. In every state the coordinator can reach, a
  join on a stable group below the generation limit returns the next generation with a leader that
  is a member of the group, and from then on heartbeats and syncs with the old generation are
  refused and change nothing.
\<close>

theorem rebalance_fences_generation:
  assumes "gc_step\<^sup>*\<^sup>* gc_new s" and "hm_get s gid = Some g" and "gm_state g = Stable"
    and "in_s 32 (gm_generation_id g + 1)"
    and "handle_join_group ovf uuid now gid mid client proto topics s = (r, t)"
  shows "\<exists>nid leader g'. r = Ret (nid, leader, gm_generation_id g + 1, proto)
     \<and> hm_get t gid = Some g' \<and> gm_state g' = PreparingRebalance
     \<and> hm_contains (gm_members g') nid \<and> hm_contains (gm_members g') leader \<and> gm_leader_id g' = Some leader
     \<and> (\<forall>now' m. handle_heartbeat now' gid m (gm_generation_id g) t = (Inl RebalanceInProgress, t))
     \<and> (\<forall>\<pi> m asg. handle_sync_group \<pi> gid m (gm_generation_id g) asg t = (Inl InvalidGenerationId, t))"
proof -
  have ok: "group_ok g" using group_system.inv_reachable [OF refl assms(1)] gc_ok_get assms(2) by blast
  obtain g' where j: "join_group ovf uuid now mid client proto topics g = (r, g')" "t = hm_insert gid g' s"
    using assms(2,5) by (auto simp: handle_join_group_def Let_def split: prod.splits)
  define nid where "nid = (if mid = [] then client @ ''-'' @ uuid else mid)"
  let ?ms = "hm_insert nid (new_member nid client proto topics now) (gm_members g)"
  obtain l where g': "g' = g\<lparr>gm_members := ?ms, gm_leader_id := Some l, gm_state := PreparingRebalance,
      gm_generation_id := gm_generation_id g + 1\<rparr>" "hm_contains ?ms l" "r = Ret (nid, l, gm_generation_id g + 1, proto)"
    using join_group_shape [OF ok j(1), folded nid_def] assms(3,4) by auto
  have "hm_get t gid = Some g'" using j by (simp add: hashmap_simps)
  then show ?thesis using g'
    by (intro exI [of _ nid] exI [of _ l] exI [of _ g'])
      (simp add: hashmap_simps handle_heartbeat_def handle_sync_group_def sync_group_def hm_insert_same)
qed

definition one_member_group :: group_coordinator where
  "one_member_group = snd (handle_sync_group (\<lambda>xs. xs) ''g'' ''m'' 1 [(''m'', [7])]
     (snd (handle_join_group True ''u'' 0 ''g'' ''m'' ''c'' ''p'' [] gc_new)))"

lemmas handler_defs = handle_join_group_def join_group_def handle_sync_group_def sync_group_def new_group_def
  new_member_def assign_member_def gc_new_def Let_def in_s_def

lemma one_member_group_eq:
  "one_member_group = [(''g'', \<lparr>gm_group_id = ''g'', gm_state = Stable,
     gm_members = [(''m'', (new_member ''m'' ''c'' ''p'' [] 0)\<lparr>mm_assignment := [7]\<rparr>)],
     gm_leader_id = Some ''m'', gm_generation_id = 1, gm_protocol = None\<rparr>)]"
  by (simp add: one_member_group_def handler_defs)

lemmas gc_joins = gc_step.join [OF surjective_pairing] and gc_syncs = gc_step.sync [OF surjective_pairing]

lemma one_member_group_reachable: "gc_step\<^sup>*\<^sup>* gc_new one_member_group"
  unfolding one_member_group_def
  by (rule rtranclp.rtrancl_into_rtrancl, rule r_into_rtranclp, rule gc_joins, rule gc_syncs)

theorem rebalance_fences_generation_witness:
  "\<exists>nid leader. fst (handle_join_group True ''u'' 0 ''g'' ''n'' ''c'' ''p'' [] one_member_group) = Ret (nid, leader, 2, ''p'')"
  using rebalance_fences_generation [OF one_member_group_reachable _ _ _ surjective_pairing,
      of "''g''" _ True "''u''" 0 "''n''" "''c''" "''p''" "[]"]
  by (simp add: one_member_group_eq in_s_def) blast

text \<open>
  The leader's sync distributes the assignment. In every reachable state in which
  the group prepares a rebalance, a sync of the leader with the current generation makes the group
  stable, and afterwards a sync of any member with that generation returns the bytes the leader
  assigned to it (its previous assignment if the leader named none), whatever assignment the member
  itself sends along and in whatever order the hash maps are visited.
\<close>

lemma leader_sync_distributes:
  assumes "gc_step\<^sup>*\<^sup>* gc_new s" and "hm_get s gid = Some g" and "gm_state g = PreparingRebalance"
    and "gm_leader_id g = Some leader" and "hash_order \<pi>" and "hm_wf asg"
    and "handle_sync_group \<pi> gid leader (gm_generation_id g) asg s = (r, t)"
    and "hm_get (gm_members g) m = Some mm"
  shows "(\<exists>g'. hm_get t gid = Some g' \<and> gm_state g' = Stable)
     \<and> (\<forall>\<pi>' asg'. fst (handle_sync_group \<pi>' gid m (gm_generation_id g) asg' t) =
          Inr (case hm_get asg m of Some bs \<Rightarrow> bs | None \<Rightarrow> mm_assignment mm))"
proof -
  let ?g = "g\<lparr>gm_members := fold assign_member (\<pi> asg) (gm_members g), gm_state := Stable\<rparr>"
  have t: "hm_get t gid = Some ?g"
    using assms(2-4,7) by (auto simp: handle_sync_group_def sync_group_def Let_def hashmap_simps)
  moreover have "hm_get (gm_members ?g) m =
      Some (case hm_get asg m of Some bs \<Rightarrow> mm\<lparr>mm_assignment := bs\<rparr> | None \<Rightarrow> mm)"
    using assms(8) by (simp add: assign_members_lookup [OF assms(5,6)])
  ultimately show ?thesis
    by (auto simp: handle_sync_group_def sync_group_def Let_def split: option.splits)
qed

definition joined_group :: group_coordinator where
  "joined_group = snd (handle_join_group True ''u'' 0 ''g'' ''m'' ''c'' ''p'' [] gc_new)"

lemma joined_group_reachable: "gc_step\<^sup>*\<^sup>* gc_new joined_group"
  unfolding joined_group_def by (rule r_into_rtranclp, rule gc_joins)

lemma leader_sync_distributes_example:
  "fst (handle_sync_group rev ''g'' ''m'' 1 [] (snd (handle_sync_group rev ''g'' ''m'' 1 [(''m'', [7])] joined_group))) = Inr [7]"
proof -
  have "hm_get joined_group ''g'' = Some \<lparr>gm_group_id = ''g'', gm_state = PreparingRebalance,
     gm_members = [(''m'', new_member ''m'' ''c'' ''p'' [] 0)], gm_leader_id = Some ''m'',
     gm_generation_id = 1, gm_protocol = None\<rparr>"
    by (simp add: joined_group_def handler_defs)
  from leader_sync_distributes [OF joined_group_reachable this _ _ hash_order_rev _ surjective_pairing, of "''m''" "[(''m'', [7])]" "''m''"]
  show ?thesis by simp
qed

end
