(* ===== verification/Replication.thy ===== *)
theory Replication
  imports Rafka_Prelude
begin

text \<open>
  In-sync replica sets and leader election, \<^verbatim>\<open>crates/broker/src/replication.rs\<close>. Every manager
  operation holds the lock of the table for its whole body and is one atomic step. \<open>\<pi>\<close> is the
  iteration order of the replica map, \<open>now\<close> a clock reading.
\<close>

section \<open>State\<close>

datatype replica_state = Leader | Follower | OutOfSync

record replica_info =
  ri_broker_id :: string
  ri_state :: replica_state
  ri_last_fetch_offset :: int
  ri_last_updated :: systime
  ri_lag :: int

record isr_set =
  is_partition_id :: int
  is_leader_id :: string
  is_replicas :: "(string, replica_info) hashmap"
  is_min_isr :: nat
  is_max_lag_ms :: nat

record replication_manager =
  rm_isr_sets :: "(int, isr_set) hashmap"
  rm_replication_factor :: nat

datatype replication_error = PartitionNotFound int | NoInSyncReplicas

type_synonym replica_order = "(string \<times> replica_info) list \<Rightarrow> (string \<times> replica_info) list"

section \<open>Operations of a replica set\<close>

definition is_new :: "systime \<Rightarrow> int \<Rightarrow> string \<Rightarrow> nat \<Rightarrow> isr_set" where
  "is_new now partition_id leader_id min_isr =
     \<lparr>is_partition_id = partition_id, is_leader_id = leader_id,
      is_replicas = [(leader_id, \<lparr>ri_broker_id = leader_id, ri_state = Leader, ri_last_fetch_offset = 0,
        ri_last_updated = now, ri_lag = 0\<rparr>)],
      is_min_isr = min_isr, is_max_lag_ms = 10000\<rparr>"

definition is_add_follower :: "systime \<Rightarrow> string \<Rightarrow> isr_set \<Rightarrow> isr_set" where
  "is_add_follower now broker_id s =
     s\<lparr>is_replicas := hm_insert broker_id
         \<lparr>ri_broker_id = broker_id, ri_state = Follower, ri_last_fetch_offset = 0,
          ri_last_updated = now, ri_lag = 0\<rparr> (is_replicas s)\<rparr>"

definition is_update_follower_offset ::
  "bool \<Rightarrow> systime \<Rightarrow> string \<Rightarrow> int \<Rightarrow> int \<Rightarrow> isr_set \<Rightarrow> unit outcome \<times> isr_set" where
  "is_update_follower_offset ovf now broker_id off leader_offset s =
     (case hm_get (is_replicas s) broker_id of
        Some r \<Rightarrow>
          (let r1 = r\<lparr>ri_last_fetch_offset := off, ri_last_updated := now\<rparr>;
               put = (\<lambda>r'. s\<lparr>is_replicas := hm_insert broker_id r' (is_replicas s)\<rparr>)
           in case arith_s 64 ovf (leader_offset - off) of
                Ret lag \<Rightarrow>
                  (Ret (), put (r1\<lparr>ri_lag := lag, ri_state := (if lag \<le> 100 then Follower else OutOfSync)\<rparr>))
              | Panic \<Rightarrow> (Panic, put r1)
              | Block \<Rightarrow> (Block, put r1))
      | None \<Rightarrow> (Ret (), s))"

definition in_sync :: "replica_info \<Rightarrow> bool" where
  "in_sync info \<longleftrightarrow> ri_state info = Leader \<or> ri_state info = Follower"

definition is_get_isr :: "replica_order \<Rightarrow> isr_set \<Rightarrow> string list" where
  "is_get_isr \<pi> s = map fst (filter (\<lambda>(_, info). in_sync info) (\<pi> (is_replicas s)))"

definition is_has_min_isr :: "replica_order \<Rightarrow> isr_set \<Rightarrow> bool" where
  "is_has_min_isr \<pi> s \<longleftrightarrow> length (is_get_isr \<pi> s) \<ge> is_min_isr s"

definition is_remove_replica :: "string \<Rightarrow> isr_set \<Rightarrow> isr_set" where
  "is_remove_replica broker_id s = s\<lparr>is_replicas := hm_remove broker_id (is_replicas s)\<rparr>"

section \<open>Operations of the manager\<close>

definition rm_new :: "nat \<Rightarrow> replication_manager" where
  "rm_new replication_factor = \<lparr>rm_isr_sets = [], rm_replication_factor = replication_factor\<rparr>"

definition init_partition :: "systime \<Rightarrow> int \<Rightarrow> string \<Rightarrow> replication_manager \<Rightarrow> replication_manager" where
  "init_partition now partition_id leader_id rm =
     rm\<lparr>rm_isr_sets := hm_insert partition_id
         (is_new now partition_id leader_id (rm_replication_factor rm div 2 + 1)) (rm_isr_sets rm)\<rparr>"

definition add_follower ::
  "systime \<Rightarrow> int \<Rightarrow> string \<Rightarrow> replication_manager \<Rightarrow> (replication_error + unit) \<times> replication_manager" where
  "add_follower now partition_id broker_id rm =
     (case hm_get (rm_isr_sets rm) partition_id of
        Some s \<Rightarrow>
          (Inr (), rm\<lparr>rm_isr_sets := hm_insert partition_id (is_add_follower now broker_id s) (rm_isr_sets rm)\<rparr>)
      | None \<Rightarrow> (Inl (PartitionNotFound partition_id), rm))"

definition update_follower_offset ::
  "bool \<Rightarrow> systime \<Rightarrow> int \<Rightarrow> string \<Rightarrow> int \<Rightarrow> int \<Rightarrow> replication_manager \<Rightarrow>
   (replication_error + unit) outcome \<times> replication_manager" where
  "update_follower_offset ovf now partition_id broker_id off leader_offset rm =
     (case hm_get (rm_isr_sets rm) partition_id of
        Some s \<Rightarrow>
          (case is_update_follower_offset ovf now broker_id off leader_offset s of (r, s') \<Rightarrow>
             (case r of Ret _ \<Rightarrow> Ret (Inr ()) | Panic \<Rightarrow> Panic | Block \<Rightarrow> Block,
              rm\<lparr>rm_isr_sets := hm_insert partition_id s' (rm_isr_sets rm)\<rparr>))
      | None \<Rightarrow> (Ret (Inl (PartitionNotFound partition_id)), rm))"

definition get_isr :: "replica_order \<Rightarrow> int \<Rightarrow> replication_manager \<Rightarrow> replication_error + string list" where
  "get_isr \<pi> partition_id rm =
     (case hm_get (rm_isr_sets rm) partition_id of
        Some s \<Rightarrow> Inr (is_get_isr \<pi> s)
      | None \<Rightarrow> Inl (PartitionNotFound partition_id))"

definition has_min_isr :: "replica_order \<Rightarrow> int \<Rightarrow> replication_manager \<Rightarrow> bool" where
  "has_min_isr \<pi> partition_id rm \<longleftrightarrow>
     (case hm_get (rm_isr_sets rm) partition_id of Some s \<Rightarrow> is_has_min_isr \<pi> s | None \<Rightarrow> False)"

definition get_leader :: "int \<Rightarrow> replication_manager \<Rightarrow> string option" where
  "get_leader partition_id rm = map_option is_leader_id (hm_get (rm_isr_sets rm) partition_id)"

text \<open>The loop of \<open>elect_leader\<close> over the replicas.\<close>

definition crown :: "string \<Rightarrow> (string, replica_info) hashmap \<Rightarrow> (string, replica_info) hashmap" where
  "crown new_leader =
     map (\<lambda>(broker_id, replica).
       (broker_id,
        if broker_id = new_leader then replica\<lparr>ri_state := Leader\<rparr>
        else if ri_state replica = Leader then replica\<lparr>ri_state := Follower\<rparr>
        else replica))"

definition elect_leader ::
  "replica_order \<Rightarrow> int \<Rightarrow> replication_manager \<Rightarrow> (replication_error + string) \<times> replication_manager" where
  "elect_leader \<pi> partition_id rm =
     (case hm_get (rm_isr_sets rm) partition_id of
        Some s \<Rightarrow>
          (case is_get_isr \<pi> s of
             [] \<Rightarrow> (Inl NoInSyncReplicas, rm)
           | new_leader # _ \<Rightarrow>
               (Inr new_leader,
                rm\<lparr>rm_isr_sets := hm_insert partition_id
                    (s\<lparr>is_replicas := crown new_leader (is_replicas s), is_leader_id := new_leader\<rparr>)
                    (rm_isr_sets rm)\<rparr>))
      | None \<Rightarrow> (Inl (PartitionNotFound partition_id), rm))"

section \<open>Laws\<close>

lemma crown_get:
  "hm_get (crown l rs) b = map_option (\<lambda>r.
     if b = l then r\<lparr>ri_state := Leader\<rparr>
     else if ri_state r = Leader then r\<lparr>ri_state := Follower\<rparr> else r) (hm_get rs b)"
  unfolding crown_def by (rule map_of_map_values)

lemma crown_keys [simp]: "map fst (crown l rs) = map fst rs"
  by (induction rs) (auto simp: crown_def)

lemma crown_leader:
  "(\<exists>i. hm_get (crown l rs) b = Some i \<and> ri_state i = Leader) \<longleftrightarrow> b = l \<and> hm_contains rs l"
  by (cases "hm_get rs b") (auto simp: crown_get)

lemma crown_in_sync:
  "(\<exists>i. hm_get (crown l rs) b = Some i \<and> in_sync i) \<longleftrightarrow> (\<exists>i. hm_get rs b = Some i \<and> (b = l \<or> in_sync i))"
  by (cases "hm_get rs b") (auto simp: crown_get in_sync_def)

lemma is_get_isr_set:
  "hash_order \<pi> \<Longrightarrow> hm_wf (is_replicas s) \<Longrightarrow>
   set (is_get_isr \<pi> s) = {b. \<exists>r. hm_get (is_replicas s) b = Some r \<and> in_sync r}"
  by (force simp: is_get_isr_def hash_order_set)

lemma is_get_isr_distinct:
  assumes "hash_order \<pi>" and "hm_wf (is_replicas s)"
  shows "distinct (is_get_isr \<pi> s)"
proof -
  have "mset (map fst (\<pi> (is_replicas s))) = mset (map fst (is_replicas s))"
    using assms(1) unfolding hash_order_def by (metis mset_map)
  then have "hm_wf (\<pi> (is_replicas s))" using assms(2) mset_eq_imp_distinct_iff by blast
  then show ?thesis unfolding is_get_isr_def by (rule filter_hm_wf)
qed

text \<open>
  Replica sets of a manager: one entry per broker, the quorum is more than half the replication
  factor, and nobody but the recorded leader is in state \<open>Leader\<close>.
\<close>

definition isr_ok :: "nat \<Rightarrow> isr_set \<Rightarrow> bool" where
  "isr_ok rf s \<longleftrightarrow> hm_wf (is_replicas s) \<and> is_min_isr s = rf div 2 + 1
     \<and> (\<forall>b r. hm_get (is_replicas s) b = Some r \<and> ri_state r = Leader \<longrightarrow> b = is_leader_id s)"

definition rm_ok :: "replication_manager \<Rightarrow> bool" where
  "rm_ok rm \<longleftrightarrow> (\<forall>p s. hm_get (rm_isr_sets rm) p = Some s \<longrightarrow> isr_ok (rm_replication_factor rm) s)"

inductive rm_step :: "replication_manager \<Rightarrow> replication_manager \<Rightarrow> bool" where
  init: "rm_step rm (init_partition now p l rm)"
| follower: "add_follower now p b rm = (r, rm') \<Longrightarrow> rm_step rm rm'"
| offset: "update_follower_offset ovf now p b off loff rm = (r', rm') \<Longrightarrow> rm_step rm rm'"
| elect: "hash_order \<pi> \<Longrightarrow> elect_leader \<pi> p rm = (r'', rm') \<Longrightarrow> rm_step rm rm'"

text \<open>A replica that is not turned into a leader may be replaced.\<close>

lemma isr_ok_put:
  assumes "isr_ok rf s" and "ri_state r = Leader \<Longrightarrow> b = is_leader_id s"
  shows "isr_ok rf (s\<lparr>is_replicas := hm_insert b r (is_replicas s)\<rparr>)"
  using assms by (simp add: isr_ok_def hashmap_simps del: map_of_eq_Some_iff)

lemma isr_ok_update:
  assumes "isr_ok rf s" and "is_update_follower_offset ovf now b off loff s = (r, s')"
  shows "isr_ok rf s'"
proof (cases "hm_get (is_replicas s) b")
  case (Some i)
  have lead: "ri_state i = Leader \<Longrightarrow> b = is_leader_id s"
    using assms(1) Some unfolding isr_ok_def by blast
  show ?thesis
    using assms Some lead
    by (cases "arith_s 64 ovf (loff - off)") (auto simp: is_update_follower_offset_def Let_def intro!: isr_ok_put split: if_splits)
qed (use assms in \<open>simp add: is_update_follower_offset_def\<close>)

lemma isr_ok_follower: "isr_ok rf s \<Longrightarrow> isr_ok rf (is_add_follower now b s)"
  unfolding is_add_follower_def by (erule isr_ok_put) simp

lemma isr_ok_remove: "isr_ok rf s \<Longrightarrow> isr_ok rf (is_remove_replica b s)"
  by (auto simp: isr_ok_def is_remove_replica_def hashmap_simps simp del: map_of_eq_Some_iff split: if_splits)

lemma isr_ok_crown:
  "isr_ok rf s \<Longrightarrow> isr_ok rf (s\<lparr>is_replicas := crown l (is_replicas s), is_leader_id := l\<rparr>)"
  using crown_leader [of l "is_replicas s"] by (auto simp: isr_ok_def simp del: map_of_eq_Some_iff)

lemma rm_ok_put:
  "rm_ok rm \<Longrightarrow> isr_ok (rm_replication_factor rm) s \<Longrightarrow> rm_ok (rm\<lparr>rm_isr_sets := hm_insert p s (rm_isr_sets rm)\<rparr>)"
  by (simp add: rm_ok_def hashmap_simps)

lemma rm_ok_get: "rm_ok rm \<Longrightarrow> hm_get (rm_isr_sets rm) p = Some s \<Longrightarrow> isr_ok (rm_replication_factor rm) s"
  by (simp add: rm_ok_def)

lemma rm_step_ok:
  assumes "rm_step rm rm'" and "rm_ok rm"
  shows "rm_ok rm' \<and> rm_replication_factor rm' = rm_replication_factor rm"
  using assms
proof (induction rule: rm_step.induct)
  case (init rm now p l)
  have "isr_ok (rm_replication_factor rm) (is_new now p l (rm_replication_factor rm div 2 + 1))"
    by (simp add: isr_ok_def is_new_def)
  with init rm_ok_put show ?case by (simp add: init_partition_def)
next
  case (follower now p b rm r rm')
  then show ?case using rm_ok_put isr_ok_follower rm_ok_get
    by (auto simp: add_follower_def split: option.splits)
next
  case (offset ovf now p b off loff rm r rm')
  show ?case
  proof (cases "hm_get (rm_isr_sets rm) p")
    case (Some s)
    obtain r' s' where u: "is_update_follower_offset ovf now b off loff s = (r', s')" by fastforce
    have "isr_ok (rm_replication_factor rm) s'" using isr_ok_update [OF _ u] offset(2) Some by (simp add: rm_ok_def)
    with offset Some u rm_ok_put show ?thesis by (auto simp: update_follower_offset_def)
  qed (use offset in \<open>simp add: update_follower_offset_def\<close>)
next
  case (elect \<pi> p rm r rm')
  then show ?case using rm_ok_put isr_ok_crown rm_ok_get
    by (auto simp: elect_leader_def split: option.splits list.splits)
qed

interpretation replication_system: invariant_system "\<lambda>rm. rm = rm_new rf" rm_step
  "\<lambda>rm. rm_ok rm \<and> rm_replication_factor rm = rf"
  by unfold_locales (auto simp: rm_step_ok, simp_all add: rm_new_def rm_ok_def)

section \<open>Properties\<close>

text \<open>
  Property C7: leader election. In every state the manager can reach, an election for a known
  partition fails exactly if no replica is in sync and then changes nothing; otherwise it returns
  an in-sync replica, which becomes the recorded leader and the only replica in state \<open>Leader\<close>,
  and the set of in-sync replicas is the same as before.
\<close>

theorem election_unique_leader:
  assumes "rm_step\<^sup>*\<^sup>* (rm_new rf) rm" and "hash_order \<pi>" and "hm_get (rm_isr_sets rm) p = Some s"
    and "elect_leader \<pi> p rm = (r, rm')"
  shows "(r = Inl NoInSyncReplicas \<and> rm' = rm \<and> is_get_isr \<pi> s = [])
     \<or> (\<exists>l s'. r = Inr l \<and> l \<in> set (is_get_isr \<pi> s) \<and> get_leader p rm' = Some l
          \<and> hm_get (rm_isr_sets rm') p = Some s'
          \<and> (\<forall>b. (\<exists>i. hm_get (is_replicas s') b = Some i \<and> ri_state i = Leader) \<longleftrightarrow> b = l)
          \<and> set (is_get_isr \<pi> s') = set (is_get_isr \<pi> s))"
proof (cases "is_get_isr \<pi> s")
  case Nil
  then show ?thesis using assms(3,4) by (auto simp: elect_leader_def)
next
  case (Cons l ls)
  let ?s = "s\<lparr>is_replicas := crown l (is_replicas s), is_leader_id := l\<rparr>"
  have "isr_ok rf s" using replication_system.inv_reachable [OF refl assms(1)] assms(3) by (auto simp: rm_ok_def)
  then have wf: "hm_wf (is_replicas s)" by (simp add: isr_ok_def)
  have r: "r = Inr l" "hm_get (rm_isr_sets rm') p = Some ?s"
    using assms(3,4) Cons by (auto simp: elect_leader_def hashmap_simps)
  have "l \<in> set (is_get_isr \<pi> s)" by (simp add: Cons)
  then obtain i where i: "hm_get (is_replicas s) l = Some i" "in_sync i"
    unfolding is_get_isr_set [OF assms(2) wf] by blast
  have "(\<exists>i. hm_get (is_replicas ?s) b = Some i \<and> ri_state i = Leader) \<longleftrightarrow> b = l" for b
    using crown_leader [of l "is_replicas s" b] i(1) by simp
  moreover have "set (is_get_isr \<pi> ?s) = set (is_get_isr \<pi> s)"
    using wf i crown_in_sync [of l "is_replicas s"]
    by (subst (1 2) is_get_isr_set [OF assms(2)]) (auto simp del: map_of_eq_Some_iff)
  ultimately show ?thesis using r Cons by (auto simp: get_leader_def)
qed

definition example_manager :: replication_manager where
  "example_manager = init_partition 0 7 ''b1'' (rm_new 3)"

lemma example_manager_reachable: "rm_step\<^sup>*\<^sup>* (rm_new 3) example_manager"
  unfolding example_manager_def by (rule r_into_rtranclp, rule rm_step.init)

theorem election_unique_leader_witness:
  "\<exists>l. fst (elect_leader rev 7 example_manager) = Inr l"
proof -
  have "hm_get (rm_isr_sets example_manager) 7 = Some (is_new 0 7 ''b1'' (Suc (Suc 0)))"
    by (simp add: example_manager_def init_partition_def rm_new_def)
  from election_unique_leader [OF example_manager_reachable hash_order_rev this surjective_pairing]
  show ?thesis by (auto simp: is_get_isr_def is_new_def in_sync_def)
qed

text \<open>
  \<open>has_min_isr\<close> is a majority check. In every reachable state, if it answers yes for
  a partition then the in-sync replicas reported by \<open>get_isr\<close> are distinct and more than half the
  replication factor, so two such sets drawn from at most that many brokers share a broker.
\<close>

lemma min_isr_majority:
  assumes "rm_step\<^sup>*\<^sup>* (rm_new rf) rm" and "hash_order \<pi>" and "has_min_isr \<pi> p rm"
  shows "\<exists>isr. get_isr \<pi> p rm = Inr isr \<and> distinct isr \<and> rf < 2 * length isr
     \<and> (\<forall>brokers other. finite brokers \<and> card brokers \<le> rf \<and> set isr \<subseteq> brokers \<and> other \<subseteq> brokers
          \<and> rf < 2 * card other \<longrightarrow> set isr \<inter> other \<noteq> {})"
proof -
  obtain s where s: "hm_get (rm_isr_sets rm) p = Some s" "is_has_min_isr \<pi> s"
    using assms(3) by (auto simp: has_min_isr_def split: option.splits)
  have ok: "isr_ok rf s" using replication_system.inv_reachable [OF refl assms(1)] s(1) by (auto simp: rm_ok_def)
  let ?isr = "is_get_isr \<pi> s"
  have d: "distinct ?isr" using ok assms(2) by (intro is_get_isr_distinct) (auto simp: isr_ok_def)
  have maj: "rf < 2 * length ?isr" using ok s(2) by (simp add: isr_ok_def is_has_min_isr_def)
  have quorum: "set ?isr \<inter> other \<noteq> {}"
    if b: "finite brokers" "card brokers \<le> rf" "set ?isr \<subseteq> brokers" "other \<subseteq> brokers" "rf < 2 * card other"
    for brokers other
  proof
    assume "set ?isr \<inter> other = {}"
    then have "card (set ?isr \<union> other) = length ?isr + card other"
      using b d by (simp add: card_Un_disjoint distinct_card finite_subset)
    moreover have "card (set ?isr \<union> other) \<le> rf" using b by (meson card_mono le_trans Un_least)
    ultimately show False using maj b(5) by simp
  qed
  have "get_isr \<pi> p rm = Inr ?isr" using s(1) by (simp add: get_isr_def)
  with d maj quorum show ?thesis by metis
qed

lemma min_isr_majority_example:
  "\<exists>isr. get_isr rev 7 (init_partition 0 7 ''b1'' (rm_new 1)) = Inr isr \<and> 1 < 2 * length isr"
proof -
  have "rm_step\<^sup>*\<^sup>* (rm_new 1) (init_partition 0 7 ''b1'' (rm_new 1))" by (rule r_into_rtranclp, rule rm_step.init)
  moreover have "has_min_isr rev 7 (init_partition 0 7 ''b1'' (rm_new 1))"
    by (simp add: has_min_isr_def is_has_min_isr_def is_get_isr_def init_partition_def rm_new_def is_new_def in_sync_def)
  ultimately have "\<exists>isr. get_isr rev 7 (init_partition 0 7 ''b1'' (rm_new 1)) = Inr isr \<and> distinct isr \<and> 1 < 2 * length isr \<and>
      (\<forall>brokers other. finite brokers \<and> card brokers \<le> 1 \<and> set isr \<subseteq> brokers \<and> other \<subseteq> brokers
        \<and> 1 < 2 * card other \<longrightarrow> set isr \<inter> other \<noteq> {})"
    by (intro min_isr_majority hash_order_rev)
  then show ?thesis by blast
qed

end
