(* ===== verification/Compaction.thy ===== *)
theory Compaction
  imports Rafka_Prelude
begin

text \<open>
  Log compaction, \<^verbatim>\<open>crates/broker/src/compaction.rs\<close>. Every manager operation holds the lock of
  the segment table for its whole body and is one atomic step. \<open>\<pi>\<close> is the order in which
  \<open>into_values\<close> visits the table of latest entries, \<open>now\<close> a clock reading. Sizes count live
  allocations and do not reach \<open>2 ^ 64\<close>.
\<close>

section \<open>State\<close>

record compacted_entry =
  ce_key :: string
  ce_value :: "byte list"
  ce_offset :: int
  ce_timestamp :: systime

record log_segment =
  ls_start_offset :: int
  ls_end_offset :: int
  ls_entries :: "compacted_entry list"
  ls_size_bytes :: nat

datatype compaction_strategy = KeepLatest | TimeWindow duration | Hybrid duration

record compaction_manager =
  lc_segments :: "(int, log_segment list) hashmap"
  lc_strategy :: compaction_strategy
  lc_min_compaction_size :: nat
  lc_max_segment_size :: nat

datatype compaction_error = CompactionPartitionNotFound int

type_synonym entry_order = "compacted_entry list \<Rightarrow> compacted_entry list"

section \<open>Segments\<close>

definition ls_new :: "int \<Rightarrow> log_segment" where
  "ls_new start_offset =
     \<lparr>ls_start_offset = start_offset, ls_end_offset = start_offset, ls_entries = [], ls_size_bytes = 0\<rparr>"

definition add_entry :: "compacted_entry \<Rightarrow> log_segment \<Rightarrow> log_segment" where
  "add_entry e s =
     s\<lparr>ls_size_bytes := ls_size_bytes s + length (ce_value e), ls_end_offset := ce_offset e,
       ls_entries := ls_entries s @ [e]\<rparr>"

section \<open>The manager\<close>

definition lc_new :: "compaction_strategy \<Rightarrow> compaction_manager" where
  "lc_new strategy =
     \<lparr>lc_segments = [], lc_strategy = strategy, lc_min_compaction_size = 1024 * 1024,
      lc_max_segment_size = 1024 * 1024 * 100\<rparr>"

definition append_segments :: "nat \<Rightarrow> compacted_entry \<Rightarrow> log_segment list \<Rightarrow> log_segment list" where
  "append_segments max_size e segs =
     (let segs1 = (if segs = [] then [ls_new (ce_offset e)] else segs);
          segs2 = (if ls_size_bytes (last segs1) \<ge> max_size then segs1 @ [ls_new (ce_offset e)] else segs1)
      in butlast segs2 @ [add_entry e (last segs2)])"

definition lc_append :: "systime \<Rightarrow> int \<Rightarrow> string \<Rightarrow> byte list \<Rightarrow> int \<Rightarrow> compaction_manager \<Rightarrow> compaction_manager" where
  "lc_append now partition_id key value off c =
     (let segs = (case hm_get (lc_segments c) partition_id of None \<Rightarrow> [] | Some segs \<Rightarrow> segs);
          e = \<lparr>ce_key = key, ce_value = value, ce_offset = off, ce_timestamp = now\<rparr>
      in c\<lparr>lc_segments := hm_insert partition_id (append_segments (lc_max_segment_size c) e segs) (lc_segments c)\<rparr>)"

text \<open>\<open>entry(key).and_modify(..).or_insert_with(..)\<close> for one entry.\<close>

definition keep_later :: "compacted_entry \<Rightarrow> (string, compacted_entry) hashmap \<Rightarrow> (string, compacted_entry) hashmap" where
  "keep_later e m =
     (case hm_get m (ce_key e) of
        Some e' \<Rightarrow> if ce_offset e > ce_offset e' then hm_insert (ce_key e) e m else m
      | None \<Rightarrow> hm_insert (ce_key e) e m)"

definition all_entries :: "log_segment list \<Rightarrow> compacted_entry list" where
  "all_entries segs = concat (map ls_entries segs)"

definition latest_entries :: "log_segment list \<Rightarrow> (string, compacted_entry) hashmap" where
  "latest_entries segs = fold keep_later (all_entries segs) []"

fun rebuild :: "nat \<Rightarrow> compacted_entry list \<Rightarrow> log_segment \<Rightarrow> log_segment list \<Rightarrow> log_segment list" where
  "rebuild max_size [] new_segment segs = segs @ [new_segment]"
| "rebuild max_size (e # es) new_segment segs =
     (if ls_size_bytes new_segment \<ge> max_size
      then rebuild max_size es (add_entry e (ls_new (ce_offset e))) (segs @ [new_segment])
      else rebuild max_size es (add_entry e new_segment) segs)"

definition compact_keep_latest :: "entry_order \<Rightarrow> nat \<Rightarrow> log_segment list \<Rightarrow> log_segment list" where
  "compact_keep_latest \<pi> max_size segs =
     (let latest = latest_entries segs in
      if latest = [] then [] else rebuild max_size (\<pi> (map snd latest)) (ls_new 0) [])"

text \<open>\<open>SystemTime::now() - window\<close> panics if the result is before the earliest representable time.\<close>

definition systime_sub :: "systime \<Rightarrow> duration \<Rightarrow> systime outcome" where
  "systime_sub now d = (if now - int d < - (2 ^ 63) * 1000000000 then Panic else Ret (now - int d))"

abbreviation value_bytes :: "compacted_entry list \<Rightarrow> nat" where
  "value_bytes es \<equiv> sum_list (map (\<lambda>e. length (ce_value e)) es)"

definition window_segment :: "systime \<Rightarrow> log_segment \<Rightarrow> log_segment" where
  "window_segment cutoff s =
     (let es = filter (\<lambda>e. ce_timestamp e \<ge> cutoff) (ls_entries s)
      in s\<lparr>ls_entries := es, ls_size_bytes := value_bytes es\<rparr>)"

definition compact_time_window :: "systime \<Rightarrow> duration \<Rightarrow> log_segment list \<Rightarrow> log_segment list outcome" where
  "compact_time_window now window segs =
     (case systime_sub now window of
        Ret cutoff \<Rightarrow> Ret (filter (\<lambda>s. ls_entries s \<noteq> []) (map (window_segment cutoff) segs))
      | Panic \<Rightarrow> Panic
      | Block \<Rightarrow> Block)"

definition compact_hybrid ::
  "entry_order \<Rightarrow> nat \<Rightarrow> systime \<Rightarrow> duration \<Rightarrow> log_segment list \<Rightarrow> log_segment list outcome" where
  "compact_hybrid \<pi> max_size now window segs =
     (case compact_time_window now window segs of
        Ret segs' \<Rightarrow> Ret (compact_keep_latest \<pi> max_size segs')
      | Panic \<Rightarrow> Panic
      | Block \<Rightarrow> Block)"

definition compact_segments ::
  "entry_order \<Rightarrow> systime \<Rightarrow> compaction_strategy \<Rightarrow> nat \<Rightarrow> log_segment list \<Rightarrow> log_segment list outcome" where
  "compact_segments \<pi> now strategy max_size segs =
     (case strategy of
        KeepLatest \<Rightarrow> Ret (compact_keep_latest \<pi> max_size segs)
      | TimeWindow window \<Rightarrow> compact_time_window now window segs
      | Hybrid window \<Rightarrow> compact_hybrid \<pi> max_size now window segs)"

definition total_size :: "log_segment list \<Rightarrow> nat" where
  "total_size segs = sum_list (map ls_size_bytes segs)"

definition compact_partition ::
  "bool \<Rightarrow> entry_order \<Rightarrow> systime \<Rightarrow> int \<Rightarrow> compaction_manager \<Rightarrow>
   (compaction_error + nat) outcome \<times> compaction_manager" where
  "compact_partition ovf \<pi> now partition_id c =
     (case hm_get (lc_segments c) partition_id of
        Some segs \<Rightarrow>
          (case compact_segments \<pi> now (lc_strategy c) (lc_max_segment_size c) segs of
             Ret segs' \<Rightarrow>
               (case arith_u 64 ovf (int (total_size segs) - int (total_size segs')) of
                  Ret n \<Rightarrow> Ret (Inr n) | Panic \<Rightarrow> Panic | Block \<Rightarrow> Block,
                c\<lparr>lc_segments := hm_insert partition_id segs' (lc_segments c)\<rparr>)
           | Panic \<Rightarrow> (Panic, c)
           | Block \<Rightarrow> (Block, c))
      | None \<Rightarrow> (Ret (Inl (CompactionPartitionNotFound partition_id)), c))"

definition get_stats :: "int \<Rightarrow> compaction_manager \<Rightarrow> (nat \<times> nat \<times> nat) option" where
  "get_stats partition_id c =
     map_option (\<lambda>segs. (length segs, sum_list (map (\<lambda>s. length (ls_entries s)) segs), total_size segs))
       (hm_get (lc_segments c) partition_id)"

definition needs_compaction :: "int \<Rightarrow> compaction_manager \<Rightarrow> bool" where
  "needs_compaction partition_id c \<longleftrightarrow>
     (case hm_get (lc_segments c) partition_id of
        Some segs \<Rightarrow> total_size segs \<ge> lc_min_compaction_size c
      | None \<Rightarrow> False)"

section \<open>Well-formed segments\<close>

text \<open>
  The byte counter of a segment is the size of its values, and a segment was below the limit
  before its last entry was added.
\<close>

definition seg_ok :: "nat \<Rightarrow> log_segment \<Rightarrow> bool" where
  "seg_ok max_size s \<longleftrightarrow> ls_size_bytes s = value_bytes (ls_entries s)
     \<and> (ls_entries s = [] \<or> value_bytes (butlast (ls_entries s)) < max_size)"

lemma seg_ok_new: "seg_ok max_size (ls_new off)"
  by (simp add: seg_ok_def ls_new_def)

lemma seg_ok_add: "seg_ok max_size s \<Longrightarrow> ls_size_bytes s < max_size \<Longrightarrow> seg_ok max_size (add_entry e s)"
  by (simp add: seg_ok_def add_entry_def)

lemma add_entry_entries [simp]: "ls_entries (add_entry e s) = ls_entries s @ [e]"
  by (simp add: add_entry_def)

lemma ls_new_simps [simp]: "ls_entries (ls_new off) = []" "ls_size_bytes (ls_new off) = 0"
  by (simp_all add: ls_new_def)

lemma total_size_ok: "list_all (seg_ok max_size) segs \<Longrightarrow> total_size segs = value_bytes (all_entries segs)"
  by (induction segs) (simp_all add: total_size_def all_entries_def seg_ok_def)

lemma append_segments_ok:
  assumes "list_all (seg_ok max_size) segs" and "0 < max_size"
  shows "all_entries (append_segments max_size e segs) = all_entries segs @ [e]
     \<and> list_all (seg_ok max_size) (append_segments max_size e segs)"
proof (cases segs rule: rev_cases)
  case Nil
  then show ?thesis using assms(2)
    by (simp add: append_segments_def Let_def all_entries_def seg_ok_new seg_ok_add)
next
  case (snoc pre s)
  then show ?thesis using assms
    by (auto simp: append_segments_def Let_def all_entries_def seg_ok_new seg_ok_add butlast_append)
qed

section \<open>Laws of the compaction\<close>

text \<open>The entry with the highest offset per key, the earliest one of those with equal offsets.\<close>

definition latest_of :: "compacted_entry list \<Rightarrow> (string, compacted_entry) hashmap \<Rightarrow> bool" where
  "latest_of es m \<longleftrightarrow> hm_wf m \<and> fst ` set m = ce_key ` set es
     \<and> (\<forall>(k, e) \<in> set m. ce_key e = k \<and> e \<in> set es \<and> (\<forall>e' \<in> set es. ce_key e' = k \<longrightarrow> ce_offset e' \<le> ce_offset e))"

lemma latest_of_insert:
  assumes "latest_of es m" and "\<And>e'. (ce_key e, e') \<in> set m \<Longrightarrow> ce_offset e' < ce_offset e"
  shows "latest_of (es @ [e]) (hm_insert (ce_key e) e m)"
proof -
  let ?Q = "\<lambda>k x. ce_key x = k \<and> x \<in> set (es @ [e]) \<and>
      (\<forall>e' \<in> set (es @ [e]). ce_key e' = k \<longrightarrow> ce_offset e' \<le> ce_offset x)"
  have old: "ce_offset e' < ce_offset e" if "e' \<in> set es" "ce_key e' = ce_key e" for e'
  proof -
    have "ce_key e \<in> fst ` set m" using assms(1) that unfolding latest_of_def by (metis imageI)
    then obtain x where x: "(ce_key e, x) \<in> set m" by auto
    then have "ce_offset e' \<le> ce_offset x" using assms(1) that unfolding latest_of_def by blast
    with assms(2) [OF x] show ?thesis by simp
  qed
  have wf: "hm_wf (hm_insert (ce_key e) e m)" using assms(1) by (simp add: latest_of_def hashmap_simps)
  have "?Q k x" if "(k, x) \<in> set (hm_insert (ce_key e) e m)" for k x
  proof -
    have "hm_get (hm_insert (ce_key e) e m) k = Some x" using wf that by simp
    then consider "k = ce_key e" "x = e" | "k \<noteq> ce_key e" "hm_get m k = Some x"
      by (auto simp: hashmap_simps simp del: map_of_eq_Some_iff split: if_splits)
    then show ?thesis
    proof cases
      case 1
      then show ?thesis using old by force
    next
      case 2
      then have "(k, x) \<in> set m" by (simp add: map_of_SomeD)
      then show ?thesis using assms(1) 2(1) unfolding latest_of_def by fastforce
    qed
  qed
  moreover have "fst ` set (hm_insert (ce_key e) e m) = ce_key ` set (es @ [e])"
    using assms(1) by (simp add: latest_of_def AList.dom_update)
  ultimately show ?thesis using wf unfolding latest_of_def by blast
qed

lemma latest_of_keep_later: "latest_of es m \<Longrightarrow> latest_of (es @ [e]) (keep_later e m)"
proof (cases "hm_get m (ce_key e)")
  case None
  assume "latest_of es m"
  moreover have "ce_offset x < ce_offset e" if "(ce_key e, x) \<in> set m" for x
    using None that by (metis map_of_eq_None_iff fst_conv imageI)
  ultimately have "latest_of (es @ [e]) (hm_insert (ce_key e) e m)" by (rule latest_of_insert)
  with None show ?thesis by (simp add: keep_later_def)
next
  case (Some e')
  assume l: "latest_of es m"
  have uniq: "x = e'" if "(ce_key e, x) \<in> set m" for x
    using l Some map_of_is_SomeI [OF _ that] by (simp add: latest_of_def)
  show ?thesis
  proof (cases "ce_offset e > ce_offset e'")
    case True
    have "latest_of (es @ [e]) (hm_insert (ce_key e) e m)"
      by (rule latest_of_insert [OF l]) (use uniq True in blast)
    with Some True show ?thesis by (simp add: keep_later_def)
  next
    case False
    have mem: "(ce_key e, e') \<in> set m" using Some by (rule map_of_SomeD)
    have "fst ` set m = ce_key ` set es" using l by (simp add: latest_of_def)
    moreover have "ce_key e \<in> fst ` set m" using mem by (metis fst_conv imageI)
    ultimately have keys: "fst ` set m = ce_key ` set (es @ [e])" by auto
    have off: "ce_offset e \<le> ce_offset x" if "(ce_key e, x) \<in> set m" for x using uniq [OF that] False by simp
    have "ce_key x = k \<and> x \<in> set (es @ [e]) \<and> (\<forall>e' \<in> set (es @ [e]). ce_key e' = k \<longrightarrow> ce_offset e' \<le> ce_offset x)"
      if "(k, x) \<in> set m" for k x
    proof -
      have "ce_key x = k" "x \<in> set es" "\<forall>e' \<in> set es. ce_key e' = k \<longrightarrow> ce_offset e' \<le> ce_offset x"
        using l that unfolding latest_of_def by blast+
      with off that show ?thesis by auto
    qed
    moreover have "hm_wf m" using l by (simp add: latest_of_def)
    ultimately have "latest_of (es @ [e]) m" using keys unfolding latest_of_def by blast
    with Some False show ?thesis by (simp add: keep_later_def)
  qed
qed

lemma latest_entries_latest: "latest_of (all_entries segs) (latest_entries segs)"
proof -
  have "latest_of es (fold keep_later es [])" for es
    by (induction es rule: rev_induct) (simp add: latest_of_def, simp add: latest_of_keep_later)
  then show ?thesis by (simp add: latest_entries_def)
qed

lemma rebuild_ok:
  "0 < max_size \<Longrightarrow> list_all (seg_ok max_size) segs \<Longrightarrow> seg_ok max_size s \<Longrightarrow>
   all_entries (rebuild max_size es s segs) = all_entries segs @ ls_entries s @ es
   \<and> list_all (seg_ok max_size) (rebuild max_size es s segs)"
  by (induction max_size es s segs rule: rebuild.induct)
    (auto simp: all_entries_def seg_ok_add seg_ok_new)

text \<open>Compaction by key keeps the latest entry of every key and well-formed segments.\<close>

abbreviation by_key :: "compacted_entry list \<Rightarrow> (string, compacted_entry) hashmap" where
  "by_key es \<equiv> map (\<lambda>e. (ce_key e, e)) es"

lemma latest_of_values:
  assumes "latest_of es m" and "mset vs = mset (map snd m)"
  shows "latest_of es (by_key vs)"
proof -
  have keys: "map (\<lambda>e. (ce_key e, e)) (map snd m) = m"
    using assms(1) by (force simp: latest_of_def intro: map_idI)
  have eq: "mset (by_key vs) = mset m" using arg_cong [OF assms(2), of "image_mset (\<lambda>e. (ce_key e, e))"]
    by (simp only: mset_map [symmetric] keys)
  then have "mset (map fst (by_key vs)) = mset (map fst m)" by (simp only: mset_map)
  from mset_eq_imp_distinct_iff [OF this] have "hm_wf (by_key vs)" using assms(1) by (simp only: latest_of_def)
  moreover have "set (by_key vs) = set m" using mset_eq_setD [OF eq] .
  ultimately show ?thesis using assms(1) unfolding latest_of_def by simp
qed

lemma keep_latest_ok:
  assumes "0 < max_size" and "hash_order \<pi>"
  shows "latest_of (all_entries segs) (by_key (all_entries (compact_keep_latest \<pi> max_size segs)))
     \<and> list_all (seg_ok max_size) (compact_keep_latest \<pi> max_size segs)"
proof -
  let ?vs = "\<pi> (map snd (latest_entries segs))"
  have l: "latest_of (all_entries segs) (by_key ?vs)"
    using assms(2) by (intro latest_of_values [OF latest_entries_latest]) (simp add: hash_order_def)
  show ?thesis
  proof (cases "latest_entries segs = []")
    case True
    then have "all_entries (compact_keep_latest \<pi> max_size segs) = ?vs"
      using hash_order_Nil [OF assms(2), of "[]"] by (simp add: compact_keep_latest_def all_entries_def)
    with l True show ?thesis by (simp add: compact_keep_latest_def)
  next
    case False
    with l rebuild_ok [OF assms(1), of "[]" "ls_new 0" ?vs] show ?thesis
      by (simp add: compact_keep_latest_def Let_def seg_ok_new all_entries_def)
  qed
qed

lemma latest_of_bytes:
  assumes "latest_of es (by_key vs)"
  shows "value_bytes vs \<le> value_bytes es"
proof -
  let ?f = "\<lambda>e. length (ce_value e)"
  have "distinct vs" using assms by (auto simp: latest_of_def comp_def distinct_map)
  moreover have "set vs \<subseteq> set es" using assms by (auto simp: latest_of_def)
  moreover have "sum ?f (set es) \<le> value_bytes es" for es
    by (induction es) (simp_all add: insert_absorb sum.insert_if)
  ultimately show ?thesis
    by (metis (no_types, lifting) List.finite_set le_trans sum_list_distinct_conv_sum_set sum_mono2 zero_le)
qed

text \<open>Compaction by time.\<close>

lemma butlast_filter_bytes: "value_bytes (butlast (filter P es)) \<le> value_bytes (butlast es)"
proof (induction es rule: rev_induct)
  case (snoc e es)
  have "value_bytes (butlast xs) \<le> value_bytes xs" for xs :: "compacted_entry list"
    by (induction xs) auto
  then have "value_bytes (butlast (filter P es)) \<le> value_bytes (filter P es)" .
  moreover have "value_bytes (filter P es) \<le> value_bytes es" by (induction es) auto
  ultimately have "value_bytes (butlast (filter P es)) \<le> value_bytes es" by (rule le_trans)
  with \<open>value_bytes (filter P es) \<le> value_bytes es\<close> show ?case by simp
qed simp

lemma window_segment_ok: "seg_ok max_size s \<Longrightarrow> seg_ok max_size (window_segment cutoff s)"
  using butlast_filter_bytes [of "\<lambda>e. cutoff \<le> ce_timestamp e" "ls_entries s"]
  by (auto simp: seg_ok_def window_segment_def Let_def)

definition in_window :: "systime \<Rightarrow> duration \<Rightarrow> compacted_entry list \<Rightarrow> compacted_entry list" where
  "in_window now window es = filter (\<lambda>e. now - int window \<le> ce_timestamp e) es"

lemma time_window_ok:
  assumes "list_all (seg_ok max_size) segs" and "compact_time_window now window segs = Ret segs'"
  shows "all_entries segs' = in_window now window (all_entries segs) \<and> list_all (seg_ok max_size) segs'"
proof -
  let ?w = "window_segment (now - int window)"
  have segs': "segs' = filter (\<lambda>s. ls_entries s \<noteq> []) (map ?w segs)"
    using assms(2) by (auto simp: compact_time_window_def systime_sub_def split: if_splits)
  have "concat (map ls_entries (filter (\<lambda>s. ls_entries s \<noteq> []) ss)) = concat (map ls_entries ss)" for ss
    by (induction ss) auto
  then have "all_entries segs' = concat (map ls_entries (map ?w segs))"
    by (simp only: segs' all_entries_def)
  also have "\<dots> = in_window now window (all_entries segs)"
    by (induction segs) (simp_all add: all_entries_def window_segment_def in_window_def Let_def)
  finally have "all_entries segs' = in_window now window (all_entries segs)" .
  moreover have "list_all (seg_ok max_size) segs'"
    using assms(1) by (auto simp: segs' list_all_iff window_segment_ok)
  ultimately show ?thesis by simp
qed

section \<open>The manager as a transition system\<close>

definition lc_ok :: "compaction_manager \<Rightarrow> bool" where
  "lc_ok c \<longleftrightarrow> 0 < lc_max_segment_size c \<and>
     (\<forall>p segs. hm_get (lc_segments c) p = Some segs \<longrightarrow> list_all (seg_ok (lc_max_segment_size c)) segs)"

inductive lc_step :: "compaction_manager \<Rightarrow> compaction_manager \<Rightarrow> bool" where
  append: "lc_step c (lc_append now p k v off c)"
| compact: "hash_order \<pi> \<Longrightarrow> compact_partition ovf \<pi> now p c = (r, c') \<Longrightarrow> lc_step c c'"

lemma lc_ok_put:
  "lc_ok c \<Longrightarrow> list_all (seg_ok (lc_max_segment_size c)) segs \<Longrightarrow>
   lc_ok (c\<lparr>lc_segments := hm_insert p segs (lc_segments c)\<rparr>)"
  by (simp add: lc_ok_def hashmap_simps del: map_of_eq_Some_iff)

lemma compact_segments_ok:
  assumes "0 < max_size" and "hash_order \<pi>" and "list_all (seg_ok max_size) segs"
    and "compact_segments \<pi> now strategy max_size segs = Ret segs'"
  shows "list_all (seg_ok max_size) segs'"
  using assms keep_latest_ok [OF assms(1,2)] time_window_ok [OF assms(3)]
  by (auto simp: compact_segments_def compact_hybrid_def split: compaction_strategy.splits outcome.splits)

lemma lc_step_ok:
  assumes "lc_step c c'" and "lc_ok c"
  shows "lc_ok c' \<and> lc_strategy c' = lc_strategy c"
  using assms
proof (induction rule: lc_step.induct)
  case (append c now p k v off)
  let ?segs = "case hm_get (lc_segments c) p of None \<Rightarrow> [] | Some segs \<Rightarrow> segs"
  have "list_all (seg_ok (lc_max_segment_size c)) ?segs" "0 < lc_max_segment_size c"
    using append by (auto simp: lc_ok_def split: option.split)
  with append append_segments_ok show ?case by (auto simp: lc_append_def Let_def intro!: lc_ok_put)
next
  case (compact \<pi> ovf now p c r c')
  show ?case
  proof (cases "hm_get (lc_segments c) p")
    case (Some segs)
    then have "0 < lc_max_segment_size c" "list_all (seg_ok (lc_max_segment_size c)) segs"
      using compact(3) by (auto simp: lc_ok_def)
    from compact_segments_ok [OF this(1) compact(1) this(2)] compact Some show ?thesis
      by (cases "compact_segments \<pi> now (lc_strategy c) (lc_max_segment_size c) segs")
        (auto simp: compact_partition_def intro!: lc_ok_put)
  qed (use compact in \<open>simp add: compact_partition_def\<close>)
qed

interpretation compaction_system: invariant_system "\<lambda>c. c = lc_new strategy" lc_step
  "\<lambda>c. lc_ok c \<and> lc_strategy c = strategy"
  by unfold_locales (auto dest: lc_step_ok, simp_all add: lc_new_def lc_ok_def)

lemma compact_partition_reachable:
  assumes "lc_step\<^sup>*\<^sup>* (lc_new strategy) c" and "hash_order \<pi>" and "hm_get (lc_segments c) p = Some segs"
    and "total_size segs < 2 ^ 64"
    and "compact_segments \<pi> now strategy (lc_max_segment_size c) segs = Ret segs'"
    and "value_bytes (all_entries segs') \<le> value_bytes (all_entries segs)"
    and "compact_partition ovf \<pi> now p c = (r, c')"
  shows "hm_get (lc_segments c') p = Some segs'" and "total_size segs' \<le> total_size segs"
    and "r = Ret (Inr (total_size segs - total_size segs'))"
proof -
  have ok: "lc_ok c" "lc_strategy c = strategy" using compaction_system.inv_reachable [OF refl assms(1)] by simp_all
  then have segs: "0 < lc_max_segment_size c" "list_all (seg_ok (lc_max_segment_size c)) segs"
    using assms(3) by (auto simp: lc_ok_def)
  then show le: "total_size segs' \<le> total_size segs"
    using compact_segments_ok [OF segs(1) assms(2) segs(2) assms(5)] assms(6) by (simp add: total_size_ok)
  then have "arith_u 64 ovf (int (total_size segs) - int (total_size segs')) = Ret (total_size segs - total_size segs')"
    using assms(4) by (simp add: in_u_def nat_diff_distrib)
  then show "hm_get (lc_segments c') p = Some segs'" "r = Ret (Inr (total_size segs - total_size segs'))"
    using assms(3,5,7) ok(2) by (auto simp: compact_partition_def hashmap_simps)
qed

section \<open>Properties\<close>

text \<open>
  Property C31: compaction by key. In every state a manager with strategy \<open>KeepLatest\<close> can reach
  and for every iteration order, compacting a known partition returns the number of bytes freed
  and leaves exactly one entry per key: a stored entry of that key with the highest offset. No key
  is lost.
\<close>

theorem keep_latest_per_key:
  assumes "lc_step\<^sup>*\<^sup>* (lc_new KeepLatest) c" and "hash_order \<pi>" and "hm_get (lc_segments c) p = Some segs"
    and "total_size segs < 2 ^ 64" and "compact_partition ovf \<pi> now p c = (r, c')"
  shows "\<exists>segs'. hm_get (lc_segments c') p = Some segs' \<and> total_size segs' \<le> total_size segs
     \<and> r = Ret (Inr (total_size segs - total_size segs'))
     \<and> latest_of (all_entries segs) (by_key (all_entries segs'))"
proof -
  let ?segs = "compact_keep_latest \<pi> (lc_max_segment_size c) segs"
  have "0 < lc_max_segment_size c" using compaction_system.inv_reachable [OF refl assms(1)] by (simp add: lc_ok_def)
  then have l: "latest_of (all_entries segs) (by_key (all_entries ?segs))" using keep_latest_ok assms(2) by blast
  have "compact_segments \<pi> now KeepLatest (lc_max_segment_size c) segs = Ret ?segs"
    by (simp add: compact_segments_def)
  note res = compact_partition_reachable [OF assms(1-4) this latest_of_bytes [OF l] assms(5)]
  show ?thesis using res l by blast
qed

definition example_compaction :: "compaction_strategy \<Rightarrow> compaction_manager" where
  "example_compaction strategy = lc_append 5 0 ''b'' [2] 1 (lc_append 4 0 ''a'' [1] 0 (lc_new strategy))"

lemma example_compaction_reachable: "lc_step\<^sup>*\<^sup>* (lc_new strategy) (example_compaction strategy)"
  unfolding example_compaction_def
  by (rule rtranclp.rtrancl_into_rtrancl, rule r_into_rtranclp, rule lc_step.append, rule lc_step.append)

definition example_entries :: "compacted_entry list" where
  "example_entries = [\<lparr>ce_key = ''a'', ce_value = [1], ce_offset = 0, ce_timestamp = 4\<rparr>,
     \<lparr>ce_key = ''b'', ce_value = [2], ce_offset = 1, ce_timestamp = 5\<rparr>]"

lemma example_compaction_segments:
  "hm_get (lc_segments (example_compaction strategy)) 0 =
     Some [\<lparr>ls_start_offset = 0, ls_end_offset = 1, ls_entries = example_entries, ls_size_bytes = 2\<rparr>]"
  by (simp add: example_compaction_def lc_append_def lc_new_def append_segments_def add_entry_def ls_new_def
      example_entries_def Let_def)

lemma example_compaction_params:
  "lc_strategy (example_compaction strategy) = strategy"
  "lc_max_segment_size (example_compaction strategy) = 104857600"
  by (simp_all add: example_compaction_def lc_append_def lc_new_def Let_def)

theorem keep_latest_per_key_witness:
  "\<exists>n. fst (compact_partition True rev 9 0 (example_compaction KeepLatest)) = Ret (Inr n)"
  using keep_latest_per_key [OF example_compaction_reachable hash_order_rev example_compaction_segments _ surjective_pairing]
  by (auto simp: total_size_def)

text \<open>
  Compaction by time and by both. With a representable cut-off, \<open>TimeWindow\<close> keeps
  exactly the entries inside the window in their order, and \<open>Hybrid\<close> keeps per key the latest of
  those; both return the number of bytes freed.
\<close>

lemma window_compaction:
  assumes "lc_step\<^sup>*\<^sup>* (lc_new strategy) c" and "strategy = TimeWindow w \<or> strategy = Hybrid w"
    and "hash_order \<pi>" and "hm_get (lc_segments c) p = Some segs" and "total_size segs < 2 ^ 64"
    and "- (2 ^ 63) * 1000000000 \<le> now - int w" and "compact_partition ovf \<pi> now p c = (r, c')"
  shows "\<exists>segs'. hm_get (lc_segments c') p = Some segs'
     \<and> r = Ret (Inr (total_size segs - total_size segs')) \<and> total_size segs' \<le> total_size segs
     \<and> (if strategy = TimeWindow w then all_entries segs' = in_window now w (all_entries segs)
        else latest_of (in_window now w (all_entries segs)) (by_key (all_entries segs')))"
proof -
  let ?max = "lc_max_segment_size c"
  have max: "0 < ?max" and segs: "list_all (seg_ok ?max) segs"
    using compaction_system.inv_reachable [OF refl assms(1)] assms(4) by (auto simp: lc_ok_def)
  obtain ws where ws: "compact_time_window now w segs = Ret ws"
    using assms(6) by (auto simp: compact_time_window_def systime_sub_def)
  note w = time_window_ok [OF segs ws]
  have "value_bytes (filter P es) \<le> value_bytes es" for P es by (induction es) auto
  then have bytes: "value_bytes (all_entries ws) \<le> value_bytes (all_entries segs)"
    using w by (simp add: in_window_def)
  let ?segs = "if strategy = TimeWindow w then ws else compact_keep_latest \<pi> ?max ws"
  note l = keep_latest_ok [OF max assms(3), of ws]
  have "compact_segments \<pi> now strategy ?max segs = Ret ?segs"
    using assms(2) ws by (auto simp: compact_segments_def compact_hybrid_def)
  moreover have "value_bytes (all_entries ?segs) \<le> value_bytes (all_entries segs)"
    using bytes latest_of_bytes l by (auto intro: le_trans)
  ultimately have "hm_get (lc_segments c') p = Some ?segs" "total_size ?segs \<le> total_size segs"
    "r = Ret (Inr (total_size segs - total_size ?segs))"
    using compact_partition_reachable [OF assms(1,3,4,5) _ _ assms(7)] by blast+
  then show ?thesis using w l by (intro exI [of _ ?segs]) auto
qed

lemma window_compaction_example:
  "\<exists>segs'. hm_get (lc_segments (snd (compact_partition True rev 9 0 (example_compaction (TimeWindow 4))))) 0 = Some segs'
     \<and> all_entries segs' = in_window 9 4 example_entries"
  using window_compaction [OF example_compaction_reachable _ hash_order_rev example_compaction_segments _ _ surjective_pairing,
      of "TimeWindow 4" 4 9 True]
  by (auto simp: total_size_def all_entries_def)

text \<open>
  Compaction by key does not keep the log in offset order. After two appends in
  order, an iteration order of the hash map exists for which the compacted segment holds the
  entries in reverse, its \<open>end_offset\<close> is below an offset it contains, and so offsets read from it
  are no longer sorted.
\<close>

lemma compaction_unordered:
  "\<exists>\<pi> seg. hash_order \<pi> \<and> lc_step\<^sup>*\<^sup>* (lc_new KeepLatest) (example_compaction KeepLatest)
     \<and> hm_get (lc_segments (snd (compact_partition True \<pi> 9 0 (example_compaction KeepLatest)))) 0 = Some [seg]
     \<and> map ce_offset (ls_entries seg) = [1, 0] \<and> ls_end_offset seg = 0"
proof -
  have "hm_get (lc_segments (snd (compact_partition True rev 9 0 (example_compaction KeepLatest)))) 0 =
     Some [\<lparr>ls_start_offset = 0, ls_end_offset = 0, ls_entries = rev example_entries, ls_size_bytes = 2\<rparr>]"
    by (simp add: compact_partition_def example_compaction_segments compact_segments_def compact_keep_latest_def
        latest_entries_def all_entries_def keep_later_def example_entries_def example_compaction_params
        add_entry_def ls_new_def hashmap_simps Let_def)
  then show ?thesis using example_compaction_reachable hash_order_rev by (force simp: example_entries_def)
qed

end
