(* ===== verification/Cluster.thy ===== *)
theory Cluster
  imports Rafka_Prelude
begin

text \<open>
  The static cluster table, \<^verbatim>\<open>crates/core/src/cluster.rs\<close>. Each operation holds the lock of the
  table for its whole body. \<open>from_config\<close> only spawns the insertions of the configured brokers:
  it returns them as pending tasks, which run later in any order.
\<close>

record broker_config =
  bc_broker_id :: string
  bc_address :: string
  bc_port :: nat
  bc_partition_id :: nat
  bc_total_partitions :: nat

record cluster_config =
  cc_cluster_id :: string
  cc_brokers :: "broker_config list"
  cc_health_check_interval_ms :: nat
  cc_connection_timeout_ms :: nat

definition cc_default :: cluster_config where
  "cc_default = \<lparr>cc_cluster_id = ''rafka-cluster'', cc_brokers = [], cc_health_check_interval_ms = 5000,
     cc_connection_timeout_ms = 3000\<rparr>"

record broker_info =
  bi_broker_id :: string
  bi_address :: string
  bi_port :: nat
  bi_partition_id :: nat
  bi_total_partitions :: nat
  bi_is_healthy :: bool
  bi_last_health_check :: systime

definition bi_new :: "systime \<Rightarrow> broker_config \<Rightarrow> broker_info" where
  "bi_new now c =
     \<lparr>bi_broker_id = bc_broker_id c, bi_address = bc_address c, bi_port = bc_port c,
      bi_partition_id = bc_partition_id c, bi_total_partitions = bc_total_partitions c,
      bi_is_healthy = True, bi_last_health_check = now\<rparr>"

record cluster_manager =
  cm_brokers :: "(string, broker_info) hashmap"
  cm_cluster_id :: string
  cm_health_check_interval_ms :: nat

type_synonym broker_order = "(string \<times> broker_info) list \<Rightarrow> (string \<times> broker_info) list"

definition cm_new :: "string \<Rightarrow> nat \<Rightarrow> cluster_manager" where
  "cm_new cluster_id interval_ms =
     \<lparr>cm_brokers = [], cm_cluster_id = cluster_id, cm_health_check_interval_ms = interval_ms\<rparr>"

definition cm_get_cluster_id :: "cluster_manager \<Rightarrow> string" where
  "cm_get_cluster_id c = cm_cluster_id c"

definition cm_get_health_check_interval_ms :: "cluster_manager \<Rightarrow> nat" where
  "cm_get_health_check_interval_ms c = cm_health_check_interval_ms c"

definition add_broker :: "broker_info \<Rightarrow> cluster_manager \<Rightarrow> cluster_manager" where
  "add_broker b c = c\<lparr>cm_brokers := hm_insert (bi_broker_id b) b (cm_brokers c)\<rparr>"

definition from_config ::
  "(nat \<Rightarrow> systime) \<Rightarrow> cluster_config \<Rightarrow> cluster_manager \<times> broker_info list" where
  "from_config clock cfg =
     (cm_new (cc_cluster_id cfg) (cc_health_check_interval_ms cfg),
      map (\<lambda>i. bi_new (clock i) (cc_brokers cfg ! i)) [0..<length (cc_brokers cfg)])"

definition remove_broker :: "string \<Rightarrow> cluster_manager \<Rightarrow> cluster_manager" where
  "remove_broker broker_id c = c\<lparr>cm_brokers := hm_remove broker_id (cm_brokers c)\<rparr>"

definition get_broker :: "string \<Rightarrow> cluster_manager \<Rightarrow> broker_info option" where
  "get_broker broker_id c = hm_get (cm_brokers c) broker_id"

definition get_all_brokers :: "broker_order \<Rightarrow> cluster_manager \<Rightarrow> broker_info list" where
  "get_all_brokers \<pi> c = map snd (\<pi> (cm_brokers c))"

definition get_broker_for_partition :: "broker_order \<Rightarrow> nat \<Rightarrow> cluster_manager \<Rightarrow> broker_info option" where
  "get_broker_for_partition \<pi> partition_id c =
     find (\<lambda>b. bi_partition_id b = partition_id) (map snd (\<pi> (cm_brokers c)))"

definition update_broker_health :: "systime \<Rightarrow> string \<Rightarrow> bool \<Rightarrow> cluster_manager \<Rightarrow> cluster_manager" where
  "update_broker_health now broker_id is_healthy c =
     c\<lparr>cm_brokers := AList.map_entry broker_id
         (\<lambda>b. b\<lparr>bi_is_healthy := is_healthy, bi_last_health_check := now\<rparr>) (cm_brokers c)\<rparr>"

definition get_healthy_brokers :: "broker_order \<Rightarrow> cluster_manager \<Rightarrow> broker_info list" where
  "get_healthy_brokers \<pi> c = filter bi_is_healthy (map snd (\<pi> (cm_brokers c)))"

section \<open>Laws\<close>

text \<open>
  A broker is found for a partition exactly if the table has one for it, whatever the iteration
  order; with one broker per partition the answer does not depend on the order.
\<close>

lemma broker_for_partition:
  assumes "hash_order \<pi>"
  shows "get_broker_for_partition \<pi> p c = None \<longleftrightarrow> (\<forall>b \<in> snd ` set (cm_brokers c). bi_partition_id b \<noteq> p)"
    and "get_broker_for_partition \<pi> p c = Some b \<Longrightarrow> b \<in> snd ` set (cm_brokers c) \<and> bi_partition_id b = p"
  using hash_order_set [OF assms, of "cm_brokers c"]
  by (auto simp: get_broker_for_partition_def find_None_iff find_Some_iff in_set_conv_nth)
     (metis nth_mem snd_conv length_map nth_map image_eqI)

lemma healthy_after_update:
  assumes "hash_order \<pi>" and "hm_wf (cm_brokers c)" and "get_broker i c = Some b"
  shows "\<exists>b' \<in> set (get_healthy_brokers \<pi> (update_broker_health now i True c)). bi_broker_id b' = bi_broker_id b"
proof -
  let ?c = "update_broker_health now i True c"
  let ?b = "b\<lparr>bi_is_healthy := True, bi_last_health_check := now\<rparr>"
  have "hm_get (cm_brokers ?c) i = Some ?b"
    using assms(3) by (simp add: update_broker_health_def get_broker_def hashmap_simps)
  then have "(i, ?b) \<in> set (\<pi> (cm_brokers ?c))" by (simp add: hash_order_set [OF assms(1)] map_of_SomeD)
  then have "?b \<in> set (map snd (\<pi> (cm_brokers ?c)))" by (force simp: image_iff)
  then show ?thesis by (intro bexI [of _ ?b]) (simp_all add: get_healthy_brokers_def)
qed

text \<open>The pending insertions of \<open>from_config\<close> give the same table in every order if identifiers differ.\<close>

lemma from_config_any_order:
  assumes "distinct (map bi_broker_id tasks)" and "mset tasks' = mset tasks"
  shows "get_broker i (fold add_broker tasks' c) = get_broker i (fold add_broker tasks c)"
proof -
  have fold_get: "get_broker i (fold add_broker ts c) =
      (case find (\<lambda>b. bi_broker_id b = i) (rev ts) of Some b \<Rightarrow> Some b | None \<Rightarrow> get_broker i c)" for ts c
    by (induction ts rule: rev_induct) (auto simp: get_broker_def add_broker_def hashmap_simps)
  have uniq: "find (\<lambda>b. bi_broker_id b = i) (rev ts) = Some b \<longleftrightarrow> b \<in> set ts \<and> bi_broker_id b = i"
    if "distinct (map bi_broker_id ts)" for ts b
    using that
  proof (induction ts rule: rev_induct)
    case (snoc t ts)
    then show ?case by (auto simp: image_iff)
  qed simp
  have "distinct (map bi_broker_id tasks')"
    using assms by (metis mset_eq_imp_distinct_iff mset_map)
  moreover have "set tasks' = set tasks" using assms(2) by (rule mset_eq_setD)
  ultimately have "find (\<lambda>b. bi_broker_id b = i) (rev tasks') = find (\<lambda>b. bi_broker_id b = i) (rev tasks)"
    using uniq assms(1) by (metis not_Some_eq)
  then show ?thesis by (simp add: fold_get)
qed

end
