(* ===== verification/Mesh.thy ===== *)
theory Mesh
  imports Rafka_Proto
begin

text \<open>
  The peer-to-peer mesh, \<^verbatim>\<open>crates/core/src/p2p_mesh.rs\<close>: the topology each node keeps, the
  gossip messages, and the background tasks of \<open>start\<close> as single rounds. A \<open>SocketAddr\<close> is its
  printed address and port; \<open>parse addr port\<close> is the standard library's parser applied to
  ``address:port''. Clock readings, drawn identifiers, iteration orders \<open>\<pi>\<close> and the answers of
  remote nodes are arguments. Messages put on the broadcast channel \<open>gossip_tx\<close> are collected in
  \<open>ms_gossip\<close>.
\<close>

section \<open>Nodes\<close>

type_synonym node_id = string

record socket_addr =
  sa_ip :: string
  sa_port :: nat

record node_info =
  ni_id :: node_id
  ni_address :: socket_addr
  ni_partition_id :: nat
  ni_total_partitions :: nat
  ni_last_seen :: nat
  ni_is_alive :: bool
  ni_metadata :: "(string, string) hashmap"

definition ni_new :: "node_id \<Rightarrow> systime \<Rightarrow> socket_addr \<Rightarrow> nat \<Rightarrow> nat \<Rightarrow> node_info outcome" where
  "ni_new uuid now address partition_id total_partitions =
     (case unix_secs now of
        Ret sec \<Rightarrow> Ret \<lparr>ni_id = uuid, ni_address = address, ni_partition_id = partition_id,
          ni_total_partitions = total_partitions, ni_last_seen = sec, ni_is_alive = True, ni_metadata = []\<rparr>
      | Panic \<Rightarrow> Panic
      | Block \<Rightarrow> Block)"

definition update_last_seen :: "systime \<Rightarrow> node_info \<Rightarrow> unit outcome \<times> node_info" where
  "update_last_seen now n =
     (case unix_secs now of
        Ret sec \<Rightarrow> (Ret (), n\<lparr>ni_last_seen := sec, ni_is_alive := True\<rparr>)
      | Panic \<Rightarrow> (Panic, n)
      | Block \<Rightarrow> (Block, n))"

definition mark_dead :: "node_info \<Rightarrow> node_info" where
  "mark_dead n = n\<lparr>ni_is_alive := False\<rparr>"

definition is_stale :: "bool \<Rightarrow> systime \<Rightarrow> duration \<Rightarrow> node_info \<Rightarrow> bool outcome" where
  "is_stale ovf now timeout n =
     (case unix_secs now of
        Ret sec \<Rightarrow>
          (case arith_u 64 ovf (int sec - int (ni_last_seen n)) of
             Ret d \<Rightarrow> Ret (d > as_secs timeout)
           | Panic \<Rightarrow> Panic
           | Block \<Rightarrow> Block)
      | Panic \<Rightarrow> Panic
      | Block \<Rightarrow> Block)"

section \<open>The topology\<close>

record mesh_topology =
  tp_nodes :: "(node_id, node_info) hashmap"
  tp_partitions :: "(nat, node_id) hashmap"
  tp_connections :: "(node_id, node_id list) hashmap"
  tp_last_updated :: nat

type_synonym topology_op = "mesh_topology \<Rightarrow> unit outcome \<times> mesh_topology"
type_synonym node_order = "(node_id \<times> node_info) list \<Rightarrow> (node_id \<times> node_info) list"
type_synonym owner_order = "(int \<times> string) list \<Rightarrow> (int \<times> string) list"

definition tp_new :: "systime \<Rightarrow> mesh_topology outcome" where
  "tp_new now =
     (case unix_secs now of
        Ret sec \<Rightarrow> Ret \<lparr>tp_nodes = [], tp_partitions = [], tp_connections = [], tp_last_updated = sec\<rparr>
      | Panic \<Rightarrow> Panic
      | Block \<Rightarrow> Block)"

definition touch :: "systime \<Rightarrow> topology_op" where
  "touch now t =
     (case unix_secs now of
        Ret sec \<Rightarrow> (Ret (), t\<lparr>tp_last_updated := sec\<rparr>)
      | Panic \<Rightarrow> (Panic, t)
      | Block \<Rightarrow> (Block, t))"

definition put_node :: "node_info \<Rightarrow> mesh_topology \<Rightarrow> mesh_topology" where
  "put_node n t = t\<lparr>tp_nodes := hm_insert (ni_id n) n (tp_nodes t),
     tp_partitions := hm_insert (ni_partition_id n) (ni_id n) (tp_partitions t)\<rparr>"

definition add_node :: "systime \<Rightarrow> node_info \<Rightarrow> topology_op" where
  "add_node now n t = touch now (put_node n t)"

definition remove_node :: "systime \<Rightarrow> node_id \<Rightarrow> topology_op" where
  "remove_node now i t =
     (case hm_get (tp_nodes t) i of
        Some n \<Rightarrow> touch now
          (t\<lparr>tp_nodes := hm_remove i (tp_nodes t),
             tp_partitions := hm_remove (ni_partition_id n) (tp_partitions t),
             tp_connections := map (\<lambda>(k, ns). (k, removeAll i ns)) (hm_remove i (tp_connections t))\<rparr>)
      | None \<Rightarrow> (Ret (), t))"

definition update_node :: "systime \<Rightarrow> node_info \<Rightarrow> topology_op" where
  "update_node now n t =
     (if hm_contains (tp_nodes t) (ni_id n) then touch now (put_node n t) else (Ret (), t))"

definition get_node_for_partition :: "nat \<Rightarrow> mesh_topology \<Rightarrow> node_info option" where
  "get_node_for_partition partition_id t =
     (case hm_get (tp_partitions t) partition_id of
        Some i \<Rightarrow> hm_get (tp_nodes t) i
      | None \<Rightarrow> None)"

definition get_alive_nodes :: "node_order \<Rightarrow> mesh_topology \<Rightarrow> node_info list" where
  "get_alive_nodes \<pi> t = filter ni_is_alive (map snd (\<pi> (tp_nodes t)))"

definition get_neighbors :: "node_id \<Rightarrow> mesh_topology \<Rightarrow> node_info list" where
  "get_neighbors i t =
     (case hm_get (tp_connections t) i of
        Some ns \<Rightarrow> List.map_filter (hm_get (tp_nodes t)) ns
      | None \<Rightarrow> [])"

definition get_partition_owners :: "mesh_topology \<Rightarrow> (nat, node_info) hashmap" where
  "get_partition_owners t = List.map_filter
     (\<lambda>(p, i). map_option (\<lambda>n. (p, n)) (hm_get (tp_nodes t) i)) (tp_partitions t)"

section \<open>Merging the answer of a remote node\<close>

definition remote_node_info ::
  "(string \<Rightarrow> int \<Rightarrow> socket_addr option) \<Rightarrow> socket_addr \<Rightarrow> nat \<Rightarrow> mesh_node_info \<Rightarrow> node_info" where
  "remote_node_info parse fallback sec m =
     \<lparr>ni_id = mn_node_id m,
      ni_address = (case parse (mn_address m) (mn_port m) of Some a \<Rightarrow> a | None \<Rightarrow> fallback),
      ni_partition_id = wrap_u 32 (mn_partition_id m),
      ni_total_partitions = wrap_u 32 (mn_total_partitions m),
      ni_last_seen = sec, ni_is_alive = mn_is_alive m, ni_metadata = mn_metadata m\<rparr>"

definition merge_node ::
  "(string \<Rightarrow> int \<Rightarrow> socket_addr option) \<Rightarrow> socket_addr \<Rightarrow> systime \<Rightarrow> systime \<Rightarrow> mesh_node_info \<Rightarrow> topology_op" where
  "merge_node parse fallback now now' m t =
     (if hm_contains (tp_nodes t) (mn_node_id m) then (Ret (), t)
      else case unix_secs now of
        Ret sec \<Rightarrow> add_node now' (remote_node_info parse fallback sec m) t
      | Panic \<Rightarrow> (Panic, t)
      | Block \<Rightarrow> (Block, t))"

text \<open>The nodes of an answer in list order; \<open>clock i\<close> are the readings for the \<open>i\<close>-th node.\<close>

definition merge_nodes ::
  "(string \<Rightarrow> int \<Rightarrow> socket_addr option) \<Rightarrow> socket_addr \<Rightarrow> (nat \<Rightarrow> systime \<times> systime) \<Rightarrow> mesh_node_info list \<Rightarrow>
   topology_op" where
  "merge_nodes parse fallback clock ms =
     run_ops (map (\<lambda>i. merge_node parse fallback (fst (clock i)) (snd (clock i)) (ms ! i)) [0..<length ms])"

definition merge_owners :: "owner_order \<Rightarrow> (int, string) hashmap \<Rightarrow> mesh_topology \<Rightarrow> mesh_topology" where
  "merge_owners \<pi> owners t =
     t\<lparr>tp_partitions := fold (\<lambda>(p, owner). hm_insert (wrap_u 32 p) owner) (\<pi> owners) (tp_partitions t)\<rparr>"

definition default_addr :: socket_addr where
  "default_addr = \<lparr>sa_ip = ''127.0.0.1'', sa_port = 50051\<rparr>"

text \<open>The update of the synchronisation task: owners first, then the nodes.\<close>

definition sync_topology ::
  "(string \<Rightarrow> int \<Rightarrow> socket_addr option) \<Rightarrow> (nat \<Rightarrow> systime \<times> systime) \<Rightarrow> owner_order \<Rightarrow>
   mesh_topology_response \<Rightarrow> topology_op" where
  "sync_topology parse clock \<pi> resp t =
     merge_nodes parse default_addr clock (mt_nodes resp) (merge_owners \<pi> (mt_partition_owners resp) t)"

section \<open>The mesh\<close>

datatype gossip_message_type =
    NodeJoin node_info
  | NodeLeave node_id
  | NodeUpdate node_info
  | HeartbeatMsg node_id
  | PartitionUpdate nat node_id
  | ClusterState "node_info list"

record gossip_message =
  gs_from_node :: node_id
  gs_message_type :: gossip_message_type
  gs_timestamp :: systime
  gs_ttl :: nat

record p2p_mesh =
  ms_node_id :: node_id
  ms_node_info :: node_info
  ms_topology :: mesh_topology
  ms_gossip :: "gossip_message list"
  ms_heartbeat_interval :: duration
  ms_gossip_interval :: duration
  ms_node_timeout :: duration
  ms_max_neighbors :: nat

text \<open>\<open>new\<close> draws one identifier for the mesh and another one inside \<open>NodeInfo::new\<close>.\<close>

definition ms_new ::
  "node_id \<Rightarrow> node_id \<Rightarrow> systime \<Rightarrow> systime \<Rightarrow> socket_addr \<Rightarrow> nat \<Rightarrow> nat \<Rightarrow> duration \<Rightarrow> duration \<Rightarrow> duration \<Rightarrow> nat \<Rightarrow>
   p2p_mesh outcome" where
  "ms_new uuid uuid' now now' address partition_id total_partitions heartbeat gossip timeout max_neighbors =
     (case ni_new uuid' now address partition_id total_partitions of
        Ret info \<Rightarrow>
          (case tp_new now' of
             Ret t \<Rightarrow> Ret \<lparr>ms_node_id = uuid, ms_node_info = info, ms_topology = t, ms_gossip = [],
               ms_heartbeat_interval = heartbeat, ms_gossip_interval = gossip, ms_node_timeout = timeout,
               ms_max_neighbors = max_neighbors\<rparr>
           | Panic \<Rightarrow> Panic
           | Block \<Rightarrow> Block)
      | Panic \<Rightarrow> Panic
      | Block \<Rightarrow> Block)"

definition send_gossip :: "systime \<Rightarrow> gossip_message_type \<Rightarrow> nat \<Rightarrow> p2p_mesh \<Rightarrow> p2p_mesh" where
  "send_gossip now ty ttl m =
     m\<lparr>ms_gossip := ms_gossip m @
         [\<lparr>gs_from_node = ms_node_id m, gs_message_type = ty, gs_timestamp = now, gs_ttl = ttl\<rparr>]\<rparr>"

text \<open>The part of \<open>start\<close> before the tasks are spawned.\<close>

definition ms_start :: "systime \<Rightarrow> p2p_mesh \<Rightarrow> unit outcome \<times> p2p_mesh" where
  "ms_start now m =
     (case add_node now (ms_node_info m) (ms_topology m) of
        (Ret _, t) \<Rightarrow>
          (Ret (), m\<lparr>ms_topology := t\<lparr>tp_partitions :=
             hm_insert (ni_partition_id (ms_node_info m)) (ms_node_id m) (tp_partitions t)\<rparr>\<rparr>)
      | (Panic, t) \<Rightarrow> (Panic, m\<lparr>ms_topology := t\<rparr>)
      | (Block, t) \<Rightarrow> (Block, m\<lparr>ms_topology := t\<rparr>))"

text \<open>One round of the heartbeat task and of the partition announcement task.\<close>

definition heartbeat_round :: "systime \<Rightarrow> p2p_mesh \<Rightarrow> p2p_mesh" where
  "heartbeat_round now m = send_gossip now (HeartbeatMsg (ms_node_id m)) 3 m"

definition announce_partition_ownership :: "systime \<Rightarrow> p2p_mesh \<Rightarrow> p2p_mesh" where
  "announce_partition_ownership now m =
     send_gossip now (PartitionUpdate (ni_partition_id (ms_node_info m)) (ms_node_id m)) 3 m"

definition announcement_round :: "systime \<Rightarrow> p2p_mesh \<Rightarrow> p2p_mesh" where
  "announcement_round now m = announce_partition_ownership now m"

text \<open>
  One round of the synchronisation task: the first two known nodes are asked for their topology;
  \<open>rpc k\<close> is the answer of the \<open>k\<close>-th of them, if connecting and calling succeed.
\<close>

definition sync_round ::
  "(string \<Rightarrow> int \<Rightarrow> socket_addr option) \<Rightarrow> node_order \<Rightarrow> owner_order \<Rightarrow> (nat \<Rightarrow> nat \<Rightarrow> systime \<times> systime) \<Rightarrow>
   (nat \<Rightarrow> mesh_topology_response option) \<Rightarrow> node_id \<Rightarrow> topology_op" where
  "sync_round parse \<pi> \<pi>' clock rpc self t =
     (let known = take 2 (map snd (\<pi> (tp_nodes t)))
      in run_ops (map (\<lambda>k t. if ni_id (known ! k) = self then (Ret (), t)
                            else case rpc k of
                              Some resp \<Rightarrow> sync_topology parse (clock k) \<pi>' resp t
                            | None \<Rightarrow> (Ret (), t)) [0..<length known]) t)"

text \<open>
  One round of the clean-up task: the identifiers of the stale nodes are collected (the first
  panic of \<open>is_stale\<close> ends the task), then removed. The lists of clock readings are indexed by
  position.
\<close>

fun stale_nodes :: "bool \<Rightarrow> (nat \<Rightarrow> systime) \<Rightarrow> nat \<Rightarrow> duration \<Rightarrow> node_info list \<Rightarrow> node_id list outcome" where
  "stale_nodes ovf clock k timeout [] = Ret []"
| "stale_nodes ovf clock k timeout (n # ns) =
     (case is_stale ovf (clock k) timeout n of
        Ret st \<Rightarrow>
          (case stale_nodes ovf clock (Suc k) timeout ns of
             Ret is \<Rightarrow> Ret (if st then ni_id n # is else is)
           | Panic \<Rightarrow> Panic
           | Block \<Rightarrow> Block)
      | Panic \<Rightarrow> Panic
      | Block \<Rightarrow> Block)"

definition cleanup_round ::
  "bool \<Rightarrow> (nat \<Rightarrow> systime) \<Rightarrow> (nat \<Rightarrow> systime) \<Rightarrow> node_order \<Rightarrow> duration \<Rightarrow> topology_op" where
  "cleanup_round ovf clock clock' \<pi> timeout t =
     (case stale_nodes ovf clock 0 timeout (map snd (\<pi> (tp_nodes t))) of
        Ret is \<Rightarrow> run_ops (map (\<lambda>k. remove_node (clock' k) (is ! k)) [0..<length is]) t
      | Panic \<Rightarrow> (Panic, t)
      | Block \<Rightarrow> (Block, t))"

text \<open>The neighbours the forwarding task contacts for a message received on the channel.\<close>

definition forward_targets :: "node_order \<Rightarrow> node_id \<Rightarrow> gossip_message \<Rightarrow> mesh_topology \<Rightarrow> node_info list" where
  "forward_targets \<pi> self msg t =
     (if gs_from_node msg = self \<or> gs_ttl msg = 0 then []
      else filter (\<lambda>n. ni_id n \<noteq> gs_from_node msg \<and> ni_id n \<noteq> self) (take 2 (map snd (\<pi> (tp_nodes t)))))"

section \<open>Joining, leaving and gossip\<close>

text \<open>\<open>resp\<close> is the bootstrap node's answer, if connecting and calling succeed: nodes first, then owners.\<close>

definition request_cluster_state ::
  "(string \<Rightarrow> int \<Rightarrow> socket_addr option) \<Rightarrow> (nat \<Rightarrow> systime \<times> systime) \<Rightarrow> owner_order \<Rightarrow> socket_addr \<Rightarrow>
   mesh_topology_response option \<Rightarrow> topology_op" where
  "request_cluster_state parse clock \<pi> bootstrap_addr resp t =
     (case resp of
        Some r \<Rightarrow>
          (case merge_nodes parse bootstrap_addr clock (mt_nodes r) t of
             (Ret _, t') \<Rightarrow> (Ret (), merge_owners \<pi> (mt_partition_owners r) t')
           | (Panic, t') \<Rightarrow> (Panic, t')
           | (Block, t') \<Rightarrow> (Block, t'))
      | None \<Rightarrow> (Ret (), t))"

definition join_cluster ::
  "(string \<Rightarrow> int \<Rightarrow> socket_addr option) \<Rightarrow> (nat \<Rightarrow> nat \<Rightarrow> systime \<times> systime) \<Rightarrow> owner_order \<Rightarrow> systime \<Rightarrow> systime \<Rightarrow>
   (socket_addr \<times> mesh_topology_response option) list \<Rightarrow> p2p_mesh \<Rightarrow> unit outcome \<times> p2p_mesh" where
  "join_cluster parse clock \<pi> now now' bootstrap m =
     (let m1 = send_gossip now (NodeJoin (ms_node_info m)) 5 m;
          m2 = send_gossip now' (PartitionUpdate (ni_partition_id (ms_node_info m)) (ms_node_id m)) 5 m1
      in case run_ops (map (\<lambda>k. request_cluster_state parse (clock k) \<pi> (fst (bootstrap ! k)) (snd (bootstrap ! k)))
             [0..<length bootstrap]) (ms_topology m2) of
           (r, t) \<Rightarrow> (r, m2\<lparr>ms_topology := t\<rparr>))"

definition leave_cluster :: "systime \<Rightarrow> systime \<Rightarrow> p2p_mesh \<Rightarrow> unit outcome \<times> p2p_mesh" where
  "leave_cluster now now' m =
     (let m1 = send_gossip now (NodeLeave (ms_node_id m)) 5 m
      in case remove_node now' (ms_node_id m) (ms_topology m1) of (r, t) \<Rightarrow> (r, m1\<lparr>ms_topology := t\<rparr>))"

definition get_cluster_topology :: "p2p_mesh \<Rightarrow> mesh_topology" where
  "get_cluster_topology m = ms_topology m"

definition ms_get_node_for_partition :: "nat \<Rightarrow> p2p_mesh \<Rightarrow> node_info option" where
  "ms_get_node_for_partition p m = get_node_for_partition p (ms_topology m)"

declare get_cluster_topology_def [simp] ms_get_node_for_partition_def [simp]

definition broadcast_message :: "gossip_message \<Rightarrow> p2p_mesh \<Rightarrow> p2p_mesh" where
  "broadcast_message msg m = m\<lparr>ms_gossip := ms_gossip m @ [msg]\<rparr>"

text \<open>What a message does to the topology; \<open>clock k\<close> are the readings in order.\<close>

definition gossip_effect :: "(nat \<Rightarrow> systime) \<Rightarrow> node_id \<Rightarrow> gossip_message_type \<Rightarrow> topology_op" where
  "gossip_effect clock self ty t =
     (case ty of
        NodeJoin n \<Rightarrow> add_node (clock 0) n t
      | NodeLeave i \<Rightarrow> remove_node (clock 0) i t
      | NodeUpdate n \<Rightarrow> update_node (clock 0) n t
      | HeartbeatMsg i \<Rightarrow>
          (case hm_get (tp_nodes t) i of
             Some n \<Rightarrow> (case update_last_seen (clock 0) n of
               (r, n') \<Rightarrow> (r, t\<lparr>tp_nodes := hm_insert i n' (tp_nodes t)\<rparr>))
           | None \<Rightarrow> (Ret (), t))
      | PartitionUpdate p owner \<Rightarrow> (Ret (), t\<lparr>tp_partitions := hm_insert p owner (tp_partitions t)\<rparr>)
      | ClusterState ns \<Rightarrow>
          run_ops (map (\<lambda>k t. if ni_id (ns ! k) = self then (Ret (), t) else add_node (clock k) (ns ! k) t)
            [0..<length ns]) t)"

definition process_gossip_message ::
  "(nat \<Rightarrow> systime) \<Rightarrow> systime \<Rightarrow> gossip_message \<Rightarrow> p2p_mesh \<Rightarrow> unit outcome \<times> p2p_mesh" where
  "process_gossip_message clock now msg m =
     (if gs_from_node msg = ms_node_id m then (Ret (), m)
      else if gs_ttl msg = 0 then (Ret (), m)
      else
        case gossip_effect clock (ms_node_id m) (gs_message_type msg) (ms_topology m) of
          (Ret _, t) \<Rightarrow>
            (let m1 = m\<lparr>ms_topology := t\<rparr>;
                 m2 = (case gs_message_type msg of
                         NodeJoin _ \<Rightarrow> announce_partition_ownership now m1
                       | _ \<Rightarrow> m1);
                 fwd = msg\<lparr>gs_ttl := gs_ttl msg - 1, gs_from_node := ms_node_id m\<rparr>
             in (Ret (), if gs_ttl fwd > 0 then m2\<lparr>ms_gossip := ms_gossip m2 @ [fwd]\<rparr> else m2))
        | (Panic, t) \<Rightarrow> (Panic, m\<lparr>ms_topology := t\<rparr>)
        | (Block, t) \<Rightarrow> (Block, m\<lparr>ms_topology := t\<rparr>))"

definition get_healthy_nodes :: "node_order \<Rightarrow> p2p_mesh \<Rightarrow> node_info list" where
  "get_healthy_nodes \<pi> m = get_alive_nodes \<pi> (ms_topology m)"

section \<open>Laws of the topology\<close>

lemma touch_frame [simp]:
  "tp_nodes (snd (touch now t)) = tp_nodes t" "tp_partitions (snd (touch now t)) = tp_partitions t"
  "tp_connections (snd (touch now t)) = tp_connections t"
  by (simp_all add: touch_def split: outcome.split)

lemma touch_ret [simp]: "0 \<le> now \<Longrightarrow> fst (touch now t) = Ret ()"
  by (simp add: touch_def)

text \<open>A node that was added is found for its partition.\<close>

lemma add_node_lookup:
  "get_node_for_partition (ni_partition_id n) (snd (add_node now n t)) = Some n"
  by (simp add: get_node_for_partition_def add_node_def put_node_def hashmap_simps)

text \<open>Removing a node frees the partition it announced, whoever is recorded as its owner.\<close>

lemma remove_node_lookup:
  "hm_get (tp_nodes t) i = Some n \<Longrightarrow>
   get_node_for_partition (ni_partition_id n) (snd (remove_node now i t)) = None
   \<and> \<not> hm_contains (tp_nodes (snd (remove_node now i t))) i"
  by (simp add: get_node_for_partition_def remove_node_def hashmap_simps)

text \<open>Nodes are stored under their own identifiers.\<close>

definition topology_ok :: "mesh_topology \<Rightarrow> bool" where
  "topology_ok t \<longleftrightarrow> (\<forall>i n. hm_get (tp_nodes t) i = Some n \<longrightarrow> ni_id n = i)"

lemma topology_ok_nodes: "tp_nodes t' = tp_nodes t \<Longrightarrow> topology_ok t' = topology_ok t"
  by (simp add: topology_ok_def)

lemma topology_ok_touch [simp]: "topology_ok (snd (touch now t)) = topology_ok t"
  by (rule topology_ok_nodes) simp

lemma topology_ok_put [simp]: "topology_ok t \<Longrightarrow> topology_ok (put_node n t)"
  by (simp add: topology_ok_def put_node_def hashmap_simps)

lemma add_node_ok: "topology_ok t \<Longrightarrow> topology_ok (snd (add_node now n t))"
  by (simp add: add_node_def)

lemma remove_node_ok: "topology_ok t \<Longrightarrow> topology_ok (snd (remove_node now i t))"
  by (simp add: remove_node_def topology_ok_def hashmap_simps split: option.split)

lemma merge_node_ok: "topology_ok t \<Longrightarrow> topology_ok (snd (merge_node parse fb now now' m t))"
  by (simp add: merge_node_def add_node_ok split: outcome.split)

lemma sync_topology_ok: "topology_ok t \<Longrightarrow> topology_ok (snd (sync_topology parse clock \<pi> resp t))"
  unfolding sync_topology_def merge_nodes_def
  by (rule run_ops_inv) (auto simp: merge_node_ok merge_owners_def topology_ok_nodes [of "t\<lparr>tp_partitions := _\<rparr>" t])

lemma fold_owners_get:
  assumes "\<forall>x \<in> set xs. 0 \<le> fst x \<and> fst x < 2 ^ 32" and "distinct (map fst xs)" and "p < 2 ^ 32"
  shows "hm_get (fold (\<lambda>(p, owner). hm_insert (wrap_u 32 p) owner) xs ps) p =
     (case hm_get xs (int p) of Some i \<Rightarrow> Some i | None \<Rightarrow> hm_get ps p)"
  using assms(1,2)
proof (induction xs arbitrary: ps)
  case (Cons x xs)
  obtain q owner where x: "x = (q, owner)" by (cases x)
  have w: "wrap_u 32 q = nat q" "(nat q = p) = (q = int p)" using Cons.prems x by (auto simp: wrap_u_def)
  have "hm_get xs (int p) = None" if "q = int p" using Cons.prems(2) x that by (simp add: map_of_eq_None_iff)
  with Cons x w show ?case by (auto simp: hashmap_simps split: option.split)
qed simp

lemma merge_owners_get:
  assumes "hash_order \<pi>" and "hm_wf owners" and "\<forall>x \<in> set owners. 0 \<le> fst x \<and> fst x < 2 ^ 32" and "p < 2 ^ 32"
  shows "hm_get (tp_partitions (merge_owners \<pi> owners t)) p =
     (case hm_get owners (int p) of Some i \<Rightarrow> Some i | None \<Rightarrow> hm_get (tp_partitions t) p)"
proof -
  have m: "mset (\<pi> owners) = mset owners" using assms(1) by (simp add: hash_order_def)
  have d: "distinct (map fst (\<pi> owners))"
    using assms(2) m by (metis mset_eq_imp_distinct_iff mset_map)
  have "map_of (\<pi> owners) = map_of owners"
    using m assms(2) d by (intro map_of_inject_set [THEN iffD2] mset_eq_setD) auto
  moreover have "\<forall>x \<in> set (\<pi> owners). 0 \<le> fst x \<and> fst x < 2 ^ 32" using assms(3) mset_eq_setD [OF m] by simp
  ultimately show ?thesis using fold_owners_get [OF _ d assms(4)] by (simp add: merge_owners_def)
qed

section \<open>The mesh as a transition system\<close>

text \<open>
  The states are a mesh and the messages that callers have handed to \<open>broadcast_message\<close> so far; the tasks and remote
  answers may do anything to the topology. (Nothing in the repository calls \<open>broadcast_message\<close>, but it is public.)
\<close>

inductive mesh_step :: "p2p_mesh \<times> gossip_message list \<Rightarrow> p2p_mesh \<times> gossip_message list \<Rightarrow> bool" where
  start: "ms_start now m = (r, m') \<Longrightarrow> mesh_step (m, handed) (m', handed)"
| heartbeat: "mesh_step (m, handed) (heartbeat_round now m, handed)"
| announce: "mesh_step (m, handed) (announcement_round now m, handed)"
| topology: "mesh_step (m, handed) (m\<lparr>ms_topology := t\<rparr>, handed)"
| join: "join_cluster parse clock \<pi> now now' bs m = (r, m') \<Longrightarrow> mesh_step (m, handed) (m', handed)"
| leave: "leave_cluster now now' m = (r, m') \<Longrightarrow> mesh_step (m, handed) (m', handed)"
| gossip: "process_gossip_message clock now msg m = (r, m') \<Longrightarrow> mesh_step (m, handed) (m', handed)"
| broadcast: "mesh_step (m, handed) (broadcast_message msg m, handed @ [msg])"

text \<open>The messages on the channel that carry another sender are the ones that were handed over.\<close>

definition foreign :: "node_id \<Rightarrow> gossip_message list \<Rightarrow> gossip_message list" where
  "foreign self = filter (\<lambda>msg. gs_from_node msg \<noteq> self)"

fun own_gossip :: "p2p_mesh \<times> gossip_message list \<Rightarrow> bool" where
  "own_gossip (m, handed) = (foreign (ms_node_id m) (ms_gossip m) = foreign (ms_node_id m) handed)"

lemma own_gossip_send [simp]: "own_gossip (send_gossip now ty ttl m, handed) = own_gossip (m, handed)"
  by (simp add: foreign_def send_gossip_def)

lemma own_gossip_topology [simp]: "own_gossip (m\<lparr>ms_topology := t\<rparr>, handed) = own_gossip (m, handed)"
  by simp

lemma process_gossip_sends:
  assumes "process_gossip_message clock now msg m = (r, m')"
  shows "ms_node_id m' = ms_node_id m \<and> (\<exists>out. ms_gossip m' = ms_gossip m @ out
     \<and> (\<forall>x \<in> set out. gs_from_node x = ms_node_id m \<and> (gs_ttl x = 3 \<or> gs_ttl x < gs_ttl msg)))"
proof (cases "gs_from_node msg = ms_node_id m \<or> gs_ttl msg = 0")
  case True
  then show ?thesis using assms by (auto simp: process_gossip_message_def split: if_splits)
next
  case False
  obtain r0 t where e: "gossip_effect clock (ms_node_id m) (gs_message_type msg) (ms_topology m) = (r0, t)"
    by fastforce
  show ?thesis
  proof (cases r0)
    case (Ret u)
    then show ?thesis using assms False e
      by (cases "gs_message_type msg"; cases "gs_ttl msg > 1")
        (auto simp: process_gossip_message_def announce_partition_ownership_def send_gossip_def Let_def)
  qed (use assms False e in \<open>auto simp: process_gossip_message_def\<close>)
qed

lemma mesh_step_own: "mesh_step s s' \<Longrightarrow> own_gossip s \<Longrightarrow> own_gossip s'"
proof (induction rule: mesh_step.induct)
  case (gossip clock now msg m r m' handed)
  obtain out where out: "ms_node_id m' = ms_node_id m" "ms_gossip m' = ms_gossip m @ out"
      "\<forall>x \<in> set out. gs_from_node x = ms_node_id m"
    using process_gossip_sends [OF gossip(1)] by blast
  have "foreign (ms_node_id m) out = []" using out(3) by (simp add: foreign_def filter_empty_conv)
  then show ?case using gossip(2) out(1,2) by (simp add: foreign_def)
next
  case (broadcast m handed msg)
  then show ?case by (simp add: broadcast_message_def foreign_def)
qed (auto simp: ms_start_def heartbeat_round_def announcement_round_def announce_partition_ownership_def
    join_cluster_def leave_cluster_def Let_def simp del: own_gossip.simps split: outcome.splits prod.splits)

definition mesh_init :: "p2p_mesh \<times> gossip_message list \<Rightarrow> bool" where
  "mesh_init s \<longleftrightarrow> snd s = [] \<and> (\<exists>uuid uuid' now now' address p tot hb gi to mn.
     ms_new uuid uuid' now now' address p tot hb gi to mn = Ret (fst s))"

lemma ms_new_gossip: "ms_new uuid uuid' now now' address p tot hb gi to mn = Ret m \<Longrightarrow> ms_gossip m = []"
  by (auto simp: ms_new_def split: outcome.splits)

lemma ms_new_own: "mesh_init s \<Longrightarrow> own_gossip s"
  by (cases s) (auto simp: mesh_init_def foreign_def dest: ms_new_gossip)

interpretation mesh_system: invariant_system mesh_init mesh_step own_gossip
  by unfold_locales (auto intro: ms_new_own mesh_step_own)

section \<open>Properties\<close>

text \<open>
  Property C40: the mesh forwards none of its own gossip. In every state a mesh can reach, the messages on its
  channel with a foreign sender are exactly, and in order, those with a foreign sender that callers have handed to
  \<open>broadcast_message\<close>; whatever the forwarding task sends to a neighbour is one of them. The
  heartbeats, announcements, joins, leaves and the gossip passed on after processing all carry
  the node's own identifier and are skipped; as long as nobody calls \<open>broadcast_message\<close>, no neighbour is contacted.
\<close>

theorem only_broadcast_forwarded:
  assumes "ms_new uuid uuid' now now' address p tot hb gi to mn = Ret m0" and "mesh_step\<^sup>*\<^sup>* (m0, []) (m, handed)"
  shows "filter (\<lambda>msg. gs_from_node msg \<noteq> ms_node_id m) (ms_gossip m) = filter (\<lambda>msg. gs_from_node msg \<noteq> ms_node_id m) handed
     \<and> (\<forall>msg \<pi> t. msg \<in> set (ms_gossip m) \<and> forward_targets \<pi> (ms_node_id m) msg t \<noteq> [] \<longrightarrow>
          msg \<in> set handed \<and> gs_from_node msg \<noteq> ms_node_id m)"
proof -
  have "mesh_init (m0, [])" unfolding mesh_init_def fst_conv snd_conv using assms(1) by blast
  from mesh_system.inv_reachable [OF this assms(2)]
  have eq: "foreign (ms_node_id m) (ms_gossip m) = foreign (ms_node_id m) handed" by simp
  have "msg \<in> set handed \<and> gs_from_node msg \<noteq> ms_node_id m"
    if "msg \<in> set (ms_gossip m)" "forward_targets \<pi> (ms_node_id m) msg t \<noteq> []" for msg \<pi> t
  proof -
    have f: "gs_from_node msg \<noteq> ms_node_id m" using that(2) by (auto simp: forward_targets_def)
    then have "msg \<in> set (foreign (ms_node_id m) (ms_gossip m))" using that(1) by (simp add: foreign_def)
    then have "msg \<in> set (foreign (ms_node_id m) handed)" unfolding eq .
    then show ?thesis using f by (simp add: foreign_def)
  qed
  then show ?thesis using eq by (auto simp: foreign_def)
qed

definition example_mesh :: p2p_mesh where
  "example_mesh = \<lparr>ms_node_id = ''m'', ms_node_info = \<lparr>ni_id = ''i'', ni_address = default_addr,
     ni_partition_id = 0, ni_total_partitions = 3, ni_last_seen = 0, ni_is_alive = True, ni_metadata = []\<rparr>,
     ms_topology = \<lparr>tp_nodes = [], tp_partitions = [], tp_connections = [], tp_last_updated = 0\<rparr>,
     ms_gossip = [], ms_heartbeat_interval = secs 5, ms_gossip_interval = secs 10, ms_node_timeout = secs 30,
     ms_max_neighbors = 8\<rparr>"

lemma example_mesh_new: "ms_new ''m'' ''i'' 0 0 default_addr 0 3 (secs 5) (secs 10) (secs 30) 8 = Ret example_mesh"
  by (simp add: ms_new_def ni_new_def tp_new_def example_mesh_def)

text \<open>The mesh sends a heartbeat, then a caller hands over a message of another node: only that one is forwarded.\<close>

definition example_handed :: gossip_message where
  "example_handed = \<lparr>gs_from_node = ''x'', gs_message_type = HeartbeatMsg ''x'', gs_timestamp = 8, gs_ttl = 2\<rparr>"

definition example_channel :: p2p_mesh where
  "example_channel = broadcast_message example_handed (heartbeat_round 7 example_mesh)"

lemma example_channel_reached: "mesh_step\<^sup>*\<^sup>* (example_mesh, []) (example_channel, [example_handed])"
  using mesh_step.heartbeat [of example_mesh "[]" 7]
    mesh_step.broadcast [of "heartbeat_round 7 example_mesh" "[]" example_handed]
  by (simp add: example_channel_def)

theorem only_broadcast_forwarded_witness:
  "\<exists>heartbeat. ms_gossip example_channel = [heartbeat, example_handed]
     \<and> (\<forall>\<pi> t. forward_targets \<pi> ''m'' heartbeat t = [])
     \<and> forward_targets rev ''m'' example_handed ((ms_topology example_mesh)\<lparr>tp_nodes := [(''i'', ms_node_info example_mesh)]\<rparr>)
          = [ms_node_info example_mesh]"
proof -
  let ?h = "\<lparr>gs_from_node = ''m'', gs_message_type = HeartbeatMsg ''m'', gs_timestamp = 7, gs_ttl = 3\<rparr>"
  have ch: "ms_gossip example_channel = [?h, example_handed]" "ms_node_id example_channel = ''m''"
    by (simp_all add: example_channel_def broadcast_message_def example_mesh_def heartbeat_round_def send_gossip_def)
  have "?h \<notin> set [example_handed]" by (simp add: example_handed_def)
  then have "forward_targets \<pi> ''m'' ?h t = []" for \<pi> t
    using only_broadcast_forwarded [OF example_mesh_new example_channel_reached] ch by auto
  then show ?thesis using ch by (simp add: example_handed_def forward_targets_def example_mesh_def)
qed

text \<open>
  A started node cannot be found for its own partition. \<open>new\<close> draws two identifiers;
  the node is stored under one and announced as the owner of its partition under the other, so the
  look-up for its partition fails, and leaving the cluster does not remove it.
\<close>

lemma own_partition_unresolvable:
  assumes "ms_new uuid uuid' now now' address p tot hb gi to mn = Ret m0" and "uuid \<noteq> uuid'"
    and "ms_start t m0 = (Ret (), m)" and "leave_cluster l l' m = (r, m')"
  shows "get_node_for_partition p (ms_topology m) = None
     \<and> r = Ret () \<and> ms_topology m' = ms_topology m \<and> hm_contains (tp_nodes (ms_topology m')) uuid'"
proof -
  have m0: "ms_node_id m0 = uuid" "ni_id (ms_node_info m0) = uuid'" "ni_partition_id (ms_node_info m0) = p"
    "tp_nodes (ms_topology m0) = []"
    using assms(1) by (auto simp: ms_new_def ni_new_def tp_new_def split: outcome.splits)
  obtain t1 where t1: "add_node t (ms_node_info m0) (ms_topology m0) = (Ret (), t1)"
    "m = m0\<lparr>ms_topology := t1\<lparr>tp_partitions := hm_insert p uuid (tp_partitions t1)\<rparr>\<rparr>"
    using assms(3) m0 by (auto simp: ms_start_def split: prod.splits outcome.splits)
  have "tp_nodes t1 = [(uuid', ms_node_info m0)]"
    using t1(1) m0 touch_frame(1) [of t "put_node (ms_node_info m0) (ms_topology m0)"]
    by (simp add: add_node_def put_node_def)
  then show ?thesis
    using assms(2,4) t1(2) m0
    by (auto simp: get_node_for_partition_def leave_cluster_def remove_node_def send_gossip_def hashmap_simps)
qed

lemma own_partition_unresolvable_example:
  "get_node_for_partition 0 (ms_topology (snd (ms_start 5 example_mesh))) = None"
proof -
  have "fst (ms_start 5 example_mesh) = Ret ()"
    by (simp add: ms_start_def add_node_def touch_def example_mesh_def)
  then have "ms_start 5 example_mesh = (Ret (), snd (ms_start 5 example_mesh))" by (metis prod.collapse)
  from own_partition_unresolvable [OF example_mesh_new _ this surjective_pairing] show ?thesis by simp
qed

text \<open>
  Topology synchronisation is not stable. When a node first learns of a peer, which
  answers with itself as the only node and with its other identifier as the owner of its
  partition, the peer is found for that partition; after the same answer arrives a second time it
  is not found any more.
\<close>

lemma resync_breaks_routing:
  assumes "mt_nodes resp = [n]" and "mt_partition_owners resp = [(mn_partition_id n, owner)]"
    and "0 \<le> mn_partition_id n" and "mn_partition_id n < 2 ^ 31" and "owner \<noteq> mn_node_id n"
    and "\<not> hm_contains (tp_nodes t) (mn_node_id n)" and "\<not> hm_contains (tp_nodes t) owner"
    and "hash_order \<pi>" and "\<forall>k. 0 \<le> fst (clock k) \<and> 0 \<le> snd (clock k)"
    and "sync_topology parse clock \<pi> resp t = (r1, t1)" and "sync_topology parse clock \<pi> resp t1 = (r2, t2)"
  shows "r1 = Ret () \<and> r2 = Ret ()
     \<and> (\<exists>info. get_node_for_partition (nat (mn_partition_id n)) t1 = Some info \<and> ni_id info = mn_node_id n)
     \<and> get_node_for_partition (nat (mn_partition_id n)) t2 = None"
proof -
  let ?p = "nat (mn_partition_id n)"
  let ?info = "remote_node_info parse default_addr (nat (fst (clock 0)) div 1000000000) n"
  let ?mo = "merge_owners \<pi> [(mn_partition_id n, owner)]"
  have p: "wrap_u 32 (mn_partition_id n) = ?p" "?p < 2 ^ 32" using assms(3,4) by (simp_all add: wrap_u_def)
  have info: "ni_id ?info = mn_node_id n" "ni_partition_id ?info = ?p"
    using p by (simp_all add: remote_node_info_def)
  have own: "hm_get (tp_partitions (?mo s)) ?p = Some owner" and nodes: "tp_nodes (?mo s) = tp_nodes s" for s
    using merge_owners_get [OF assms(8), of "[(mn_partition_id n, owner)]" ?p s] assms(3,4)
    by (simp_all add: merge_owners_def)
  have clock: "0 \<le> fst (clock 0)" "0 \<le> snd (clock 0)" using assms(9) by simp_all
  have 1: "sync_topology parse clock \<pi> resp t = touch (snd (clock 0)) (put_node ?info (?mo t))"
    using assms(6) nodes [of t] clock
    by (simp add: sync_topology_def merge_nodes_def merge_node_def assms(1,2) add_node_def touch_def)
  then have "r1 = fst (touch (snd (clock 0)) (put_node ?info (?mo t)))"
      "t1 = snd (touch (snd (clock 0)) (put_node ?info (?mo t)))"
    using assms(10) by (metis fst_conv, metis snd_conv)
  then have t1: "r1 = Ret ()" "tp_nodes t1 = hm_insert (mn_node_id n) ?info (tp_nodes t)"
      "hm_get (tp_partitions t1) ?p = Some (mn_node_id n)"
    using clock(2) nodes [of t] info by (simp_all add: put_node_def hashmap_simps)
  have 2: "sync_topology parse clock \<pi> resp t1 = (Ret (), ?mo t1)"
    using t1(2) nodes [of t1] by (simp add: sync_topology_def merge_nodes_def merge_node_def assms(1,2) hashmap_simps)
  have "get_node_for_partition ?p t1 = Some ?info"
    using t1 by (simp add: get_node_for_partition_def hashmap_simps)
  moreover have "get_node_for_partition ?p (?mo t1) = None"
    using t1(2) own [of t1] nodes [of t1] assms(5,7) by (simp add: get_node_for_partition_def hashmap_simps)
  ultimately show ?thesis using t1(1) 2 assms(11) info(1) by auto
qed

definition peer_answer :: mesh_topology_response where
  "peer_answer = \<lparr>mt_nodes = [\<lparr>mn_node_id = ''b'', mn_address = ''10.0.0.2'', mn_port = 50052, mn_partition_id = 1,
     mn_total_partitions = 3, mn_is_alive = True, mn_last_seen_timestamp = 0, mn_metadata = []\<rparr>],
     mt_partition_owners = [(1, ''o'')], mt_cluster_size = 1\<rparr>"

lemma resync_breaks_routing_example:
  "get_node_for_partition 1 (snd (sync_topology (\<lambda>_ _. None) (\<lambda>_. (5, 5)) rev peer_answer
     (snd (sync_topology (\<lambda>_ _. None) (\<lambda>_. (5, 5)) rev peer_answer (ms_topology example_mesh))))) = None"
  using resync_breaks_routing [OF _ _ _ _ _ _ _ hash_order_rev _ surjective_pairing surjective_pairing,
      of peer_answer _ "''o''" "ms_topology example_mesh" "\<lambda>_. (5, 5)" "\<lambda>_ _. None"]
  by (simp add: peer_answer_def example_mesh_def)

end
