(* ===== verification/Health.thy ===== *)
theory Health
  imports Rafka_Prelude
begin

text \<open>
  Health checks, the circuit breaker and the heartbeat table, \<^verbatim>\<open>crates/core/src/health.rs\<close>. Every
  operation holds the locks of the tables it changes for its whole body; the background tasks of
  \<open>start_scheduler\<close> and \<open>start_checker\<close> are single rounds. Failure counters are \<open>u32\<close>.
\<close>

section \<open>Health checks\<close>

datatype health_status = Healthy | Degraded | Unhealthy | Unknown

record health_check =
  hc_component :: string
  hc_status :: health_status
  hc_message :: string
  hc_timestamp :: systime
  hc_details :: "(string, string) hashmap"

definition hc_healthy :: "systime \<Rightarrow> string \<Rightarrow> health_check" where
  "hc_healthy now component =
     \<lparr>hc_component = component, hc_status = Healthy, hc_message = ''OK'', hc_timestamp = now, hc_details = []\<rparr>"

definition hc_degraded :: "systime \<Rightarrow> string \<Rightarrow> string \<Rightarrow> health_check" where
  "hc_degraded now component message =
     \<lparr>hc_component = component, hc_status = Degraded, hc_message = message, hc_timestamp = now, hc_details = []\<rparr>"

definition hc_unhealthy :: "systime \<Rightarrow> string \<Rightarrow> string \<Rightarrow> health_check" where
  "hc_unhealthy now component message =
     \<lparr>hc_component = component, hc_status = Unhealthy, hc_message = message, hc_timestamp = now, hc_details = []\<rparr>"

definition with_detail :: "string \<Rightarrow> string \<Rightarrow> health_check \<Rightarrow> health_check" where
  "with_detail key val c = c\<lparr>hc_details := hm_insert key val (hc_details c)\<rparr>"

section \<open>The monitor\<close>

record health_monitor =
  hm_checks :: "(string, health_check) hashmap"
  hm_check_interval :: duration
  hm_failure_threshold :: nat
  hm_failure_counts :: "(string, nat) hashmap"

type_synonym check_order = "(string \<times> health_check) list \<Rightarrow> (string \<times> health_check) list"

definition hm_new :: "duration \<Rightarrow> nat \<Rightarrow> health_monitor" where
  "hm_new check_interval failure_threshold =
     \<lparr>hm_checks = [], hm_check_interval = check_interval, hm_failure_threshold = failure_threshold,
      hm_failure_counts = []\<rparr>"

definition register_check :: "health_check \<Rightarrow> health_monitor \<Rightarrow> health_monitor" where
  "register_check c m = m\<lparr>hm_checks := hm_insert (hc_component c) c (hm_checks m)\<rparr>"

text \<open>\<open>*count += 1\<close> on the entry, which is created with zero first.\<close>

definition count_failure ::
  "bool \<Rightarrow> string \<Rightarrow> (string, nat) hashmap \<Rightarrow> unit outcome \<times> (string, nat) hashmap" where
  "count_failure ovf component failures =
     (let k = (case hm_get failures component of Some n \<Rightarrow> n | None \<Rightarrow> 0)
      in case arith_u 32 ovf (int k + 1) of
           Ret n \<Rightarrow> (Ret (), hm_insert component n failures)
         | Panic \<Rightarrow> (Panic, hm_insert component k failures)
         | Block \<Rightarrow> (Block, failures))"

definition update_check ::
  "bool \<Rightarrow> systime \<Rightarrow> string \<Rightarrow> health_status \<Rightarrow> string \<Rightarrow> health_monitor \<Rightarrow> unit outcome \<times> health_monitor" where
  "update_check ovf now component status message m =
     (let m1 = m\<lparr>hm_checks := AList.map_entry component
            (\<lambda>c. c\<lparr>hc_status := status, hc_message := message, hc_timestamp := now\<rparr>) (hm_checks m)\<rparr>
      in case status of
           Unhealthy \<Rightarrow>
             (case count_failure ovf component (hm_failure_counts m) of
                (r, fs) \<Rightarrow> (r, m1\<lparr>hm_failure_counts := fs\<rparr>))
         | Healthy \<Rightarrow> (Ret (), m1\<lparr>hm_failure_counts := hm_remove component (hm_failure_counts m)\<rparr>)
         | _ \<Rightarrow> (Ret (), m1))"

definition get_all_checks :: "check_order \<Rightarrow> health_monitor \<Rightarrow> health_check list" where
  "get_all_checks \<pi> m = map snd (\<pi> (hm_checks m))"

text \<open>The two flags of the loop of \<open>get_overall_status\<close>.\<close>

fun status_flags :: "health_check list \<Rightarrow> bool \<Rightarrow> bool \<Rightarrow> bool \<times> bool" where
  "status_flags [] has_unhealthy has_degraded = (has_unhealthy, has_degraded)"
| "status_flags (c # cs) has_unhealthy has_degraded =
     (case hc_status c of
        Unhealthy \<Rightarrow> status_flags cs True has_degraded
      | Degraded \<Rightarrow> status_flags cs has_unhealthy True
      | _ \<Rightarrow> status_flags cs has_unhealthy has_degraded)"

definition get_overall_status :: "check_order \<Rightarrow> health_monitor \<Rightarrow> health_status" where
  "get_overall_status \<pi> m =
     (if hm_checks m = [] then Unknown
      else case status_flags (map snd (\<pi> (hm_checks m))) False False of
        (has_unhealthy, has_degraded) \<Rightarrow>
          if has_unhealthy then Unhealthy else if has_degraded then Degraded else Healthy)"

definition is_circuit_broken :: "string \<Rightarrow> health_monitor \<Rightarrow> bool" where
  "is_circuit_broken component m =
     (case hm_get (hm_failure_counts m) component of
        Some k \<Rightarrow> k \<ge> hm_failure_threshold m
      | None \<Rightarrow> False)"

definition reset_failures :: "string \<Rightarrow> health_monitor \<Rightarrow> health_monitor" where
  "reset_failures component m = m\<lparr>hm_failure_counts := hm_remove component (hm_failure_counts m)\<rparr>"

text \<open>One round of the scheduler with the checks that \<open>check_fn\<close> returned.\<close>

definition scheduler_round :: "health_check list \<Rightarrow> health_monitor \<Rightarrow> health_monitor" where
  "scheduler_round new_checks m =
     m\<lparr>hm_checks := fold (\<lambda>c. hm_insert (hc_component c) c) new_checks (hm_checks m)\<rparr>"

section \<open>The heartbeat table\<close>

record heartbeat_manager =
  hb_last_heartbeats :: "(string, systime) hashmap"
  hb_timeout :: duration

type_synonym beat_order = "(string \<times> systime) list \<Rightarrow> (string \<times> systime) list"

definition hb_new :: "duration \<Rightarrow> heartbeat_manager" where
  "hb_new timeout = \<lparr>hb_last_heartbeats = [], hb_timeout = timeout\<rparr>"

definition record_heartbeat :: "systime \<Rightarrow> string \<Rightarrow> heartbeat_manager \<Rightarrow> heartbeat_manager" where
  "record_heartbeat now broker_id h =
     h\<lparr>hb_last_heartbeats := hm_insert broker_id now (hb_last_heartbeats h)\<rparr>"

definition is_alive :: "systime \<Rightarrow> string \<Rightarrow> heartbeat_manager \<Rightarrow> bool" where
  "is_alive now broker_id h =
     (case hm_get (hb_last_heartbeats h) broker_id of
        Some t0 \<Rightarrow>
          (case duration_since now t0 of
             Some elapsed \<Rightarrow> elapsed < hb_timeout h
           | None \<Rightarrow> False)
      | None \<Rightarrow> False)"

definition beat_timed_out :: "systime \<Rightarrow> duration \<Rightarrow> systime \<Rightarrow> bool" where
  "beat_timed_out now timeout t0 =
     (case duration_since now t0 of
        Some elapsed \<Rightarrow> elapsed \<ge> timeout
      | None \<Rightarrow> False)"

definition get_dead_brokers :: "beat_order \<Rightarrow> systime \<Rightarrow> heartbeat_manager \<Rightarrow> string list" where
  "get_dead_brokers \<pi> now h =
     map fst (filter (\<lambda>(_, t0). beat_timed_out now (hb_timeout h) t0) (\<pi> (hb_last_heartbeats h)))"

definition hb_remove_broker :: "string \<Rightarrow> heartbeat_manager \<Rightarrow> heartbeat_manager" where
  "hb_remove_broker broker_id h = h\<lparr>hb_last_heartbeats := hm_remove broker_id (hb_last_heartbeats h)\<rparr>"

text \<open>One round of the checker: the identifiers handed to \<open>on_dead\<close>, in order. The table stays.\<close>

definition checker_round :: "beat_order \<Rightarrow> systime \<Rightarrow> heartbeat_manager \<Rightarrow> string list \<times> heartbeat_manager" where
  "checker_round \<pi> now h = (get_dead_brokers \<pi> now h, h)"

text \<open>\<open>tokio::time::interval\<close> panics on a zero period; the period is half the timeout.\<close>

definition start_checker :: "heartbeat_manager \<Rightarrow> unit outcome" where
  "start_checker h = (if hb_timeout h div 2 = 0 then Panic else Ret ())"

section \<open>Laws\<close>

lemma status_flags_eq:
  "status_flags cs u d = (u \<or> (\<exists>c \<in> set cs. hc_status c = Unhealthy), d \<or> (\<exists>c \<in> set cs. hc_status c = Degraded))"
  by (induction cs u d rule: status_flags.induct) (auto split: health_status.splits)

text \<open>The overall status is the worst one registered, in every iteration order.\<close>

lemma overall_status_worst:
  assumes "hash_order \<pi>"
  shows "get_overall_status \<pi> m =
     (if hm_checks m = [] then Unknown
      else if \<exists>c \<in> snd ` set (hm_checks m). hc_status c = Unhealthy then Unhealthy
      else if \<exists>c \<in> snd ` set (hm_checks m). hc_status c = Degraded then Degraded else Healthy)"
  by (simp add: get_overall_status_def status_flags_eq hash_order_set [OF assms])

lemma beat_timed_out_iff: "beat_timed_out now timeout t0 \<longleftrightarrow> t0 \<le> now \<and> int timeout \<le> now - t0"
  by (auto simp: beat_timed_out_def duration_since_def)

lemma is_alive_iff:
  "is_alive now i h \<longleftrightarrow> (\<exists>t0. hm_get (hb_last_heartbeats h) i = Some t0 \<and> t0 \<le> now \<and> now - t0 < int (hb_timeout h))"
  by (auto simp: is_alive_def duration_since_def split: option.splits)

lemma dead_brokers_iff:
  assumes "hash_order \<pi>" and "hm_wf (hb_last_heartbeats h)"
  shows "i \<in> set (get_dead_brokers \<pi> now h) \<longleftrightarrow>
     (\<exists>t0. hm_get (hb_last_heartbeats h) i = Some t0 \<and> t0 \<le> now \<and> int (hb_timeout h) \<le> now - t0)"
  using assms(2) hash_order_set [OF assms(1), of "hb_last_heartbeats h"]
  by (force simp: get_dead_brokers_def beat_timed_out_iff image_iff)

section \<open>The circuit breaker as an abstract machine\<close>

text \<open>The calls that change the monitor, and the abstract state they act on: one counter per component.\<close>

datatype health_event =
    EvRegister health_check
  | EvUpdate systime string health_status string
  | EvReset string
  | EvSchedule "health_check list"

fun health_step :: "bool \<Rightarrow> health_event \<Rightarrow> health_monitor \<Rightarrow> unit outcome \<times> health_monitor" where
  "health_step ovf (EvRegister c) m = (Ret (), register_check c m)"
| "health_step ovf (EvUpdate now component status message) m = update_check ovf now component status message m"
| "health_step ovf (EvReset component) m = (Ret (), reset_failures component m)"
| "health_step ovf (EvSchedule cs) m = (Ret (), scheduler_round cs m)"

fun spec_step :: "health_event \<Rightarrow> (string \<Rightarrow> nat) \<Rightarrow> string \<Rightarrow> nat" where
  "spec_step (EvUpdate _ component Unhealthy _) f = f(component := Suc (f component))"
| "spec_step (EvUpdate _ component Healthy _) f = f(component := 0)"
| "spec_step (EvReset component) f = f(component := 0)"
| "spec_step _ f = f"

definition abs_failures :: "health_monitor \<Rightarrow> string \<Rightarrow> nat" where
  "abs_failures m component = (case hm_get (hm_failure_counts m) component of Some n \<Rightarrow> n | None \<Rightarrow> 0)"

text \<open>Counters in the table are positive, so an absent counter is the same as zero.\<close>

definition counts_ok :: "health_monitor \<Rightarrow> bool" where
  "counts_ok m \<longleftrightarrow> (\<forall>c n. hm_get (hm_failure_counts m) c = Some n \<longrightarrow> 0 < n)"

lemma count_failure_ok:
  assumes "Suc n < 2 ^ 32" and "n = (case hm_get fs c of Some n \<Rightarrow> n | None \<Rightarrow> 0)"
  shows "count_failure ovf c fs = (Ret (), hm_insert c (Suc n) fs)"
proof -
  have "in_u 32 (int n + 1)" using assms(1) by (simp add: in_u_def)
  then have "arith_u 32 ovf (int n + 1) = Ret (Suc n)" by (simp add: nat_add_distrib)
  with assms(2) show ?thesis by (simp add: count_failure_def Let_def)
qed

lemma health_step_refines:
  assumes "counts_ok m" and "\<forall>c. Suc (abs_failures m c) < 2 ^ 32"
  shows "\<exists>m'. health_step ovf e m = (Ret (), m') \<and> abs_failures m' = spec_step e (abs_failures m)
     \<and> counts_ok m' \<and> hm_failure_threshold m' = hm_failure_threshold m"
proof (cases e)
  case (EvUpdate now component status message)
  let ?n = "abs_failures m component"
  show ?thesis
  proof (cases status)
    case Unhealthy
    have "count_failure ovf component (hm_failure_counts m) = (Ret (), hm_insert component (Suc ?n) (hm_failure_counts m))"
      using assms(2) by (intro count_failure_ok) (simp_all add: abs_failures_def)
    then show ?thesis using EvUpdate Unhealthy assms(1)
      by (auto simp: update_check_def abs_failures_def counts_ok_def hashmap_simps fun_eq_iff)
  qed (use EvUpdate assms(1) in \<open>auto simp: update_check_def abs_failures_def counts_ok_def hashmap_simps fun_eq_iff\<close>)
qed (use assms(1) in \<open>auto simp: register_check_def reset_failures_def scheduler_round_def abs_failures_def
    counts_ok_def hashmap_simps fun_eq_iff\<close>)

lemma spec_step_bound: "\<forall>c. f c \<le> k \<Longrightarrow> spec_step e f c \<le> Suc k"
  by (cases "(e, f)" rule: spec_step.cases) (auto intro: le_SucI)

lemma health_run_refines:
  assumes "counts_ok m" and "\<forall>c. abs_failures m c \<le> k" and "k + length es < 2 ^ 32"
  shows "\<exists>m'. run_ops (map (health_step ovf) es) m = (Ret (), m') \<and> abs_failures m' = fold spec_step es (abs_failures m)
     \<and> counts_ok m' \<and> hm_failure_threshold m' = hm_failure_threshold m"
  using assms
proof (induction es arbitrary: m k)
  case (Cons e es)
  have "\<forall>c. Suc (abs_failures m c) < 2 ^ 32"
  proof
    fix c
    have "abs_failures m c \<le> k" using Cons.prems(2) by blast
    with Cons.prems(3) show "Suc (abs_failures m c) < 2 ^ 32" by simp
  qed
  from health_step_refines [OF Cons.prems(1) this, of ovf e]
  obtain m1 where m1: "health_step ovf e m = (Ret (), m1)" "abs_failures m1 = spec_step e (abs_failures m)"
    "counts_ok m1" "hm_failure_threshold m1 = hm_failure_threshold m" by blast
  have "\<forall>c. abs_failures m1 c \<le> Suc k" unfolding m1(2) using spec_step_bound [OF Cons.prems(2)] by blast
  moreover have "Suc k + length es < 2 ^ 32" using Cons.prems(3) by simp
  ultimately show ?case using Cons.IH [OF m1(3)] m1 by fastforce
qed simp

section \<open>Properties\<close>

text \<open>
  Property C36: the circuit breaker implements its abstract specification. After any sequence of
  fewer than \<open>2 ^ 32\<close> calls on a new monitor with a positive threshold no call has panicked, and the
  breaker of a component is open exactly if at least as many \<open>Unhealthy\<close> updates as the threshold
  came since the last \<open>Healthy\<close> update or reset of the component; registrations and scheduler
  rounds, even with \<open>Unhealthy\<close> checks, do not count.
\<close>

theorem circuit_breaker_refines:
  assumes "0 < threshold" and "length es < 2 ^ 32"
    and "run_ops (map (health_step ovf) es) (hm_new interval threshold) = (r, m)"
  shows "r = Ret () \<and> (is_circuit_broken c m \<longleftrightarrow> threshold \<le> fold spec_step es (\<lambda>_. 0) c)"
proof -
  have new: "counts_ok (hm_new interval threshold)" "abs_failures (hm_new interval threshold) = (\<lambda>_. 0)"
    by (simp_all add: counts_ok_def abs_failures_def hm_new_def fun_eq_iff)
  then have "r = Ret ()" and f: "abs_failures m = fold spec_step es (\<lambda>_. 0)" and t: "hm_failure_threshold m = threshold"
    using health_run_refines [OF new(1), of 0 es ovf] assms(2,3) by (auto simp: hm_new_def)
  moreover have "is_circuit_broken c m \<longleftrightarrow> threshold \<le> abs_failures m c"
    using assms(1) t by (auto simp: is_circuit_broken_def abs_failures_def split: option.split)
  ultimately show ?thesis by simp
qed

theorem circuit_breaker_refines_witness:
  "is_circuit_broken ''db'' (snd (run_ops (map (health_step True)
     [EvUpdate 1 ''db'' Unhealthy ''down'', EvUpdate 2 ''db'' Degraded ''slow'', EvUpdate 3 ''db'' Unhealthy ''down''])
     (hm_new (secs 5) 2)))"
  using circuit_breaker_refines [OF _ _ surjective_pairing, of 2
      "[EvUpdate 1 ''db'' Unhealthy ''down'', EvUpdate 2 ''db'' Degraded ''slow'', EvUpdate 3 ''db'' Unhealthy ''down'']"
      True "secs 5" "''db''"]
  by simp

text \<open>
  Alive and dead brokers. A broker that sent a heartbeat is alive until the timeout has
  passed since then and is reported dead by every later checker round, each time, until it is
  removed or sends another one; before the time of its own heartbeat (after the clock was set back)
  it is neither.
\<close>

lemma heartbeat_alive_or_dead:
  assumes "hash_order \<pi>" and "hm_wf (hb_last_heartbeats h)" and "h' = record_heartbeat t i h"
  shows "(is_alive now i h' \<longleftrightarrow> t \<le> now \<and> now < t + int (hb_timeout h))
     \<and> (i \<in> set (fst (checker_round \<pi> now h')) \<longleftrightarrow> t \<le> now \<and> t + int (hb_timeout h) \<le> now)
     \<and> (i \<in> set (fst (checker_round \<pi> now h')) \<longrightarrow> snd (checker_round \<pi> now h') = h'
          \<and> (\<forall>later \<ge> now. i \<in> set (fst (checker_round \<pi> later (snd (checker_round \<pi> now h'))))))
     \<and> \<not> is_alive now i (hb_remove_broker i h') \<and> i \<notin> set (fst (checker_round \<pi> now (hb_remove_broker i h')))"
proof -
  have get: "hm_get (hb_last_heartbeats h') i = Some t" "hb_timeout h' = hb_timeout h" "hm_wf (hb_last_heartbeats h')"
    using assms(2,3) by (simp_all add: record_heartbeat_def hashmap_simps)
  have "hm_get (hb_last_heartbeats (hb_remove_broker i h')) i = None" "hm_wf (hb_last_heartbeats (hb_remove_broker i h'))"
    using get(3) by (simp_all add: hb_remove_broker_def hashmap_simps)
  then have gone: "\<not> is_alive now i (hb_remove_broker i h')" "i \<notin> set (get_dead_brokers \<pi> now (hb_remove_broker i h'))"
    using dead_brokers_iff [OF assms(1), of "hb_remove_broker i h'"] by (simp_all add: is_alive_iff del: map_of_eq_Some_iff)
  have dead: "i \<in> set (get_dead_brokers \<pi> n h') \<longleftrightarrow> t \<le> n \<and> t + int (hb_timeout h) \<le> n" for n
    using dead_brokers_iff [OF assms(1) get(3)] get(1,2) by (auto simp del: map_of_eq_Some_iff)
  have alive: "is_alive now i h' \<longleftrightarrow> t \<le> now \<and> now < t + int (hb_timeout h)"
    using get(1,2) by (auto simp: is_alive_iff simp del: map_of_eq_Some_iff)
  show ?thesis by (simp add: checker_round_def dead alive gone)
qed

lemma heartbeat_alive_or_dead_example:
  "''b'' \<in> set (fst (checker_round rev 50 (record_heartbeat 10 ''b'' (hb_new 30))))"
  using heartbeat_alive_or_dead [OF hash_order_rev _ refl, of "hb_new 30" 50 "''b''" 10] by (simp add: hb_new_def)

end
