(* ===== verification/Monitoring.thy ===== *)
theory Monitoring
  imports Rafka_Prelude Complex_Main
begin

text \<open>
  Rate counters, latency histograms and the metrics collector, \<^verbatim>\<open>crates/core/src/monitoring.rs\<close>.
  An \<open>f64\<close> is the rational number it stands for; every floating-point operation is the exact one
  followed by the rounding \<open>fl\<close>, which is an argument (infinities and NaN do not occur: no division
  has a zero divisor). Atomic counters wrap around in every build profile, plain \<open>u64\<close> arithmetic
  follows the profile.
\<close>

type_synonym f64 = rat
type_synonym rounding = "rat \<Rightarrow> rat"

section \<open>Rate counters\<close>

record rate_counter =
  rc_count :: nat
  rc_last_count :: nat
  rc_last_update :: systime

definition rc_new :: "systime \<Rightarrow> rate_counter" where
  "rc_new now = \<lparr>rc_count = 0, rc_last_count = 0, rc_last_update = now\<rparr>"

definition rc_add :: "nat \<Rightarrow> rate_counter \<Rightarrow> rate_counter" where
  "rc_add v c = c\<lparr>rc_count := wrap_u 64 (int (rc_count c) + int v)\<rparr>"

definition rc_increment :: "rate_counter \<Rightarrow> rate_counter" where
  "rc_increment c = rc_add 1 c"

definition rc_get_total :: "rate_counter \<Rightarrow> nat" where
  "rc_get_total c = rc_count c"

definition as_secs_f64 :: "rounding \<Rightarrow> duration \<Rightarrow> f64" where
  "as_secs_f64 fl d =
     fl (fl (of_nat (d div 1000000000)) + fl (fl (of_nat (d mod 1000000000)) / fl 1000000000))"

definition rc_get_rate :: "rounding \<Rightarrow> bool \<Rightarrow> systime \<Rightarrow> rate_counter \<Rightarrow> f64 outcome \<times> rate_counter" where
  "rc_get_rate fl ovf now c =
     (let elapsed = (case duration_since now (rc_last_update c) of Some d \<Rightarrow> d | None \<Rightarrow> secs 1);
          c' = c\<lparr>rc_last_count := rc_count c, rc_last_update := now\<rparr>
      in if as_secs elapsed > 0
         then (case arith_u 64 ovf (int (rc_count c) - int (rc_last_count c)) of
                 Ret d \<Rightarrow> (Ret (fl (fl (of_nat d) / as_secs_f64 fl elapsed)), c')
               | Panic \<Rightarrow> (Panic, c)
               | Block \<Rightarrow> (Block, c))
         else (Ret 0, c'))"

section \<open>Histograms\<close>

record histogram =
  hg_buckets :: "nat list"
  hg_bucket_bounds :: "nat list"

definition hg_new :: "nat list \<Rightarrow> histogram" where
  "hg_new bounds = \<lparr>hg_buckets = replicate (length bounds + 1) 0, hg_bucket_bounds = bounds\<rparr>"

text \<open>The position of the first bound above the value, or the number of bounds.\<close>

definition bucket_index :: "nat list \<Rightarrow> nat \<Rightarrow> nat" where
  "bucket_index bounds v = length (takeWhile (\<lambda>bound. \<not> v < bound) bounds)"

definition hg_record :: "bool \<Rightarrow> nat \<Rightarrow> histogram \<Rightarrow> unit outcome \<times> histogram" where
  "hg_record ovf v h =
     (let i = bucket_index (hg_bucket_bounds h) v in
      if i < length (hg_buckets h)
      then (case arith_u 64 ovf (int (hg_buckets h ! i) + 1) of
              Ret n \<Rightarrow> (Ret (), h\<lparr>hg_buckets := (hg_buckets h)[i := n]\<rparr>)
            | Panic \<Rightarrow> (Panic, h)
            | Block \<Rightarrow> (Block, h))
      else (Panic, h))"

text \<open>The saturating cast \<open>as u64\<close> of a floating-point number.\<close>

definition cast_u64 :: "f64 \<Rightarrow> nat" where
  "cast_u64 x = min (nat \<lfloor>x\<rfloor>) (2 ^ 64 - 1)"

definition bounds_last :: "nat list \<Rightarrow> nat" where
  "bounds_last bounds = (if bounds = [] then 0 else last bounds)"

fun percentile_loop :: "bool \<Rightarrow> nat list \<Rightarrow> nat \<Rightarrow> nat \<Rightarrow> nat \<Rightarrow> nat list \<Rightarrow> nat outcome" where
  "percentile_loop ovf bounds target i cumulative [] = Ret (bounds_last bounds)"
| "percentile_loop ovf bounds target i cumulative (n # ns) =
     (case arith_u 64 ovf (int cumulative + int n) of
        Ret cum \<Rightarrow>
          (if cum \<ge> target then Ret (if i = 0 then 0 else bounds ! (i - 1))
           else percentile_loop ovf bounds target (Suc i) cum ns)
      | Panic \<Rightarrow> Panic
      | Block \<Rightarrow> Block)"

definition percentile_target :: "rounding \<Rightarrow> nat \<Rightarrow> f64 \<Rightarrow> nat" where
  "percentile_target fl tot percentile = cast_u64 (fl (fl (of_nat tot) * percentile))"

definition hg_get_percentile :: "rounding \<Rightarrow> bool \<Rightarrow> f64 \<Rightarrow> histogram \<Rightarrow> nat outcome" where
  "hg_get_percentile fl ovf percentile h =
     (case arith_u 64 ovf (int (sum_list (hg_buckets h))) of
        Ret tot \<Rightarrow>
          (if tot = 0 then Ret 0
           else percentile_loop ovf (hg_bucket_bounds h) (percentile_target fl tot percentile) 0 0 (hg_buckets h))
      | Panic \<Rightarrow> Panic
      | Block \<Rightarrow> Block)"

definition bucket_value :: "nat list \<Rightarrow> nat \<Rightarrow> nat" where
  "bucket_value bounds i =
     (if i = 0 then 0 else if i < length bounds then bounds ! (i - 1) else bounds_last bounds)"

fun average_loop :: "bool \<Rightarrow> nat list \<Rightarrow> nat \<Rightarrow> nat \<Rightarrow> nat list \<Rightarrow> nat outcome" where
  "average_loop ovf bounds i acc [] = Ret acc"
| "average_loop ovf bounds i acc (n # ns) =
     (case arith_u 64 ovf (int (bucket_value bounds i) * int n) of
        Ret x \<Rightarrow>
          (case arith_u 64 ovf (int acc + int x) of
             Ret acc' \<Rightarrow> average_loop ovf bounds (Suc i) acc' ns
           | Panic \<Rightarrow> Panic
           | Block \<Rightarrow> Block)
      | Panic \<Rightarrow> Panic
      | Block \<Rightarrow> Block)"

definition hg_get_average :: "rounding \<Rightarrow> bool \<Rightarrow> histogram \<Rightarrow> f64 outcome" where
  "hg_get_average fl ovf h =
     (case arith_u 64 ovf (int (sum_list (hg_buckets h))) of
        Ret tot \<Rightarrow>
          (if tot = 0 then Ret 0
           else case average_loop ovf (hg_bucket_bounds h) 0 0 (hg_buckets h) of
             Ret x \<Rightarrow> Ret (fl (fl (of_nat x) / fl (of_nat tot)))
           | Panic \<Rightarrow> Panic
           | Block \<Rightarrow> Block)
      | Panic \<Rightarrow> Panic
      | Block \<Rightarrow> Block)"

section \<open>The collector\<close>

record topic_metrics =
  tm_topic_name :: string
  tm_partition_count :: nat
  tm_total_messages :: nat
  tm_total_bytes :: nat
  tm_messages_per_sec :: f64
  tm_bytes_per_sec :: f64
  tm_oldest_message_age_seconds :: nat
  tm_newest_message_age_seconds :: nat

record consumer_group_metrics =
  gx_group_id :: string
  gx_member_count :: nat
  gx_total_lag :: nat
  gx_max_lag :: nat
  gx_messages_consumed_per_sec :: f64
  gx_rebalance_count :: nat
  gx_last_rebalance :: "systime option"

record producer_metrics =
  pm_producer_id :: string
  pm_messages_sent :: nat
  pm_bytes_sent :: nat
  pm_messages_per_sec :: f64
  pm_avg_latency_ms :: f64
  pm_error_count :: nat
  pm_retry_count :: nat

record replication_metrics =
  rx_partition_id :: nat
  rx_leader_id :: string
  rx_isr_count :: nat
  rx_replica_count :: nat
  rx_max_lag :: nat
  rx_under_replicated :: bool

record disk_metrics =
  dm_wal_size_bytes :: nat
  dm_total_segments :: nat
  dm_active_segments :: nat
  dm_compacted_segments :: nat
  dm_last_compaction :: "systime option"
  dm_disk_free_bytes :: nat
  dm_disk_total_bytes :: nat

record metrics_collector =
  mc_broker_id :: string
  mc_start_time :: systime
  mc_messages_in :: rate_counter
  mc_messages_out :: rate_counter
  mc_bytes_in :: rate_counter
  mc_bytes_out :: rate_counter
  mc_errors :: nat
  mc_retries :: nat
  mc_publish_latency :: histogram
  mc_consume_latency :: histogram
  mc_replication_latency :: histogram
  mc_topic_metrics :: "(string, topic_metrics) hashmap"
  mc_consumer_group_metrics :: "(string, consumer_group_metrics) hashmap"
  mc_producer_metrics :: "(string, producer_metrics) hashmap"
  mc_replication_metrics :: "(nat, replication_metrics) hashmap"
  mc_storage_metrics :: "disk_metrics option"

definition latency_bounds :: "nat list" where
  "latency_bounds = [1, 5, 10, 25, 50, 100, 250, 500, 1000, 5000]"

text \<open>\<open>clock k\<close> is the \<open>k\<close>-th reading of the clock.\<close>

definition mc_new :: "(nat \<Rightarrow> systime) \<Rightarrow> string \<Rightarrow> metrics_collector" where
  "mc_new clock broker_id =
     \<lparr>mc_broker_id = broker_id, mc_start_time = clock 0, mc_messages_in = rc_new (clock 1),
      mc_messages_out = rc_new (clock 2), mc_bytes_in = rc_new (clock 3), mc_bytes_out = rc_new (clock 4),
      mc_errors = 0, mc_retries = 0, mc_publish_latency = hg_new latency_bounds,
      mc_consume_latency = hg_new latency_bounds, mc_replication_latency = hg_new latency_bounds,
      mc_topic_metrics = [], mc_consumer_group_metrics = [], mc_producer_metrics = [],
      mc_replication_metrics = [], mc_storage_metrics = None\<rparr>"

definition record_publish :: "bool \<Rightarrow> nat \<Rightarrow> nat \<Rightarrow> metrics_collector \<Rightarrow> unit outcome \<times> metrics_collector" where
  "record_publish ovf bytes latency_ms m =
     (case hg_record ovf latency_ms (mc_publish_latency m) of
        (r, h) \<Rightarrow> (r, m\<lparr>mc_messages_in := rc_increment (mc_messages_in m), mc_bytes_in := rc_add bytes (mc_bytes_in m),
                       mc_publish_latency := h\<rparr>))"

definition record_consume :: "bool \<Rightarrow> nat \<Rightarrow> nat \<Rightarrow> metrics_collector \<Rightarrow> unit outcome \<times> metrics_collector" where
  "record_consume ovf bytes latency_ms m =
     (case hg_record ovf latency_ms (mc_consume_latency m) of
        (r, h) \<Rightarrow> (r, m\<lparr>mc_messages_out := rc_increment (mc_messages_out m), mc_bytes_out := rc_add bytes (mc_bytes_out m),
                       mc_consume_latency := h\<rparr>))"

definition record_error :: "metrics_collector \<Rightarrow> metrics_collector" where
  "record_error m = m\<lparr>mc_errors := wrap_u 64 (int (mc_errors m) + 1)\<rparr>"

definition record_retry :: "metrics_collector \<Rightarrow> metrics_collector" where
  "record_retry m = m\<lparr>mc_retries := wrap_u 64 (int (mc_retries m) + 1)\<rparr>"

record broker_metrics =
  bm_broker_id :: string
  bm_uptime_seconds :: nat
  bm_total_topics :: nat
  bm_total_partitions :: nat
  bm_total_consumers :: nat
  bm_total_producers :: nat
  bm_messages_in_per_sec :: f64
  bm_messages_out_per_sec :: f64
  bm_bytes_in_per_sec :: f64
  bm_bytes_out_per_sec :: f64
  bm_active_connections :: nat
  bm_cpu_usage_percent :: f64
  bm_memory_usage_bytes :: nat
  bm_disk_usage_bytes :: nat
  bm_network_in_bytes :: nat
  bm_network_out_bytes :: nat

text \<open>The four rates in the order in which they are read; a panic ends the sequence.\<close>

definition read_rates ::
  "rounding \<Rightarrow> bool \<Rightarrow> (nat \<Rightarrow> systime) \<Rightarrow> metrics_collector \<Rightarrow> (f64 \<times> f64 \<times> f64 \<times> f64) outcome \<times> metrics_collector" where
  "read_rates fl ovf clock m =
     (case rc_get_rate fl ovf (clock 1) (mc_messages_in m) of
        (Ret a, c1) \<Rightarrow>
          (let m1 = m\<lparr>mc_messages_in := c1\<rparr> in
           case rc_get_rate fl ovf (clock 2) (mc_messages_out m) of
             (Ret b, c2) \<Rightarrow>
               (let m2 = m1\<lparr>mc_messages_out := c2\<rparr> in
                case rc_get_rate fl ovf (clock 3) (mc_bytes_in m) of
                  (Ret c, c3) \<Rightarrow>
                    (let m3 = m2\<lparr>mc_bytes_in := c3\<rparr> in
                     case rc_get_rate fl ovf (clock 4) (mc_bytes_out m) of
                       (Ret d, c4) \<Rightarrow> (Ret (a, b, c, d), m3\<lparr>mc_bytes_out := c4\<rparr>)
                     | (Panic, _) \<Rightarrow> (Panic, m3)
                     | (Block, _) \<Rightarrow> (Block, m3))
                | (Panic, _) \<Rightarrow> (Panic, m2)
                | (Block, _) \<Rightarrow> (Block, m2))
           | (Panic, _) \<Rightarrow> (Panic, m1)
           | (Block, _) \<Rightarrow> (Block, m1))
      | (Panic, _) \<Rightarrow> (Panic, m)
      | (Block, _) \<Rightarrow> (Block, m))"

text \<open>The readings of the system are placeholders in the code.\<close>

definition get_cpu_usage :: f64 where
  "get_cpu_usage = 0"

definition get_memory_usage :: nat where
  "get_memory_usage = 0"

definition get_disk_usage :: nat where
  "get_disk_usage = 0"

definition get_broker_metrics ::
  "rounding \<Rightarrow> bool \<Rightarrow> (nat \<Rightarrow> systime) \<Rightarrow> nat \<Rightarrow> nat \<Rightarrow> nat \<Rightarrow> nat \<Rightarrow> nat \<Rightarrow> metrics_collector \<Rightarrow>
   broker_metrics outcome \<times> metrics_collector" where
  "get_broker_metrics fl ovf clock topics partitions consumers producers connections m =
     (let uptime = as_secs (case duration_since (clock 0) (mc_start_time m) of Some d \<Rightarrow> d | None \<Rightarrow> secs 0)
      in case read_rates fl ovf clock m of
           (Ret (a, b, c, d), m') \<Rightarrow>
             (Ret \<lparr>bm_broker_id = mc_broker_id m, bm_uptime_seconds = uptime, bm_total_topics = topics,
                bm_total_partitions = partitions, bm_total_consumers = consumers, bm_total_producers = producers,
                bm_messages_in_per_sec = a, bm_messages_out_per_sec = b, bm_bytes_in_per_sec = c,
                bm_bytes_out_per_sec = d, bm_active_connections = connections, bm_cpu_usage_percent = get_cpu_usage,
                bm_memory_usage_bytes = get_memory_usage, bm_disk_usage_bytes = get_disk_usage,
                bm_network_in_bytes = rc_get_total (mc_bytes_in m'), bm_network_out_bytes = rc_get_total (mc_bytes_out m')\<rparr>, m')
         | (Panic, m') \<Rightarrow> (Panic, m')
         | (Block, m') \<Rightarrow> (Block, m'))"

text \<open>
  The exposition text: for each metric a help line, a type line and the sample; \<open>show_f2\<close> is the
  formatter \<open>{:.2}\<close>.
\<close>

definition exposition :: "string \<Rightarrow> string \<Rightarrow> string \<Rightarrow> string \<Rightarrow> string \<Rightarrow> string" where
  "exposition broker_id name help_text kind sample =
     ''# HELP '' @ name @ '' '' @ help_text @ [CHR 0x0A] @ ''# TYPE '' @ name @ '' '' @ kind @ [CHR 0x0A] @
     name @ ''{broker='' @ [CHR 0x22] @ broker_id @ [CHR 0x22] @ ''} '' @ sample @ [CHR 0x0A]"

definition export_prometheus :: "rounding \<Rightarrow> (f64 \<Rightarrow> string) \<Rightarrow> bool \<Rightarrow> metrics_collector \<Rightarrow> string outcome" where
  "export_prometheus fl show_f2 ovf m =
     (let line = exposition (mc_broker_id m) in
      case hg_get_average fl ovf (mc_publish_latency m) of
        Ret avg \<Rightarrow>
          (case hg_get_percentile fl ovf (fl (99 / 100)) (mc_publish_latency m) of
             Ret p \<Rightarrow> Ret (
               line ''rafka_messages_in_total'' ''Total messages received'' ''counter'' (show_nat (rc_get_total (mc_messages_in m))) @
               line ''rafka_messages_out_total'' ''Total messages sent'' ''counter'' (show_nat (rc_get_total (mc_messages_out m))) @
               line ''rafka_bytes_in_total'' ''Total bytes received'' ''counter'' (show_nat (rc_get_total (mc_bytes_in m))) @
               line ''rafka_bytes_out_total'' ''Total bytes sent'' ''counter'' (show_nat (rc_get_total (mc_bytes_out m))) @
               line ''rafka_errors_total'' ''Total errors'' ''counter'' (show_nat (mc_errors m)) @
               line ''rafka_publish_latency_avg_ms'' ''Average publish latency'' ''gauge'' (show_f2 avg) @
               line ''rafka_publish_latency_p99_ms'' ''99th percentile publish latency'' ''gauge'' (show_nat p))
           | Panic \<Rightarrow> Panic
           | Block \<Rightarrow> Block)
      | Panic \<Rightarrow> Panic
      | Block \<Rightarrow> Block)"

section \<open>Laws of the histogram\<close>

lemma bucket_index_mono: "v \<le> w \<Longrightarrow> bucket_index bounds v \<le> bucket_index bounds w"
  unfolding bucket_index_def by (induction bounds) auto

lemma bucket_index_bound: "bucket_index bounds v \<le> length bounds"
  unfolding bucket_index_def by (rule length_takeWhile_le)

definition in_bucket :: "nat list \<Rightarrow> nat \<Rightarrow> nat list \<Rightarrow> nat" where
  "in_bucket bounds i vs = length (filter (\<lambda>v. bucket_index bounds v = i) vs)"

definition below_bucket :: "nat list \<Rightarrow> nat \<Rightarrow> nat list \<Rightarrow> nat" where
  "below_bucket bounds i vs = length (filter (\<lambda>v. bucket_index bounds v < i) vs)"

definition tally :: "nat list \<Rightarrow> nat list \<Rightarrow> histogram" where
  "tally bounds vs = \<lparr>hg_buckets = map (\<lambda>i. in_bucket bounds i vs) [0..<Suc (length bounds)], hg_bucket_bounds = bounds\<rparr>"

lemma below_Suc: "below_bucket bounds (Suc i) vs = below_bucket bounds i vs + in_bucket bounds i vs"
  unfolding below_bucket_def in_bucket_def by (induction vs) auto

lemma below_zero [simp]: "below_bucket bounds 0 vs = 0"
  by (simp add: below_bucket_def)

lemma below_all: "below_bucket bounds (Suc (length bounds)) vs = length vs"
  by (simp add: below_bucket_def bucket_index_bound less_Suc_eq_le)

lemma below_le: "below_bucket bounds i vs \<le> length vs"
  by (simp add: below_bucket_def)

lemma in_bucket_le: "in_bucket bounds i vs \<le> length vs"
  by (simp add: in_bucket_def)

lemma sum_in_buckets: "sum_list (map (\<lambda>i. in_bucket bounds i vs) [0..<k]) = below_bucket bounds k vs"
  by (induction k) (simp_all add: below_Suc)

lemma arith_u64_ok: "n < 2 ^ 64 \<Longrightarrow> int n = z \<Longrightarrow> arith_u 64 ovf z = Ret n"
  by (auto simp: in_u_def)

lemma hg_record_tally:
  assumes "length vs + 1 < 2 ^ 64"
  shows "hg_record ovf v (tally bounds vs) = (Ret (), tally bounds (vs @ [v]))"
proof -
  let ?i = "bucket_index bounds v"
  have i: "?i < Suc (length bounds)" using bucket_index_bound [of bounds v] by simp
  have "arith_u 64 ovf (int (in_bucket bounds ?i vs) + 1) = Ret (Suc (in_bucket bounds ?i vs))"
    using assms in_bucket_le [of bounds ?i vs] by (intro arith_u64_ok) simp_all
  moreover have "(map (\<lambda>i. in_bucket bounds i vs) [0..<Suc (length bounds)])[?i := Suc (in_bucket bounds ?i vs)] =
      map (\<lambda>i. in_bucket bounds i (vs @ [v])) [0..<Suc (length bounds)]"
    by (rule nth_equalityI) (auto simp: in_bucket_def nth_list_update simp del: upt_Suc)
  ultimately show ?thesis using i by (simp add: hg_record_def tally_def del: upt_Suc)
qed

lemma hg_record_all:
  assumes "length us + length vs < 2 ^ 64"
  shows "run_ops (map (hg_record ovf) vs) (tally bounds us) = (Ret (), tally bounds (us @ vs))"
  using assms
proof (induction vs arbitrary: us)
  case (Cons v vs)
  then show ?case using hg_record_tally [of us ovf v bounds] by simp
qed simp

lemma hg_new_tally: "hg_new bounds = tally bounds []"
  by (auto simp: hg_new_def tally_def in_bucket_def map_replicate_const simp del: upt_Suc)

section \<open>Order statistics\<close>

lemma filter_sorted_takeWhile:
  "sorted xs \<Longrightarrow> (\<And>x y. x \<le> y \<Longrightarrow> P y \<Longrightarrow> P x) \<Longrightarrow> filter P xs = takeWhile P xs"
proof (induction xs)
  case (Cons a xs)
  have "filter P xs = []" if "\<not> P a" using Cons.prems that by (auto simp: filter_empty_conv)
  then show ?case using Cons by auto
qed simp

lemma order_statistic:
  fixes vs :: "nat list"
  assumes "\<And>x y. x \<le> y \<Longrightarrow> P y \<Longrightarrow> P x" and "0 < t" and "t \<le> length vs"
  shows "P (sort vs ! (t - 1)) \<longleftrightarrow> t \<le> length (filter P vs)"
proof -
  let ?xs = "sort vs"
  have tw: "filter P ?xs = takeWhile P ?xs" using assms(1) by (intro filter_sorted_takeWhile) simp_all
  have len: "length (filter P vs) = length (takeWhile P ?xs)"
    unfolding tw [symmetric] by (metis mset_filter mset_sort size_mset)
  show ?thesis
  proof
    assume p: "P (?xs ! (t - 1))"
    have "P (?xs ! i)" if "i < t" for i
    proof -
      have "?xs ! i \<le> ?xs ! (t - 1)" using that assms(2,3) by (intro sorted_nth_mono) simp_all
      then show ?thesis using p by (rule assms(1))
    qed
    then have "t \<le> length (takeWhile P ?xs)" using assms(3) by (intro length_takeWhile_less_P_nth) simp_all
    then show "t \<le> length (filter P vs)" by (simp only: len)
  next
    assume "t \<le> length (filter P vs)"
    then have *: "t - 1 < length (takeWhile P ?xs)" using assms(2) len by simp
    then have "takeWhile P ?xs ! (t - 1) = ?xs ! (t - 1)" by (rule takeWhile_nth)
    with * show "P (?xs ! (t - 1))" by (metis nth_mem set_takeWhileD)
  qed
qed

definition bucket_floor :: "nat list \<Rightarrow> nat \<Rightarrow> nat" where
  "bucket_floor bounds v = (let i = bucket_index bounds v in if i = 0 then 0 else bounds ! (i - 1))"

lemma bucket_floor_le: "bucket_floor bounds v \<le> v"
proof (cases "bucket_index bounds v = 0")
  case False
  let ?ws = "takeWhile (\<lambda>bound. \<not> v < bound) bounds"
  have i: "bucket_index bounds v - 1 < length ?ws" using False by (simp add: bucket_index_def)
  have "?ws ! (bucket_index bounds v - 1) \<in> set ?ws" using i by (rule nth_mem)
  then show ?thesis using False takeWhile_nth [OF i] by (auto simp: bucket_floor_def dest: set_takeWhileD)
qed (simp add: bucket_floor_def)

lemma percentile_loop_exact:
  assumes "length vs < 2 ^ 64" and "0 < t" and "t \<le> length vs" and "k = length bounds + 1 - i"
    and "i \<le> length bounds" and "below_bucket bounds i vs < t"
  shows "percentile_loop ovf bounds t i (below_bucket bounds i vs) (map (\<lambda>j. in_bucket bounds j vs) [i..<Suc (length bounds)])
     = Ret (bucket_floor bounds (sort vs ! (t - 1)))"
  using assms(4-)
proof (induction k arbitrary: i)
  case (Suc k)
  let ?v = "sort vs ! (t - 1)"
  have stat: "bucket_index bounds ?v < j \<longleftrightarrow> t \<le> below_bucket bounds j vs" for j
    unfolding below_bucket_def
    by (rule order_statistic [OF _ assms(2,3)]) (metis bucket_index_mono le_less_trans)
  have add: "arith_u 64 ovf (int (below_bucket bounds i vs) + int (in_bucket bounds i vs)) = Ret (below_bucket bounds (Suc i) vs)"
    using assms(1) below_le [of bounds "Suc i" vs] by (intro arith_u64_ok) (simp_all add: below_Suc)
  have upt: "[i..<Suc (length bounds)] = i # [Suc i..<Suc (length bounds)]"
    using Suc.prems(2) by (intro upt_conv_Cons) simp
  show ?case
  proof (cases "t \<le> below_bucket bounds (Suc i) vs")
    case True
    then have "bucket_index bounds ?v = i" using stat [of i] stat [of "Suc i"] Suc.prems(3) by simp
    then show ?thesis using True add by (simp add: upt bucket_floor_def Let_def del: upt_Suc)
  next
    case False
    then have "i \<noteq> length bounds" using below_all [of bounds vs] assms(3) by auto
    then have "percentile_loop ovf bounds t (Suc i) (below_bucket bounds (Suc i) vs)
        (map (\<lambda>j. in_bucket bounds j vs) [Suc i..<Suc (length bounds)]) = Ret (bucket_floor bounds ?v)"
      using False Suc.prems(1,2) by (intro Suc.IH) simp_all
    then show ?thesis using False add by (simp add: upt del: upt_Suc)
  qed
qed simp

section \<open>Properties\<close>

text \<open>
  Property C37: the percentile of a histogram is the order statistic, rounded down to its bucket.
  After recording any values, in any order, \<open>get_percentile\<close> returns the lower bound of the bucket of
  the \<open>t\<close>-th smallest recorded value, where \<open>t\<close> is the target rank the code computes; so it never
  exceeds that value.
\<close>

theorem percentile_is_order_statistic:
  assumes "length vs < 2 ^ 64" and "run_ops (map (hg_record ovf) vs) (hg_new bounds) = (r, h)"
    and "t = percentile_target fl (length vs) p" and "0 < t" and "t \<le> length vs"
  shows "r = Ret () \<and> hg_get_percentile fl ovf p h = Ret (bucket_floor bounds (sort vs ! (t - 1)))
     \<and> bucket_floor bounds (sort vs ! (t - 1)) \<le> sort vs ! (t - 1)"
proof -
  have rh: "r = Ret ()" "h = tally bounds vs"
    using assms(1,2) hg_record_all [of "[]" vs ovf bounds] by (simp_all add: hg_new_tally)
  have tot: "sum_list (hg_buckets h) = length vs"
    using sum_in_buckets [of bounds vs "Suc (length bounds)"] by (simp add: rh(2) tally_def below_all del: upt_Suc)
  have "arith_u 64 ovf (int (sum_list (hg_buckets h))) = Ret (length vs)"
    using assms(1) tot by (intro arith_u64_ok) simp_all
  moreover have "length vs \<noteq> 0" using assms(4,5) by linarith
  moreover have "percentile_loop ovf bounds t 0 0 (hg_buckets h) = Ret (bucket_floor bounds (sort vs ! (t - 1)))"
    using percentile_loop_exact [OF assms(1,4,5) refl, of 0 bounds ovf] assms(4) by (simp add: rh(2) tally_def del: upt_Suc)
  ultimately show ?thesis
    using assms(3) rh bucket_floor_le by (simp add: hg_get_percentile_def tally_def del: upt_Suc)
qed

theorem percentile_is_order_statistic_witness:
  "hg_get_percentile (\<lambda>x. x) True (1 / 2) (snd (run_ops (map (hg_record True) [75, 5, 25, 150]) (hg_new [10, 50, 100]))) = Ret 10"
proof -
  have "percentile_target (\<lambda>x. x) (length [75, 5, 25, 150 :: nat]) (1 / 2) = 2"
    by (simp add: percentile_target_def cast_u64_def)
  then show ?thesis
    using percentile_is_order_statistic [OF _ surjective_pairing refl, of "[75, 5, 25, 150]" "\<lambda>x. x" "1 / 2" True "[10, 50, 100]"]
    by (simp add: bucket_floor_def bucket_index_def)
qed

text \<open>A counter that is driven by additions and polls; the result is the list of reported rates.\<close>

datatype rate_event = RcAdd nat | RcPoll systime

fun poll_run :: "rounding \<Rightarrow> bool \<Rightarrow> rate_event list \<Rightarrow> rate_counter \<Rightarrow> f64 outcome list \<times> rate_counter" where
  "poll_run fl ovf [] c = ([], c)"
| "poll_run fl ovf (RcAdd v # es) c = poll_run fl ovf es (rc_add v c)"
| "poll_run fl ovf (RcPoll now # es) c =
     (case rc_get_rate fl ovf now c of (r, c') \<Rightarrow> (case poll_run fl ovf es c' of (rs, c'') \<Rightarrow> (r # rs, c'')))"

fun fast_polls :: "systime \<Rightarrow> rate_event list \<Rightarrow> bool" where
  "fast_polls t [] = True"
| "fast_polls t (RcAdd _ # es) = fast_polls t es"
| "fast_polls t (RcPoll now # es) = (t \<le> now \<and> now < t + 1000000000 \<and> fast_polls now es)"

text \<open>
  A rate that is polled more often than once per second is always reported as zero,
  whatever is counted in between: a poll within a second returns zero and still moves the reference
  point to the present.
\<close>

lemma fast_polls_report_zero:
  assumes "fast_polls (rc_last_update c) es"
  shows "\<forall>r \<in> set (fst (poll_run fl ovf es c)). r = Ret 0"
  using assms
proof (induction es arbitrary: c)
  case (Cons e es)
  show ?case
  proof (cases e)
    case (RcAdd v)
    then show ?thesis using Cons.prems Cons.IH [of "rc_add v c"] by (simp add: rc_add_def)
  next
    case (RcPoll now)
    have "nat (now - rc_last_update c) div 1000000000 = 0" using Cons.prems RcPoll by (intro div_less) auto
    then have "rc_get_rate fl ovf now c = (Ret 0, c\<lparr>rc_last_count := rc_count c, rc_last_update := now\<rparr>)"
      using Cons.prems RcPoll by (simp add: rc_get_rate_def duration_since_def as_secs_def Let_def)
    then show ?thesis using Cons.prems Cons.IH [of "c\<lparr>rc_last_count := rc_count c, rc_last_update := now\<rparr>"] RcPoll
      by (auto split: prod.splits)
  qed
qed simp

lemma fast_polls_report_zero_example:
  "fst (poll_run (\<lambda>x. x) True [RcAdd 100, RcPoll 100000000, RcAdd 50, RcPoll 900000000] (rc_new 0)) = [Ret 0, Ret 0]"
  using fast_polls_report_zero [of "rc_new 0" "[RcAdd 100, RcPoll 100000000, RcAdd 50, RcPoll 900000000]" "\<lambda>x. x" True]
  by (simp add: rc_new_def split: prod.splits)

end
