(* ===== verification/Utf8.thy ===== *)
theory Utf8
  imports Rafka_Prelude
begin

text \<open>
  The conversions between byte strings and strings that the broker uses. A Rust \<open>String\<close> is its
  UTF-8 byte string, here a list of \<open>char\<close> codes. \<open>String::from_utf8\<close> accepts exactly the
  well-formed UTF-8 byte strings; \<open>String::from_utf8_lossy\<close> replaces every maximal ill-formed
  part by the replacement character U+FFFD.
\<close>

definition bytes_string :: "byte list \<Rightarrow> string" where
  "bytes_string bs = map (\<lambda>b. char_of (unat b)) bs"

definition byte_in :: "nat \<Rightarrow> nat \<Rightarrow> byte \<Rightarrow> bool" where
  "byte_in lo hi b \<longleftrightarrow> lo \<le> unat b \<and> unat b \<le> hi"

text \<open>The bounds of the second byte for a lead byte of a three- or four-byte sequence.\<close>

definition second_ok :: "byte \<Rightarrow> byte \<Rightarrow> bool" where
  "second_ok b c =
     byte_in (if unat b = 224 then 160 else if unat b = 240 then 144 else 128)
             (if unat b = 237 then 159 else if unat b = 244 then 143 else 191) c"

text \<open>
  \<open>utf8_tail n bs\<close> counts how many of the next \<open>n\<close> bytes are continuation bytes; a sequence is
  well-formed if all are there, otherwise its ill-formed part ends at the first that is not.
\<close>

fun utf8_tail :: "nat \<Rightarrow> byte list \<Rightarrow> nat" where
  "utf8_tail (Suc n) (c # bs) = (if byte_in 128 191 c then Suc (utf8_tail n bs) else 0)"
| "utf8_tail n bs = 0"

definition utf8_long :: "nat \<Rightarrow> byte \<Rightarrow> byte list \<Rightarrow> bool \<times> nat" where
  "utf8_long n b bs =
     (case bs of
        [] \<Rightarrow> (False, 1)
      | c # cs \<Rightarrow> if \<not> second_ok b c then (False, 1)
                 else if utf8_tail n cs = n then (True, 2 + n) else (False, 2 + utf8_tail n cs))"

text \<open>Is there a well-formed sequence at the front, and how many bytes belong to the front part?\<close>

definition utf8_front :: "byte \<Rightarrow> byte list \<Rightarrow> bool \<times> nat" where
  "utf8_front b bs =
     (if unat b < 128 then (True, 1)
      else if byte_in 194 223 b then (if utf8_tail 1 bs = 1 then (True, 2) else (False, 1))
      else if byte_in 224 239 b then utf8_long 1 b bs
      else if byte_in 240 244 b then utf8_long 2 b bs
      else (False, 1))"

lemma utf8_front_pos: "utf8_front b bs = (ok, n) \<Longrightarrow> 0 < n"
  by (auto simp: utf8_front_def utf8_long_def split: if_splits list.splits)

function utf8_valid :: "byte list \<Rightarrow> bool" where
  "utf8_valid [] = True"
| "utf8_valid (b # bs) =
     (case utf8_front b bs of (ok, n) \<Rightarrow> ok \<and> utf8_valid (drop (n - 1) bs))"
  by pat_completeness auto
termination by (relation "measure length") auto

function utf8_lossy :: "byte list \<Rightarrow> byte list" where
  "utf8_lossy [] = []"
| "utf8_lossy (b # bs) =
     (case utf8_front b bs of (ok, n) \<Rightarrow>
        (if ok then b # take (n - 1) bs else [239, 191, 189]) @ utf8_lossy (drop (n - 1) bs))"
  by pat_completeness auto
termination by (relation "measure length") auto

definition from_utf8 :: "byte list \<Rightarrow> string option" where
  "from_utf8 bs = (if utf8_valid bs then Some (bytes_string bs) else None)"

definition from_utf8_lossy :: "byte list \<Rightarrow> string" where
  "from_utf8_lossy bs = bytes_string (utf8_lossy bs)"

section \<open>Laws\<close>

lemma of_char_byte: "(of_char c :: byte) = word_of_nat (of_char c)"
  by (simp add: of_nat_of_char)

lemma string_bytes_string [simp]: "bytes_string (string_bytes s) = s"
proof -
  have "char_of (unat (of_char c :: byte)) = c" for c
    unfolding of_char_byte by (simp add: unat_of_nat)
  then show ?thesis by (induction s) (simp_all add: bytes_string_def string_bytes_def)
qed

lemma bytes_string_bytes [simp]: "string_bytes (bytes_string bs) = bs"
proof -
  have "(of_char (char_of (unat b) :: char) :: byte) = b" for b :: byte
    using byte_bound [of b] unfolding of_char_byte by simp
  then show ?thesis by (induction bs) (simp_all add: bytes_string_def string_bytes_def)
qed

lemma utf8_lossy_valid: "utf8_valid bs \<Longrightarrow> utf8_lossy bs = bs"
  by (induction bs rule: utf8_lossy.induct) (auto split: prod.splits)

lemma ascii_valid: "list_all (\<lambda>b. unat b < 128) bs \<Longrightarrow> utf8_valid bs"
  by (induction bs) (simp_all add: utf8_front_def)

end
