(* ===== verification/Broker.thy ===== *)
theory Broker
  imports Zero_Copy Batching Memory_Pool Storage Transactions Coordinator Replication Compaction
    Cluster Mesh Health Monitoring Utf8
begin

text \<open>
  The broker, \<open>Broker\<close> of \<^verbatim>\<open>crates/broker/src/broker.rs\<close>: its state, the local message path
  (batching, zero-copy framing, the message pool, storage, broadcast) and the service handlers
  that need no other broker. The environment record holds what the code draws from outside: the
  build profile, the storage lock, the encoder, the log files, and streams of identifiers, clock
  readings and I/O results, indexed by the number of draws made so far (\<open>bk_draws\<close>). A broadcast
  channel is its number; \<open>ev_receivers t c\<close> is its receiver count at time \<open>t\<close>, and the messages
  handed to \<open>send\<close> are collected in \<open>bk_sent\<close>.
\<close>

section \<open>State\<close>

record env =
  ev_ovf :: bool
  ev_grant :: lock_policy
  ev_ser :: serialiser
  ev_deser :: deserialiser
  ev_fs :: "string \<Rightarrow> int \<Rightarrow> log_file option"
  ev_io :: "nat \<Rightarrow> io_result"
  ev_uuid :: "nat \<Rightarrow> string"
  ev_clock :: "nat \<Rightarrow> systime"
  ev_instant :: "nat \<Rightarrow> int"
  ev_receivers :: "nat \<Rightarrow> nat \<Rightarrow> nat"

text \<open>
  The replication, compaction, transaction and monitoring components are created with the broker;
  no handler of the service uses them.

  The lock around the mesh: the number of read guards that handlers hold while they wait for something
  else, and whether a writer waits for the lock.
\<close>

record mesh_lock =
  ml_readers :: nat
  ml_waiting :: bool

definition mesh_free :: mesh_lock where
  "mesh_free = \<lparr>ml_readers = 0, ml_waiting = False\<rparr>"

record broker =
  bk_topics :: "(string, string list) hashmap"
  bk_messages :: "(nat, nat) hashmap"
  bk_message_counter :: nat
  bk_broadcast_capacity :: nat
  bk_partition_id :: nat
  bk_total_partitions :: nat
  bk_storage :: storage
  bk_consumer_offsets :: "(string \<times> string, int) hashmap"
  bk_batcher :: batched_processor
  bk_zero_copy :: zc_processor
  bk_pool :: pool_sys
  bk_cluster_manager :: cluster_manager
  bk_p2p_mesh :: "p2p_mesh option"
  bk_mesh_lock :: mesh_lock
  bk_coordinator :: group_coordinator
  bk_broker_id :: string
  bk_address :: string
  bk_port :: nat
  bk_replication_manager :: replication_manager
  bk_compaction_manager :: compaction_manager
  bk_transaction_coordinator :: transaction_coordinator
  bk_health_monitor :: health_monitor
  bk_heartbeat_manager :: heartbeat_manager
  bk_metrics_collector :: metrics_collector
  bk_next_channel :: nat
  bk_sent :: "(nat \<times> consume_response) list"
  bk_draws :: nat

datatype status =
    Internal string
  | Unavailable string
  | FailedPrecondition string
  | InvalidArgument string
  | NotFound string

definition new_with_cluster :: "(nat \<Rightarrow> systime) \<Rightarrow> nat \<Rightarrow> nat \<Rightarrow> retention_policy option \<Rightarrow> string \<Rightarrow> nat \<Rightarrow> broker" where
  "new_with_cluster clock partition_id total_partitions policy address port =
     \<lparr>bk_topics = [], bk_messages = [], bk_message_counter = 0, bk_broadcast_capacity = 1024 * 64,
      bk_partition_id = partition_id, bk_total_partitions = total_partitions,
      bk_storage = with_retention_policy (case policy of Some p \<Rightarrow> p | None \<Rightarrow> rp_default),
      bk_consumer_offsets = [], bk_batcher = bp_new 100 (millis 10), bk_zero_copy = zp_new 1000,
      bk_pool = \<lparr>sys_pool = mp_new 1000, sys_handles = [], sys_returning = []\<rparr>,
      bk_cluster_manager = cm_new ''rafka-cluster'' 5000, bk_p2p_mesh = None, bk_mesh_lock = mesh_free, bk_coordinator = gc_new,
      bk_broker_id = ''broker-'' @ show_nat partition_id, bk_address = address, bk_port = port,
      bk_replication_manager = rm_new 3, bk_compaction_manager = lc_new KeepLatest,
      bk_transaction_coordinator = tc_new,
      bk_health_monitor = hm_new (secs 5) 3, bk_heartbeat_manager = hb_new (secs 30),
      bk_metrics_collector = mc_new clock (''broker-'' @ show_nat partition_id), bk_next_channel = 0, bk_sent = [], bk_draws = 0\<rparr>"

definition bk_new :: "(nat \<Rightarrow> systime) \<Rightarrow> nat \<Rightarrow> nat \<Rightarrow> retention_policy option \<Rightarrow> broker" where
  "bk_new clock partition_id total_partitions policy =
     new_with_cluster clock partition_id total_partitions policy ''127.0.0.1'' 50051"

definition tick :: "broker \<Rightarrow> broker" where
  "tick b = b\<lparr>bk_draws := Suc (bk_draws b)\<rparr>"

definition partition_i32 :: "broker \<Rightarrow> int" where
  "partition_i32 b = wrap_s 32 (int (bk_partition_id b))"

section \<open>Routing\<close>

definition hash_key :: "string \<Rightarrow> 32 word" where
  "hash_key key = fold (\<lambda>b acc. acc + ucast b) (string_bytes key) 0"

text \<open>\<open>hash % total_partitions\<close>: the remainder by zero panics.\<close>

definition target_partition :: "string \<Rightarrow> broker \<Rightarrow> nat outcome" where
  "target_partition key b =
     (if bk_total_partitions b = 0 then Panic else Ret (unat (hash_key key) mod bk_total_partitions b))"

definition owns_partition :: "string \<Rightarrow> broker \<Rightarrow> bool outcome" where
  "owns_partition key b =
     (case target_partition key b of
        Ret p \<Rightarrow> Ret (p = bk_partition_id b)
      | Panic \<Rightarrow> Panic
      | Block \<Rightarrow> Block)"

section \<open>Channels and topics\<close>

definition ensure_channel :: "env \<Rightarrow> nat \<Rightarrow> broker \<Rightarrow> nat \<times> broker" where
  "ensure_channel ev partition_id b =
     (let fresh = (bk_next_channel b,
            b\<lparr>bk_messages := hm_insert partition_id (bk_next_channel b) (bk_messages b),
              bk_next_channel := Suc (bk_next_channel b)\<rparr>)
      in case hm_get (bk_messages b) partition_id of
           Some c \<Rightarrow> if ev_receivers ev (bk_draws b) c > 0 then (c, b) else fresh
         | None \<Rightarrow> fresh)"

definition send :: "nat \<Rightarrow> consume_response \<Rightarrow> broker \<Rightarrow> broker" where
  "send c resp b = b\<lparr>bk_sent := bk_sent b @ [(c, resp)]\<rparr>"

text \<open>
  \<open>ensure_topic\<close> looks under the read guard and, if the topic is missing, looks again under the write guard
  and creates it: \<open>topic_section\<close> is the part under the write guard.
\<close>

definition topic_section :: "env \<Rightarrow> string \<Rightarrow> broker \<Rightarrow> unit outcome \<times> broker" where
  "topic_section ev topic b =
     (if hm_contains (bk_topics b) topic then (Ret (), b)
      else
        let b1 = b\<lparr>bk_topics := hm_insert topic [] (bk_topics b),
                   bk_storage := create_topic topic (bk_storage b)\<rparr>
        in case create_partition (ev_ovf ev) (ev_deser ev) (ev_fs ev) topic (partition_i32 b) (bk_storage b1) of
             (Ret _, s) \<Rightarrow> (Ret (), b1\<lparr>bk_storage := s\<rparr>)
           | (Panic, s) \<Rightarrow> (Panic, b1\<lparr>bk_storage := s\<rparr>)
           | (Block, s) \<Rightarrow> (Block, b1\<lparr>bk_storage := s\<rparr>))"

definition ensure_topic :: "env \<Rightarrow> string \<Rightarrow> broker \<Rightarrow> unit outcome \<times> broker" where
  "ensure_topic ev topic b =
     (if hm_contains (bk_topics b) topic then (Ret (), b) else topic_section ev topic b)"

definition storage_append :: "env \<Rightarrow> string \<Rightarrow> byte list \<Rightarrow> broker \<Rightarrow> int option outcome \<times> broker" where
  "storage_append ev topic payload b =
     (case st_append (ev_ovf ev) (ev_grant ev) (ev_ser ev) (ev_io ev (bk_draws b)) (ev_clock ev (bk_draws b))
        (ev_clock ev (Suc (bk_draws b))) topic (partition_i32 b) payload (bk_storage b) of
        (r, s) \<Rightarrow> (r, tick (tick (b\<lparr>bk_storage := s\<rparr>))))"

text \<open>\<open>fetch_add\<close> on an atomic wraps around in every build profile.\<close>

definition fetch_counter :: "broker \<Rightarrow> int \<times> broker" where
  "fetch_counter b =
     (wrap_s 64 (int (bk_message_counter b)),
      b\<lparr>bk_message_counter := wrap_u 64 (int (bk_message_counter b) + 1)\<rparr>)"

section \<open>Processing of messages\<close>

definition process_single_message ::
  "env \<Rightarrow> publish_request \<Rightarrow> broker \<Rightarrow> (status + publish_response) outcome \<times> broker" where
  "process_single_message ev req b =
     (let message_id = ev_uuid ev (bk_draws b) in
      case storage_append ev (pr_topic req) (string_bytes (pr_payload req)) (tick b) of
        (Ret (Some off), b1) \<Rightarrow>
          (case unix_secs (ev_clock ev (bk_draws b1)) of
             Ret s \<Rightarrow>
               (let resp = \<lparr>cr_message_id = message_id, cr_topic = pr_topic req, cr_payload = pr_payload req,
                      cr_sent_at = wrap_s 64 (int s), cr_offset = off, cr_partition = partition_i32 b\<rparr>;
                    (c, b2) = ensure_channel ev (bk_partition_id b) (tick b1)
                in (Ret (Inr \<lparr>ps_message_id = message_id, ps_success = True,
                      ps_message = ''Published successfully to partition '' @ show_nat (bk_partition_id b) @
                        '' with offset '' @ show_int off,
                      ps_partition = partition_i32 b, ps_offset = off\<rparr>), send c resp b2))
           | Panic \<Rightarrow> (Panic, tick b1)
           | Block \<Rightarrow> (Block, b1))
      | (Ret None, b1) \<Rightarrow> (Ret (Inl (Internal ''Failed to append to storage'')), b1)
      | (Panic, b1) \<Rightarrow> (Panic, b1)
      | (Block, b1) \<Rightarrow> (Block, b1))"

text \<open>
  The body of the delivery loop of \<open>process_batch\<close> and of the background flusher: a message is
  taken from the pool, filled in, persisted, broadcast and handed back when its handle is dropped
  (also when the thread unwinds). While the thread is blocked, the handle stays in use.
\<close>

definition take_pooled :: "broker \<Rightarrow> optimized_message \<times> broker" where
  "take_pooled b =
     (case mp_get (sys_pool (bk_pool b)) of
        (m, p) \<Rightarrow> (m, b\<lparr>bk_pool := (bk_pool b)\<lparr>sys_pool := p\<rparr>\<rparr>))"

definition hold_pooled :: "optimized_message \<Rightarrow> broker \<Rightarrow> broker" where
  "hold_pooled m b = b\<lparr>bk_pool := (bk_pool b)\<lparr>sys_handles := sys_handles (bk_pool b) @ [Some m]\<rparr>\<rparr>"

definition drop_pooled :: "optimized_message \<Rightarrow> broker \<Rightarrow> broker" where
  "drop_pooled m b =
     b\<lparr>bk_pool := (bk_pool b)\<lparr>sys_returning := sys_returning (bk_pool b) @ fst (pm_drop (Some m))\<rparr>\<rparr>"

definition deliver :: "env \<Rightarrow> nat \<Rightarrow> publish_request \<times> byte list \<Rightarrow> broker \<Rightarrow> unit outcome \<times> broker" where
  "deliver ev sender item b =
     (let (req, processed) = item;
          (m, b1) = take_pooled b;
          m1 = m\<lparr>om_id := ev_uuid ev (bk_draws b1), om_topic := pr_topic req, om_payload := processed\<rparr>;
          b2 = tick b1
      in case unix_secs (ev_clock ev (bk_draws b2)) of
           Ret s \<Rightarrow>
             (let m2 = m1\<lparr>om_timestamp := s, om_partition := bk_partition_id b\<rparr>
              in case storage_append ev (pr_topic req) (string_bytes (pr_payload req)) (tick b2) of
                   (Ret r, b3) \<Rightarrow>
                     (let (off, b4) = (case r of Some off \<Rightarrow> (off, b3) | None \<Rightarrow> fetch_counter b3);
                          m3 = m2\<lparr>om_offset := off\<rparr>;
                          resp = \<lparr>cr_message_id = om_id m3, cr_topic = om_topic m3,
                            cr_payload = from_utf8_lossy processed,
                            cr_sent_at = wrap_s 64 (int (om_timestamp m3)), cr_offset = om_offset m3,
                            cr_partition = partition_i32 b\<rparr>
                      in (Ret (), drop_pooled m3 (send sender resp b4)))
                 | (Panic, b3) \<Rightarrow> (Panic, drop_pooled m2 b3)
                 | (Block, b3) \<Rightarrow> (Block, hold_pooled m2 b3))
         | Panic \<Rightarrow> (Panic, drop_pooled m1 (tick b2))
         | Block \<Rightarrow> (Block, hold_pooled m1 b2))"

text \<open>\<open>iter()\<close> on a \<open>Result\<close>: the value of an \<open>Ok\<close> once, nothing for an \<open>Err\<close>.\<close>

definition result_iter :: "'e + 'a \<Rightarrow> 'a list" where
  "result_iter r = (case r of Inr x \<Rightarrow> [x] | Inl _ \<Rightarrow> [])"

definition frame_batch :: "message_batch \<Rightarrow> broker \<Rightarrow> (publish_request \<times> byte list) list \<times> broker" where
  "frame_batch batch b =
     (let msgs = mb_get_messages batch in
      case process_batch (bk_zero_copy b) (map (\<lambda>req. string_bytes (pr_payload req)) msgs) of
        (processed, zp) \<Rightarrow> (zip msgs (result_iter processed), b\<lparr>bk_zero_copy := zp\<rparr>))"

definition bk_process_batch :: "env \<Rightarrow> message_batch \<Rightarrow> broker \<Rightarrow> unit outcome \<times> broker" where
  "bk_process_batch ev batch b =
     (if mb_get_messages batch = [] then (Ret (), b)
      else
        let (items, b1) = frame_batch batch b;
            (sender, b2) = ensure_channel ev (bk_partition_id b1) b1
        in run_ops (map (deliver ev sender) items) b2)"

text \<open>
  One batch of the background flusher: as above, but a channel that exists is used whether or not
  it has receivers.
\<close>

definition channel_section :: "broker \<Rightarrow> nat \<times> broker" where
  "channel_section b =
     (case hm_get (bk_messages b) (bk_partition_id b) of
        Some c \<Rightarrow> (c, b)
      | None \<Rightarrow> (bk_next_channel b,
          b\<lparr>bk_messages := hm_insert (bk_partition_id b) (bk_next_channel b) (bk_messages b),
            bk_next_channel := Suc (bk_next_channel b)\<rparr>))"

definition flusher_channel :: "broker \<Rightarrow> nat \<times> broker" where
  "flusher_channel b =
     (case hm_get (bk_messages b) (bk_partition_id b) of
        Some c \<Rightarrow> (c, b)
      | None \<Rightarrow> channel_section b)"

definition flush_batch :: "env \<Rightarrow> message_batch \<Rightarrow> broker \<Rightarrow> unit outcome \<times> broker" where
  "flush_batch ev batch b =
     (if mb_get_messages batch = [] then (Ret (), b)
      else
        let (items, b1) = frame_batch batch b;
            (sender, b2) = flusher_channel b1
        in run_ops (map (deliver ev sender) items) b2)"

text \<open>Taking the ready batches; every test of a batch reads the monotonic clock.\<close>

definition take_ready :: "env \<Rightarrow> broker \<Rightarrow> message_batch list \<times> broker" where
  "take_ready ev b =
     (case bp_get_ready_batches (\<lambda>i. ev_instant ev (bk_draws b + i)) (bk_batcher b) of
        (ready, p) \<Rightarrow> (ready, b\<lparr>bk_batcher := p, bk_draws := bk_draws b + length (bp_batches (bk_batcher b))\<rparr>))"

definition flusher_round :: "env \<Rightarrow> broker \<Rightarrow> unit outcome \<times> broker" where
  "flusher_round ev b =
     (case take_ready ev b of (ready, b1) \<Rightarrow> run_ops (map (flush_batch ev) ready) b1)"

section \<open>Publishing to the own partition\<close>

text \<open>The handler \<open>publish\<close> from the point where the message belongs to this broker.\<close>

definition publish_local ::
  "env \<Rightarrow> publish_request \<Rightarrow> broker \<Rightarrow> (status + publish_response) outcome \<times> broker" where
  "publish_local ev req b =
     (case ensure_topic ev (pr_topic req) b of
        (Ret _, b1) \<Rightarrow>
          (case bp_add_message (ev_instant ev (bk_draws b1)) req (bk_batcher b1) of
             (Inl _, p) \<Rightarrow> process_single_message ev req (tick (b1\<lparr>bk_batcher := p\<rparr>))
           | (Inr _, p) \<Rightarrow>
               (let (ready, b2) = take_ready ev (tick (b1\<lparr>bk_batcher := p\<rparr>))
                in case run_ops (map (bk_process_batch ev) ready) b2 of
                     (Ret _, b3) \<Rightarrow>
                       (let (off, b4) = fetch_counter (tick b3)
                        in (Ret (Inr \<lparr>ps_message_id = ev_uuid ev (bk_draws b3), ps_success = True,
                              ps_message = ''Message queued for batch processing'',
                              ps_partition = partition_i32 b, ps_offset = off\<rparr>), b4))
                   | (Panic, b3) \<Rightarrow> (Panic, b3)
                   | (Block, b3) \<Rightarrow> (Block, b3)))
      | (Panic, b1) \<Rightarrow> (Panic, b1)
      | (Block, b1) \<Rightarrow> (Block, b1))"

section \<open>Service handlers\<close>

definition bk_consume :: "env \<Rightarrow> broker \<Rightarrow> nat \<times> broker" where
  "bk_consume ev b = ensure_channel ev (bk_partition_id b) b"

text \<open>The replies of the next three handlers are a success flag and a text.\<close>

definition bk_register :: "broker \<Rightarrow> (status + bool \<times> string) outcome \<times> broker" where
  "bk_register b = (Ret (Inr (True, ''Registered successfully'')), b)"

definition bk_subscribe :: "env \<Rightarrow> string \<Rightarrow> string \<Rightarrow> broker \<Rightarrow> (status + bool \<times> string) outcome \<times> broker" where
  "bk_subscribe ev consumer_id topic b =
     (case ensure_topic ev topic b of
        (Ret _, b1) \<Rightarrow>
          (Ret (Inr (True, ''Subscribed to topic '' @ topic)),
           b1\<lparr>bk_topics := AList.map_entry topic (List.insert consumer_id) (bk_topics b1)\<rparr>)
      | (Panic, b1) \<Rightarrow> (Panic, b1)
      | (Block, b1) \<Rightarrow> (Block, b1))"

definition bk_acknowledge :: "broker \<Rightarrow> (status + bool \<times> string) outcome \<times> broker" where
  "bk_acknowledge b = (Ret (Inr (True, ''Message acknowledged'')), b)"

definition set_consumer_offset :: "string \<Rightarrow> string \<Rightarrow> int \<Rightarrow> broker \<Rightarrow> broker" where
  "set_consumer_offset consumer_id topic off b =
     b\<lparr>bk_consumer_offsets := hm_insert (consumer_id, topic) off (bk_consumer_offsets b)\<rparr>"

definition bk_get_consumer_offset :: "string \<Rightarrow> string \<Rightarrow> broker \<Rightarrow> int" where
  "bk_get_consumer_offset consumer_id topic b =
     (case hm_get (bk_consumer_offsets b) (consumer_id, topic) of Some off \<Rightarrow> off | None \<Rightarrow> -1)"

definition bk_update_offset ::
  "string \<Rightarrow> string \<Rightarrow> int \<Rightarrow> broker \<Rightarrow> (status + string) \<times> broker" where
  "bk_update_offset consumer_id topic off b =
     (if off < 0 then (Inl (InvalidArgument ''Offset cannot be negative''), b)
      else if \<not> hm_contains (bk_topics b) topic
      then (Inl (NotFound (''Topic '' @ topic @ '' not found'')), b)
      else (Inr (''Offset updated to '' @ show_int off), set_consumer_offset consumer_id topic off b))"

definition bk_join_group ::
  "env \<Rightarrow> string \<Rightarrow> string \<Rightarrow> string \<Rightarrow> string \<Rightarrow> string list \<Rightarrow> broker \<Rightarrow>
   (status + string \<times> string \<times> int \<times> string) outcome \<times> broker" where
  "bk_join_group ev group_id member_id client_id protocol_type topics b =
     (case handle_join_group (ev_ovf ev) (ev_uuid ev (bk_draws b)) (ev_clock ev (bk_draws b)) group_id member_id
        client_id protocol_type topics (bk_coordinator b) of
        (Ret x, gs) \<Rightarrow> (Ret (Inr x), tick (b\<lparr>bk_coordinator := gs\<rparr>))
      | (Panic, gs) \<Rightarrow> (Panic, tick (b\<lparr>bk_coordinator := gs\<rparr>))
      | (Block, gs) \<Rightarrow> (Block, tick (b\<lparr>bk_coordinator := gs\<rparr>)))"

fun group_error_text :: "group_error \<Rightarrow> string" where
  "group_error_text InvalidGenerationId = ''Invalid generation id''"
| "group_error_text RebalanceInProgress = ''Rebalance in progress''"
| "group_error_text MemberNotFound = ''Member not found''"
| "group_error_text GroupNotFound = ''Group not found''"

definition bk_sync_group ::
  "((string \<times> byte list) list \<Rightarrow> (string \<times> byte list) list) \<Rightarrow> string \<Rightarrow> string \<Rightarrow> int \<Rightarrow>
   (string, byte list) hashmap \<Rightarrow> broker \<Rightarrow> (status + byte list) \<times> broker" where
  "bk_sync_group \<pi> group_id member_id generation_id group_assignment b =
     (case handle_sync_group \<pi> group_id member_id generation_id group_assignment (bk_coordinator b) of
        (Inr a, gs) \<Rightarrow> (Inr a, b\<lparr>bk_coordinator := gs\<rparr>)
      | (Inl e, gs) \<Rightarrow> (Inl (Internal (group_error_text e)), b\<lparr>bk_coordinator := gs\<rparr>))"

text \<open>The reply is the success flag and the error code.\<close>

definition bk_heartbeat ::
  "env \<Rightarrow> string \<Rightarrow> string \<Rightarrow> int \<Rightarrow> broker \<Rightarrow> (status + bool \<times> int) \<times> broker" where
  "bk_heartbeat ev group_id member_id generation_id b =
     (case handle_heartbeat (ev_clock ev (bk_draws b)) group_id member_id generation_id (bk_coordinator b) of
        (r, gs) \<Rightarrow>
          (case r of
             Inr _ \<Rightarrow> Inr (True, 0)
           | Inl e \<Rightarrow> if group_error_text e = ''Rebalance in progress'' then Inr (False, 1)
                      else Inl (Internal (group_error_text e)),
           tick (b\<lparr>bk_coordinator := gs\<rparr>)))"

text \<open>The reply is the number of messages, of bytes and the age of the oldest message in seconds.\<close>

definition get_storage_metrics :: "env \<Rightarrow> broker \<Rightarrow> storage_metrics outcome" where
  "get_storage_metrics ev b = get_metrics (ev_grant ev) (ev_clock ev (bk_draws b)) (bk_storage b)"

definition bk_get_metrics :: "env \<Rightarrow> broker \<Rightarrow> (nat \<times> nat \<times> nat) outcome" where
  "bk_get_metrics ev b =
     (case get_metrics (ev_grant ev) (ev_clock ev (bk_draws b)) (bk_storage b) of
        Ret m \<Rightarrow>
          Ret (sx_total_messages m, sx_total_bytes m,
               as_secs (case duration_since (ev_clock ev (Suc (bk_draws b))) (sx_oldest_message m) of
                          Some d \<Rightarrow> d | None \<Rightarrow> 0))
      | Panic \<Rightarrow> Panic
      | Block \<Rightarrow> Block)"

definition bk_update_retention_policy ::
  "env \<Rightarrow> (string \<Rightarrow> int \<Rightarrow> systime) \<Rightarrow> duration \<Rightarrow> nat \<Rightarrow> broker \<Rightarrow> unit outcome \<times> broker" where
  "bk_update_retention_policy ev clock max_age max_bytes b =
     (case update_retention_policy (ev_ovf ev) (ev_grant ev) clock
        \<lparr>rp_max_age = max_age, rp_max_bytes = max_bytes\<rparr> (bk_storage b) of
        (r, s) \<Rightarrow> (r, b\<lparr>bk_storage := s\<rparr>))"

definition bk_cleanup_old_messages ::
  "env \<Rightarrow> (string \<Rightarrow> int \<Rightarrow> systime) \<Rightarrow> broker \<Rightarrow> unit outcome \<times> broker" where
  "bk_cleanup_old_messages ev clock b =
     (case get_metrics (ev_grant ev) (ev_clock ev (bk_draws b)) (bk_storage b) of
        Ret m \<Rightarrow>
          (if sx_total_bytes m > rp_max_bytes (get_retention_policy (bk_storage b))
           then (case cleanup_old_messages (ev_ovf ev) (ev_grant ev) clock (bk_storage b) of
                   (r, s) \<Rightarrow> (r, tick (b\<lparr>bk_storage := s\<rparr>)))
           else (Ret (), tick b))
      | Panic \<Rightarrow> (Panic, tick b)
      | Block \<Rightarrow> (Block, tick b))"

definition bk_shutdown :: "broker \<Rightarrow> broker" where
  "bk_shutdown b =
     fold (\<lambda>p b. b\<lparr>bk_messages := hm_insert p (bk_next_channel b) (bk_messages b),
                   bk_next_channel := Suc (bk_next_channel b)\<rparr>) [0..<bk_total_partitions b] b"

section \<open>Handlers for other brokers\<close>

definition bk_forward_message ::
  "env \<Rightarrow> forward_request \<Rightarrow> broker \<Rightarrow> (status + forward_response) outcome \<times> broker" where
  "bk_forward_message ev req b =
     (if wrap_u 32 (fr_target_partition req) \<noteq> bk_partition_id b
      then (Ret (Inl (FailedPrecondition (''Message forwarded to wrong partition. Expected '' @
              show_nat (bk_partition_id b) @ '', got '' @ show_int (fr_target_partition req)))), b)
      else case ensure_topic ev (fr_topic req) b of
        (Ret _, b1) \<Rightarrow>
          (case storage_append ev (fr_topic req) (string_bytes (fr_payload req)) (tick b1) of
             (Ret (Some off), b2) \<Rightarrow>
               (case unix_secs (ev_clock ev (bk_draws b2)) of
                  Ret s \<Rightarrow>
                    (let resp = \<lparr>cr_message_id = ev_uuid ev (bk_draws b1), cr_topic = fr_topic req,
                           cr_payload = fr_payload req, cr_sent_at = wrap_s 64 (int s), cr_offset = off,
                           cr_partition = partition_i32 b\<rparr>;
                         (c, b3) = ensure_channel ev (bk_partition_id b) (tick b2)
                     in (Ret (Inr \<lparr>fs_success = True,
                           fs_message = ''Message forwarded successfully to partition '' @ show_nat (bk_partition_id b),
                           fs_offset = off\<rparr>), send c resp b3))
                | Panic \<Rightarrow> (Panic, tick b2)
                | Block \<Rightarrow> (Block, b2))
           | (Ret None, b2) \<Rightarrow> (Ret (Inl (Internal ''Failed to append to storage'')), b2)
           | (Panic, b2) \<Rightarrow> (Panic, b2)
           | (Block, b2) \<Rightarrow> (Block, b2))
      | (Panic, b1) \<Rightarrow> (Panic, b1)
      | (Block, b1) \<Rightarrow> (Block, b1))"

record proto_broker_info =
  pb_broker_id :: string
  pb_address :: string
  pb_port :: int
  pb_partition_id :: int
  pb_total_partitions :: int
  pb_is_healthy :: bool

definition proto_broker :: "broker_info \<Rightarrow> proto_broker_info" where
  "proto_broker i =
     \<lparr>pb_broker_id = bi_broker_id i, pb_address = bi_address i, pb_port = int (bi_port i),
      pb_partition_id = wrap_s 32 (int (bi_partition_id i)),
      pb_total_partitions = wrap_s 32 (int (bi_total_partitions i)), pb_is_healthy = bi_is_healthy i\<rparr>"

definition bk_get_cluster_info :: "broker_order \<Rightarrow> broker \<Rightarrow> proto_broker_info list \<times> int \<times> string" where
  "bk_get_cluster_info \<pi> b =
     (map proto_broker (get_all_brokers \<pi> (bk_cluster_manager b)),
      wrap_s 32 (int (length (get_all_brokers \<pi> (bk_cluster_manager b)))),
      cm_cluster_id (bk_cluster_manager b))"

definition bk_join_cluster ::
  "env \<Rightarrow> broker_order \<Rightarrow> proto_broker_info \<Rightarrow> broker \<Rightarrow> (bool \<times> string \<times> proto_broker_info list) \<times> broker" where
  "bk_join_cluster ev \<pi> req b =
     (let info = \<lparr>bi_broker_id = pb_broker_id req, bi_address = pb_address req, bi_port = wrap_u 16 (pb_port req),
            bi_partition_id = wrap_u 32 (pb_partition_id req),
            bi_total_partitions = wrap_u 32 (pb_total_partitions req), bi_is_healthy = True,
            bi_last_health_check = ev_clock ev (bk_draws b)\<rparr>;
          b1 = tick (b\<lparr>bk_cluster_manager := add_broker info (bk_cluster_manager b)\<rparr>)
      in ((True, ''Successfully joined cluster'', map proto_broker (get_all_brokers \<pi> (bk_cluster_manager b1))), b1))"

definition bk_health_check :: "env \<Rightarrow> string \<Rightarrow> broker \<Rightarrow> (bool \<times> string \<times> int) outcome \<times> broker" where
  "bk_health_check ev broker_id b =
     (let b1 = tick (b\<lparr>bk_cluster_manager :=
            update_broker_health (ev_clock ev (bk_draws b)) broker_id True (bk_cluster_manager b)\<rparr>)
      in case unix_secs (ev_clock ev (bk_draws b1)) of
           Ret s \<Rightarrow> (Ret (True, ''OK'', wrap_s 64 (int s)), tick b1)
         | Panic \<Rightarrow> (Panic, tick b1)
         | Block \<Rightarrow> (Block, b1))"

text \<open>The configured brokers are added in order; reading and parsing the file gives \<open>cfg\<close> or fails.\<close>

definition load_cluster_config :: "env \<Rightarrow> cluster_config option \<Rightarrow> broker \<Rightarrow> bool \<times> broker" where
  "load_cluster_config ev cfg b =
     (case cfg of
        None \<Rightarrow> (False, b)
      | Some c \<Rightarrow> (True, fold (\<lambda>bc b. tick (b\<lparr>bk_cluster_manager :=
            add_broker (bi_new (ev_clock ev (bk_draws b)) bc) (bk_cluster_manager b)\<rparr>)) (cc_brokers c) b))"

section \<open>Laws of the message path\<close>

lemma tick_frame [simp]:
  "bk_storage (tick b) = bk_storage b" "bk_sent (tick b) = bk_sent b" "bk_topics (tick b) = bk_topics b"
  "bk_partition_id (tick b) = bk_partition_id b" "bk_message_counter (tick b) = bk_message_counter b"
  "bk_pool (tick b) = bk_pool b" "bk_batcher (tick b) = bk_batcher b"
  "bk_total_partitions (tick b) = bk_total_partitions b" "bk_zero_copy (tick b) = bk_zero_copy b"
  by (simp_all add: tick_def)

text \<open>What the message path before the delivery leaves alone.\<close>

lemma ensure_channel_frame:
  assumes "ensure_channel ev p b = (c, b')"
  shows "bk_storage b' = bk_storage b" "bk_sent b' = bk_sent b" "bk_topics b' = bk_topics b"
    "bk_partition_id b' = bk_partition_id b" "bk_message_counter b' = bk_message_counter b"
  using assms by (auto simp: ensure_channel_def Let_def split: option.splits if_splits)

lemma frame_batch_frame:
  assumes "frame_batch batch b = (items, b')"
  shows "bk_storage b' = bk_storage b" "bk_sent b' = bk_sent b" "bk_topics b' = bk_topics b"
    "bk_partition_id b' = bk_partition_id b" "bk_message_counter b' = bk_message_counter b"
  using assms by (auto simp: frame_batch_def Let_def split: prod.splits)

lemma flusher_channel_frame:
  assumes "flusher_channel b = (c, b')"
  shows "bk_storage b' = bk_storage b" "bk_sent b' = bk_sent b" "bk_partition_id b' = bk_partition_id b"
  using assms by (auto simp: flusher_channel_def channel_section_def split: option.splits)

lemma pool_frame [simp]:
  "bk_storage (drop_pooled m b) = bk_storage b" "bk_storage (hold_pooled m b) = bk_storage b"
  "bk_sent (drop_pooled m b) = bk_sent b" "bk_sent (hold_pooled m b) = bk_sent b"
  "bk_storage (send c resp b) = bk_storage b" "bk_sent (send c resp b) = bk_sent b @ [(c, resp)]"
  by (simp_all add: drop_pooled_def hold_pooled_def send_def)

lemma take_pooled_frame:
  assumes "take_pooled b = (m, b')"
  shows "bk_storage b' = bk_storage b" "bk_sent b' = bk_sent b" "bk_partition_id b' = bk_partition_id b"
  using assms by (auto simp: take_pooled_def split: prod.splits)

lemma partition_i32_cong: "bk_partition_id b' = bk_partition_id b \<Longrightarrow> partition_i32 b' = partition_i32 b"
  by (simp add: partition_i32_def)

text \<open>
  An append of the broker to its storage: the fate of the write and the clock readings are those of some
  draw of its environment.
\<close>

definition appended :: "env \<Rightarrow> string \<Rightarrow> int \<Rightarrow> byte list \<Rightarrow> storage \<Rightarrow> int option outcome \<Rightarrow> storage \<Rightarrow> bool" where
  "appended ev topic pid payload s r s' \<longleftrightarrow>
     (\<exists>k. st_append (ev_ovf ev) (ev_grant ev) (ev_ser ev) (ev_io ev k) (ev_clock ev k) (ev_clock ev (Suc k))
        topic pid payload s = (r, s'))"

lemma storage_append_appended:
  assumes "storage_append ev topic payload b = (r, b')"
  shows "appended ev topic (partition_i32 b) payload (bk_storage b) r (bk_storage b')" "bk_sent b' = bk_sent b"
proof -
  obtain s where "st_append (ev_ovf ev) (ev_grant ev) (ev_ser ev) (ev_io ev (bk_draws b)) (ev_clock ev (bk_draws b))
      (ev_clock ev (Suc (bk_draws b))) topic (partition_i32 b) payload (bk_storage b) = (r, s)"
    "b' = tick (tick (b\<lparr>bk_storage := s\<rparr>))"
    using assms by (auto simp: storage_append_def split: prod.splits)
  then show "appended ev topic (partition_i32 b) payload (bk_storage b) r (bk_storage b')" "bk_sent b' = bk_sent b"
    unfolding appended_def by auto
qed

lemma fetch_counter_frame [simp]:
  "bk_storage (snd (fetch_counter b)) = bk_storage b" "bk_sent (snd (fetch_counter b)) = bk_sent b"
  by (simp_all add: fetch_counter_def)

lemma deliver_effect:
  assumes "deliver ev c (req, framed) b = (r, b')"
  shows "(r = Panic \<and> bk_storage b' = bk_storage b \<and> bk_sent b' = bk_sent b \<and> (\<exists>k. ev_clock ev k < 0))
     \<or> (\<exists>a. appended ev (pr_topic req) (partition_i32 b) (string_bytes (pr_payload req)) (bk_storage b) a (bk_storage b')
          \<and> (case a of
               Ret _ \<Rightarrow> r = Ret () \<and> (\<exists>resp. bk_sent b' = bk_sent b @ [(c, resp)] \<and> cr_topic resp = pr_topic req
                          \<and> cr_payload resp = from_utf8_lossy framed)
             | Panic \<Rightarrow> r = Panic \<and> bk_sent b' = bk_sent b
             | Block \<Rightarrow> r = Block \<and> bk_sent b' = bk_sent b))"
proof -
  obtain m b1 where t: "take_pooled b = (m, b1)" by fastforce
  note fr = take_pooled_frame [OF t]
  let ?b2 = "tick b1"
  show ?thesis
  proof (cases "unix_secs (ev_clock ev (bk_draws ?b2))")
    case (Ret s)
    obtain a b3 where a: "storage_append ev (pr_topic req) (string_bytes (pr_payload req)) (tick ?b2) = (a, b3)"
      by fastforce
    have pid: "partition_i32 (tick ?b2) = partition_i32 b" using fr by (intro partition_i32_cong) simp
    have ap: "appended ev (pr_topic req) (partition_i32 b) (string_bytes (pr_payload req)) (bk_storage b) a (bk_storage b3)"
      and sent: "bk_sent b3 = bk_sent b"
      using storage_append_appended [OF a] fr pid by simp_all
    show ?thesis
    proof (cases a)
      case (Ret v)
      obtain off b4 where o: "(case v of Some off \<Rightarrow> (off, b3) | None \<Rightarrow> fetch_counter b3) = (off, b4)" by fastforce
      then have "bk_storage b4 = bk_storage b3" "bk_sent b4 = bk_sent b3"
        by (auto simp: fetch_counter_def split: option.splits)
      then show ?thesis using assms t \<open>unix_secs _ = _\<close> a Ret o ap sent
        by (intro disjI2 exI [of _ a]) (auto simp: deliver_def Let_def)
    qed (use assms t \<open>unix_secs _ = _\<close> a ap sent in \<open>intro disjI2 exI [of _ a], auto simp: deliver_def Let_def\<close>)+
  next
    case Panic
    then have "ev_clock ev (bk_draws ?b2) < 0" by (auto simp: unix_secs_def duration_since_def split: option.splits if_splits)
    then show ?thesis using assms t fr Panic by (intro disjI1) (auto simp: deliver_def Let_def)
  qed (auto simp: unix_secs_def split: option.splits)
qed

section \<open>Properties\<close>

lemma hash_key_fold:
  "unat (fold (\<lambda>b acc. acc + ucast b) bs (acc :: 32 word)) = (unat acc + sum_list (map unat bs)) mod 2 ^ 32"
  for bs :: "byte list"
proof (induction bs arbitrary: acc)
  case (Cons b bs)
  have "unat (ucast b :: 32 word) = unat b"
    using byte_bound [of b] by (simp add: unsigned_ucast_eq take_bit_nat_eq_self)
  with Cons show ?case by (simp add: unat_word_ariths mod_simps add.assoc)
next
  case Nil
  have "unat acc < 2 ^ 32" using unsigned_less [of acc] by simp
  then show ?case by simp
qed

text \<open>
  Property C8: the key space is partitioned. The hash of a key is the sum of its bytes modulo
  \<open>2 ^ 32\<close>, every key is owned by exactly one partition below the total, that partition is the one
  the publisher forwards to, and keys with the same bytes in another order go to the same partition.
\<close>

theorem key_has_one_owner:
  assumes "0 < bk_total_partitions b"
  shows "unat (hash_key key) = sum_list (map unat (string_bytes key)) mod 2 ^ 32
     \<and> (\<exists>!p. p < bk_total_partitions b \<and> owns_partition key (b\<lparr>bk_partition_id := p\<rparr>) = Ret True)
     \<and> (\<forall>p. target_partition key b = Ret p \<longleftrightarrow>
          p < bk_total_partitions b \<and> owns_partition key (b\<lparr>bk_partition_id := p\<rparr>) = Ret True)
     \<and> (\<forall>key'. mset key' = mset key \<longrightarrow> target_partition key' b = target_partition key b)"
proof -
  have hash: "unat (hash_key k) = sum_list (map unat (string_bytes k)) mod 2 ^ 32" for k
    unfolding hash_key_def by (simp only: hash_key_fold unsigned_0 add_0)
  have "unat (hash_key key') = unat (hash_key key)" if "mset key' = mset key" for key'
  proof -
    have "mset (map unat (string_bytes key')) = mset (map unat (string_bytes key))"
      by (simp only: string_bytes_def map_map mset_map that)
    then have "sum_mset (mset (map unat (string_bytes key'))) = sum_mset (mset (map unat (string_bytes key)))"
      by (simp only:)
    then show ?thesis unfolding hash sum_mset_sum_list by (simp only:)
  qed
  then have perm: "\<forall>key'. mset key' = mset key \<longrightarrow> target_partition key' b = target_partition key b"
    unfolding target_partition_def by metis
  let ?p = "unat (hash_key key) mod bk_total_partitions b"
  have p: "?p < bk_total_partitions b" "target_partition key b = Ret ?p"
    using assms by (simp_all add: target_partition_def)
  have owns: "owns_partition key (b\<lparr>bk_partition_id := p\<rparr>) = Ret True \<longleftrightarrow> p = ?p" for p
    using assms by (auto simp: target_partition_def owns_partition_def)
  have "\<exists>!p. p < bk_total_partitions b \<and> owns_partition key (b\<lparr>bk_partition_id := p\<rparr>) = Ret True"
    unfolding owns using p(1) by (rule ex1I [of _ ?p, OF conjI [OF _ refl]]) simp
  moreover have "\<forall>p. target_partition key b = Ret p \<longleftrightarrow>
      p < bk_total_partitions b \<and> owns_partition key (b\<lparr>bk_partition_id := p\<rparr>) = Ret True"
    unfolding owns p(2) using p(1) by auto
  ultimately show ?thesis by (intro conjI perm hash)
qed

theorem key_has_one_owner_witness:
  "\<exists>!p. p < 3 \<and> owns_partition ''key'' ((bk_new (\<lambda>_. 5) 0 3 None)\<lparr>bk_partition_id := p\<rparr>) = Ret True"
  using key_has_one_owner [of "bk_new (\<lambda>_. 5) 0 3 None" "''key''"] by (simp add: bk_new_def new_with_cluster_def)

text \<open>
  Property C3: batch processing keeps the first message and no other. If the frames of a batch with the messages
  \<open>req # rest\<close> do not fit the zero-copy buffers, the batch is dropped. Otherwise, with a clock after the epoch, the
  payload of \<open>req\<close> is appended to the storage, once, and nothing of \<open>rest\<close>. The result is that of the append; if it
  returns, exactly one message is broadcast, under \<open>req\<close>'s topic, and its payload is not that of \<open>req\<close> but the
  concatenation of the length-prefixed frames of the whole batch; otherwise nothing is.
\<close>

theorem batch_keeps_only_first:
  assumes "mb_get_messages batch = req # rest" and "\<forall>k. 0 \<le> ev_clock ev k" and "bk_process_batch ev batch b = (r, b')"
  shows "case fst (process_batch (bk_zero_copy b) (map (\<lambda>q. string_bytes (pr_payload q)) (req # rest))) of
       Inl _ \<Rightarrow> r = Ret () \<and> bk_storage b' = bk_storage b \<and> bk_sent b' = bk_sent b
     | Inr framed \<Rightarrow>
         (\<exists>a. appended ev (pr_topic req) (partition_i32 b) (string_bytes (pr_payload req)) (bk_storage b) a (bk_storage b')
            \<and> (case a of
                 Ret _ \<Rightarrow> r = Ret () \<and> (\<exists>c resp. bk_sent b' = bk_sent b @ [(c, resp)] \<and> cr_topic resp = pr_topic req
                            \<and> cr_payload resp = from_utf8_lossy framed)
               | Panic \<Rightarrow> r = Panic \<and> bk_sent b' = bk_sent b
               | Block \<Rightarrow> r = Block \<and> bk_sent b' = bk_sent b))"
proof -
  let ?ms = "map (\<lambda>q. string_bytes (pr_payload q)) (req # rest)"
  obtain items b1 where f: "frame_batch batch b = (items, b1)" by fastforce
  obtain c b2 where c: "ensure_channel ev (bk_partition_id b1) b1 = (c, b2)" by fastforce
  have run: "run_ops (map (deliver ev c) items) b2 = (r, b')"
    using assms(1,3) f c by (simp add: bk_process_batch_def)
  note fr = frame_batch_frame [OF f] ensure_channel_frame [OF c]
  have pid: "partition_i32 b2 = partition_i32 b" using fr by (intro partition_i32_cong) simp
  have items: "items = (case fst (process_batch (bk_zero_copy b) ?ms) of Inl _ \<Rightarrow> [] | Inr framed \<Rightarrow> [(req, framed)])"
    using f assms(1) by (auto simp: frame_batch_def result_iter_def split: prod.splits sum.splits)
  show ?thesis
  proof (cases "fst (process_batch (bk_zero_copy b) ?ms)")
    case (Inl e)
    then show ?thesis using run items fr by simp
  next
    case (Inr framed)
    obtain r' b'' where d: "deliver ev c (req, framed) b2 = (r', b'')" by fastforce
    have same: "bk_storage b2 = bk_storage b" "bk_sent b2 = bk_sent b" using fr by simp_all
    have rb: "b' = b''" "r = r'" using run items Inr d by (cases r'; simp)+
    have "\<not> (\<exists>k. ev_clock ev k < 0)" using assms(2) by (simp add: not_less)
    then obtain a where
      "appended ev (pr_topic req) (partition_i32 b) (string_bytes (pr_payload req)) (bk_storage b) a (bk_storage b')"
      "case a of
         Ret _ \<Rightarrow> r = Ret () \<and> (\<exists>resp. bk_sent b' = bk_sent b @ [(c, resp)] \<and> cr_topic resp = pr_topic req
                    \<and> cr_payload resp = from_utf8_lossy framed)
       | Panic \<Rightarrow> r = Panic \<and> bk_sent b' = bk_sent b
       | Block \<Rightarrow> r = Block \<and> bk_sent b' = bk_sent b"
      using deliver_effect [OF d, unfolded same pid] unfolding rb by blast
    then show ?thesis unfolding Inr sum.case by (intro exI [of _ a]) (cases a; auto)
  qed
qed

definition example_env :: env where
  "example_env = \<lparr>ev_ovf = True, ev_grant = parking_lot, ev_ser = small_ser, ev_deser = small_deser,
     ev_fs = (\<lambda>_ _. Some (Readable [])), ev_io = (\<lambda>_. IoOk), ev_uuid = (\<lambda>_. ''id''), ev_clock = (\<lambda>_. 5),
     ev_instant = (\<lambda>_. 0), ev_receivers = (\<lambda>_ _. 1)\<rparr>"

definition example_batch :: message_batch where
  "example_batch = \<lparr>mb_messages = [example_request ''a'', example_request ''b''], mb_batch_size = 2,
     mb_max_wait_time = 10, mb_created_at = 0\<rparr>"

definition example_broker :: broker where
  "example_broker = (bk_new (\<lambda>_. 5) 0 3 None)\<lparr>bk_storage := example_storage\<rparr>"

lemma example_broker_facts:
  "partition_i32 example_broker = 0" "bk_storage example_broker = example_storage"
  "bk_zero_copy example_broker = zp_new 1000" "bk_sent example_broker = []"
  by (simp_all add: example_broker_def bk_new_def new_with_cluster_def partition_i32_def wrap_s_def)

lemma example_batch_facts:
  "mb_get_messages example_batch = example_request ''a'' # [example_request ''b'']"
  "pr_topic (example_request x) = ''t''" "pr_payload (example_request x) = x"
  "\<exists>framed. fst (process_batch (zp_new 1000) (map (\<lambda>q. string_bytes (pr_payload q))
      (example_request ''a'' # [example_request ''b'']))) = Inr framed"
  by (simp_all add: example_batch_def mb_get_messages_def process_batch_def zp_new_def zc_new_def zc_clear_def zc_append_def
      zc_get_bytes_def example_request_def string_bytes_def)

text \<open>With a lock that lets the append return: one of the two messages is stored, and one message is broadcast.\<close>

theorem batch_keeps_only_first_witness:
  "\<exists>b' c resp q. bk_process_batch (example_env\<lparr>ev_grant := \<lambda>_. True\<rparr>) example_batch example_broker = (Ret (), b')
     \<and> get_queue (bk_storage b') ''t'' 0 = Some q \<and> map me_payload (pq_messages q) = [string_bytes ''a'']
     \<and> bk_sent b' = [(c, resp)] \<and> cr_topic resp = ''t''"
proof -
  let ?ev = "example_env\<lparr>ev_grant := \<lambda>_. True\<rparr>" and ?b = example_broker
  obtain r b' where run: "bk_process_batch ?ev example_batch ?b = (r, b')" by fastforce
  obtain framed where framed: "fst (process_batch (zp_new 1000) (map (\<lambda>q. string_bytes (pr_payload q))
      (example_request ''a'' # [example_request ''b'']))) = Inr framed"
    using example_batch_facts(4) by blast
  have clock: "\<forall>k. 0 \<le> ev_clock ?ev k" by (simp add: example_env_def)
  obtain a where a: "appended ?ev ''t'' 0 (string_bytes ''a'') example_storage a (bk_storage b')"
    and out: "case a of Ret _ \<Rightarrow> r = Ret () \<and> (\<exists>c resp. bk_sent b' = [(c, resp)] \<and> cr_topic resp = ''t'')
       | Panic \<Rightarrow> r = Panic | Block \<Rightarrow> r = Block"
    using batch_keeps_only_first [OF example_batch_facts(1) clock run]
    unfolding example_broker_facts framed sum.case example_batch_facts(2,3) append_Nil
    by (elim exE conjE) (rule that, assumption, auto split: outcome.splits)
  obtain ps where ps: "hm_get (st_topics example_storage) ''t'' = Some ps" using get_queue_topic [OF example_storage_queue] by blast
  have k: "(a, bk_storage b') = st_append True (\<lambda>_. True) small_ser IoOk 5 5 ''t'' 0 (string_bytes ''a'') example_storage"
    using a by (auto simp: appended_def example_env_def)
  have "a = Ret (Some 0) \<and> (\<exists>q. get_queue (bk_storage b') ''t'' 0 = Some q \<and> map me_payload (pq_messages q) = [string_bytes ''a''])"
    using k by (simp add: example_storage_queue st_append_def pq_append_def new_entry_def enforce_retention_policy_def
        duration_since_def Let_def in_s_def get_put_queue [OF ps] rp_default_def secs_def string_bytes_def)
  then show ?thesis using out run by auto
qed

lemma deliver_blocks:
  assumes "exclusive_lock (ev_grant ev)" and "get_queue (bk_storage b) (pr_topic req) (partition_i32 b) = Some q"
    and "in_s 64 (pq_next_offset q + 1)" and "\<forall>k. 0 \<le> ev_clock ev k"
  shows "fst (deliver ev c (req, framed) b) = Block \<and> bk_sent (snd (deliver ev c (req, framed) b)) = bk_sent b"
proof -
  obtain m b1 where t: "take_pooled b = (m, b1)" by fastforce
  note fr = take_pooled_frame [OF t]
  have "partition_i32 (tick (tick b1)) = partition_i32 b" using fr by (intro partition_i32_cong) simp
  then have "fst (storage_append ev (pr_topic req) (string_bytes (pr_payload req)) (tick (tick b1))) = Block"
    using st_append_blocks [OF assms(1) _ assms(3)] assms(2) fr
    by (simp add: storage_append_def split: prod.split) (metis fst_conv)
  then obtain b3 where s: "storage_append ev (pr_topic req) (string_bytes (pr_payload req)) (tick (tick b1)) = (Block, b3)"
    by (metis prod.collapse)
  moreover have "bk_sent b3 = bk_sent b" using storage_append_appended(2) [OF s] fr by simp
  ultimately show ?thesis using t assms(4) by (simp add: deliver_def Let_def)
qed

text \<open>
  A batch of messages for a stored topic is never delivered: under the exclusive
  storage lock, processing a batch that fits the zero-copy buffers, on the publish path or in the
  background flusher, blocks for ever, and nothing is broadcast to the consumers.
\<close>

lemma batch_never_delivered:
  assumes "exclusive_lock (ev_grant ev)" and "mb_get_messages batch = req # rest"
    and "get_queue (bk_storage b) (pr_topic req) (partition_i32 b) = Some q" and "in_s 64 (pq_next_offset q + 1)"
    and "\<forall>k. 0 \<le> ev_clock ev k"
    and "fst (process_batch (bk_zero_copy b) (map (\<lambda>q. string_bytes (pr_payload q)) (req # rest))) = Inr framed"
  shows "fst (bk_process_batch ev batch b) = Block \<and> bk_sent (snd (bk_process_batch ev batch b)) = bk_sent b
     \<and> fst (flush_batch ev batch b) = Block \<and> bk_sent (snd (flush_batch ev batch b)) = bk_sent b"
proof -
  obtain items b1 where f: "frame_batch batch b = (items, b1)" by fastforce
  have items: "items = [(req, framed)]"
    using f assms(2,6) by (auto simp: frame_batch_def result_iter_def split: prod.splits)
  obtain c b2 where c: "ensure_channel ev (bk_partition_id b1) b1 = (c, b2)" by fastforce
  obtain c' b3 where c': "flusher_channel b1 = (c', b3)" by fastforce
  note fr = frame_batch_frame [OF f] ensure_channel_frame [OF c] flusher_channel_frame [OF c']
  have pid: "partition_i32 b2 = partition_i32 b" "partition_i32 b3 = partition_i32 b"
    using fr by (intro partition_i32_cong; simp)+
  have blk: "fst (deliver ev c (req, framed) b2) = Block \<and> bk_sent (snd (deliver ev c (req, framed) b2)) = bk_sent b"
    and blk': "fst (deliver ev c' (req, framed) b3) = Block \<and> bk_sent (snd (deliver ev c' (req, framed) b3)) = bk_sent b"
    using deliver_blocks [OF assms(1) _ assms(4,5), of b2 req] deliver_blocks [OF assms(1) _ assms(4,5), of b3 req]
      assms(3) fr pid by simp_all
  have "run_ops (map (deliver ev c) items) b2 = (Block, snd (deliver ev c (req, framed) b2))"
    using blk items by (cases "deliver ev c (req, framed) b2") simp
  moreover have "run_ops (map (deliver ev c') items) b3 = (Block, snd (deliver ev c' (req, framed) b3))"
    using blk' items by (cases "deliver ev c' (req, framed) b3") simp
  ultimately show ?thesis
    using f c c' assms(2) blk blk' by (simp add: bk_process_batch_def flush_batch_def)
qed

lemma batch_never_delivered_example:
  "fst (flush_batch example_env example_batch example_broker) = Block"
  using batch_never_delivered [of example_env example_batch "example_request ''a''" "[example_request ''b'']" example_broker]
    example_batch_facts(4)
  by (auto simp: example_broker_facts example_batch_facts(1,2) example_env_def parking_lot_exclusive example_storage_queue in_s_def)

end
