(* ===== verification/Broker_Mesh.thy ===== *)
theory Broker_Mesh
  imports Broker
begin

text \<open>
  The part of \<^verbatim>\<open>crates/broker/src/broker.rs\<close> that needs other brokers: finding the node for a
  partition, forwarding, topology requests, the complete \<open>publish\<close> handler, the mesh handlers of
  the service and the start of the mesh. What other nodes answer, what the other tasks of the
  broker do while a handler waits, the address parsers of the standard library, the iteration
  orders and tokio's read-write lock are fields of \<open>net_env\<close>.
\<close>

section \<open>Environment\<close>

text \<open>What a remote call comes to. The clients set no timeout: a call may also wait for ever.\<close>

datatype 'a reply = NoConnection | CallFailed | Answer 'a | Waits

record net_env =
  nv_env :: env
  nv_parse :: "string \<Rightarrow> int \<Rightarrow> socket_addr option"
  nv_parse_addr :: "string \<Rightarrow> socket_addr option"
  nv_ip :: "string \<Rightarrow> string option"
  nv_topology :: "nat \<Rightarrow> socket_addr \<Rightarrow> mesh_topology_response reply"
  nv_forward :: "nat \<Rightarrow> socket_addr \<Rightarrow> forward_request \<Rightarrow> forward_response reply"
  nv_background :: "nat \<Rightarrow> broker \<Rightarrow> broker"
  nv_nodes :: node_order
  nv_owners :: owner_order
  nv_brokers :: broker_order
  nv_read_grant :: "mesh_lock \<Rightarrow> bool"
  nv_write_grant :: "mesh_lock \<Rightarrow> bool"

text \<open>
  Documented behaviour of \<open>tokio::sync::RwLock\<close>: any number of readers or one writer, and a reader
  that comes after a waiting writer waits too.
\<close>

definition tokio_rwlock :: "net_env \<Rightarrow> bool" where
  "tokio_rwlock nv \<longleftrightarrow>
     (\<forall>l. nv_read_grant nv l = (\<not> ml_waiting l))
     \<and> (\<forall>l. nv_write_grant nv l = (ml_readers l = 0 \<and> \<not> ml_waiting l))"

text \<open>
  Taking and giving back a read guard that is kept while the handler waits for something else; with
  the last guard a waiting writer gets its turn. A handler that has to wait for the write guard
  leaves a waiting writer behind.
\<close>

definition hold_read :: "broker \<Rightarrow> broker" where
  "hold_read b = b\<lparr>bk_mesh_lock := (bk_mesh_lock b)\<lparr>ml_readers := Suc (ml_readers (bk_mesh_lock b))\<rparr>\<rparr>"

definition release_read :: "broker \<Rightarrow> broker" where
  "release_read b =
     (let n = ml_readers (bk_mesh_lock b) - 1
      in b\<lparr>bk_mesh_lock := \<lparr>ml_readers = n, ml_waiting = (n \<noteq> 0 \<and> ml_waiting (bk_mesh_lock b))\<rparr>\<rparr>)"

definition queue_writer :: "broker \<Rightarrow> broker" where
  "queue_writer b = b\<lparr>bk_mesh_lock := (bk_mesh_lock b)\<lparr>ml_waiting := True\<rparr>\<rparr>"

text \<open>A handler waits; the other tasks of the broker go on meanwhile.\<close>

definition pause :: "net_env \<Rightarrow> broker \<Rightarrow> broker" where
  "pause nv b = (nv_background nv (bk_draws b) b)\<lparr>bk_draws := Suc (bk_draws b)\<rparr>"

definition draw_many :: "nat \<Rightarrow> broker \<Rightarrow> broker" where
  "draw_many n b = b\<lparr>bk_draws := bk_draws b + n\<rparr>"

definition put_mesh :: "p2p_mesh \<Rightarrow> broker \<Rightarrow> broker" where
  "put_mesh m b = b\<lparr>bk_p2p_mesh := Some m\<rparr>"

text \<open>The clock readings for the nodes of an answer, two per node.\<close>

definition merge_clock :: "net_env \<Rightarrow> broker \<Rightarrow> nat \<Rightarrow> systime \<times> systime" where
  "merge_clock nv b i =
     (ev_clock (nv_env nv) (bk_draws b + 2 * i), ev_clock (nv_env nv) (bk_draws b + 2 * i + 1))"

section \<open>Finding the node for a partition\<close>

definition bk_get_mesh_topology :: "net_env \<Rightarrow> broker \<Rightarrow> mesh_topology option outcome" where
  "bk_get_mesh_topology nv b =
     (if \<not> nv_read_grant nv (bk_mesh_lock b) then Block
      else Ret (map_option get_cluster_topology (bk_p2p_mesh b)))"

definition bk_get_node_for_partition :: "net_env \<Rightarrow> nat \<Rightarrow> broker \<Rightarrow> node_info option outcome" where
  "bk_get_node_for_partition nv p b =
     (if \<not> nv_read_grant nv (bk_mesh_lock b) then Block
      else Ret (case bk_p2p_mesh b of Some m \<Rightarrow> ms_get_node_for_partition p m | None \<Rightarrow> None))"

text \<open>The retry loop: three attempts, with a pause after the first two.\<close>

fun lookup_attempts :: "net_env \<Rightarrow> nat \<Rightarrow> nat list \<Rightarrow> broker \<Rightarrow> node_info option outcome \<times> broker" where
  "lookup_attempts nv p [] b = (Ret None, b)"
| "lookup_attempts nv p (attempt # rest) b =
     (case bk_get_node_for_partition nv p b of
        Ret (Some n) \<Rightarrow> (Ret (Some n), b)
      | Ret None \<Rightarrow> lookup_attempts nv p rest (if attempt < 2 then pause nv b else b)
      | Panic \<Rightarrow> (Panic, b)
      | Block \<Rightarrow> (Block, b))"

text \<open>
  The manual synchronisation: the known nodes are asked in turn, and the first answer is merged.
  The nodes are asked with the read guard held. It is given back before the write guard is taken,
  but only if a node answers: otherwise it lives to the end of the search. The result tells whether
  it is still held.
\<close>

fun first_answer ::
  "net_env \<Rightarrow> string \<Rightarrow> node_info list \<Rightarrow> broker \<Rightarrow> mesh_topology_response option outcome \<times> broker" where
  "first_answer nv self [] b = (Ret None, b)"
| "first_answer nv self (n # ns) b =
     (if ni_id n = self then first_answer nv self ns b
      else case nv_topology nv (bk_draws b) (ni_address n) of
        Answer resp \<Rightarrow> (Ret (Some resp), pause nv b)
      | CallFailed \<Rightarrow> first_answer nv self ns (pause nv b)
      | NoConnection \<Rightarrow> first_answer nv self ns (pause nv b)
      | Waits \<Rightarrow> (Block, tick b))"

definition apply_sync :: "net_env \<Rightarrow> mesh_topology_response \<Rightarrow> broker \<Rightarrow> unit outcome \<times> broker" where
  "apply_sync nv resp b =
     (if \<not> nv_write_grant nv (bk_mesh_lock b) then (Block, queue_writer b)
      else case bk_p2p_mesh b of
        Some m \<Rightarrow>
          (case sync_topology (nv_parse nv) (merge_clock nv b) (nv_owners nv) resp (ms_topology m) of
             (r, t) \<Rightarrow> (r, draw_many (2 * length (mt_nodes resp)) (put_mesh (m\<lparr>ms_topology := t\<rparr>) b)))
      | None \<Rightarrow> (Ret (), b))"

definition manual_sync :: "net_env \<Rightarrow> broker \<Rightarrow> bool outcome \<times> broker" where
  "manual_sync nv b =
     (if \<not> nv_read_grant nv (bk_mesh_lock b) then (Block, b)
      else case bk_p2p_mesh b of
        Some m \<Rightarrow>
          (case first_answer nv (bk_broker_id b) (map snd (nv_nodes nv (tp_nodes (ms_topology m)))) (hold_read b) of
             (Ret (Some resp), b1) \<Rightarrow>
               (case apply_sync nv resp (release_read b1) of
                  (Ret _, b2) \<Rightarrow> (Ret False, b2)
                | (Panic, b2) \<Rightarrow> (Panic, b2)
                | (Block, b2) \<Rightarrow> (Block, b2))
           | (Ret None, b1) \<Rightarrow> (Ret True, b1)
           | (Panic, b1) \<Rightarrow> (Panic, release_read b1)
           | (Block, b1) \<Rightarrow> (Block, b1))
      | None \<Rightarrow> (Ret True, hold_read b))"

text \<open>The entry of the static cluster table as a node.\<close>

definition cluster_node :: "net_env \<Rightarrow> nat \<Rightarrow> broker_info \<Rightarrow> node_info" where
  "cluster_node nv sec i =
     \<lparr>ni_id = bi_broker_id i,
      ni_address = \<lparr>sa_ip = (case nv_ip nv (bi_address i) of Some ip \<Rightarrow> ip | None \<Rightarrow> ''127.0.0.1''), sa_port = bi_port i\<rparr>,
      ni_partition_id = bi_partition_id i, ni_total_partitions = bi_total_partitions i, ni_last_seen = sec,
      ni_is_alive = bi_is_healthy i, ni_metadata = []\<rparr>"

definition cluster_fallback :: "net_env \<Rightarrow> nat \<Rightarrow> broker \<Rightarrow> node_info option outcome \<times> broker" where
  "cluster_fallback nv p b =
     (case get_broker_for_partition (nv_brokers nv) p (bk_cluster_manager b) of
        Some i \<Rightarrow>
          (case unix_secs (ev_clock (nv_env nv) (bk_draws b)) of
             Ret sec \<Rightarrow> (Ret (Some (cluster_node nv sec i)), tick b)
           | Panic \<Rightarrow> (Panic, tick b)
           | Block \<Rightarrow> (Block, b))
      | None \<Rightarrow> (Ret None, b))"

text \<open>
  The whole search: the mesh, the manual synchronisation, the mesh again, the cluster table. The
  guard of the synchronisation, if it is still held, is given back at the end.
\<close>

definition end_search :: "bool \<Rightarrow> broker \<Rightarrow> broker" where
  "end_search held b = (if held then release_read b else b)"

definition find_target :: "net_env \<Rightarrow> nat \<Rightarrow> broker \<Rightarrow> node_info option outcome \<times> broker" where
  "find_target nv p b =
     (case lookup_attempts nv p [0..<3] b of
        (Ret (Some n), b1) \<Rightarrow> (Ret (Some n), b1)
      | (Ret None, b1) \<Rightarrow>
          (case manual_sync nv b1 of
             (Ret held, b2) \<Rightarrow>
               (let b3 = pause nv b2 in
                case bk_get_node_for_partition nv p b3 of
                  Ret (Some n) \<Rightarrow> (Ret (Some n), end_search held b3)
                | Ret None \<Rightarrow> (case cluster_fallback nv p b3 of (r, b4) \<Rightarrow> (r, end_search held b4))
                | Panic \<Rightarrow> (Panic, end_search held b3)
                | Block \<Rightarrow> (Block, b3))
           | (Panic, b2) \<Rightarrow> (Panic, b2)
           | (Block, b2) \<Rightarrow> (Block, b2))
      | (Panic, b1) \<Rightarrow> (Panic, b1)
      | (Block, b1) \<Rightarrow> (Block, b1))"

section \<open>Forwarding\<close>

definition forward_request_for :: "publish_request \<Rightarrow> nat \<Rightarrow> broker \<Rightarrow> forward_request" where
  "forward_request_for req p b =
     \<lparr>fr_from_broker_id = bk_broker_id b, fr_topic = pr_topic req, fr_key = pr_key req, fr_payload = pr_payload req,
      fr_target_partition = wrap_s 32 (int p), fr_offset = 0\<rparr>"

definition forward_to ::
  "net_env \<Rightarrow> publish_request \<Rightarrow> nat \<Rightarrow> node_info \<Rightarrow> broker \<Rightarrow> (status + publish_response) outcome \<times> broker" where
  "forward_to nv req p node b =
     (case nv_forward nv (bk_draws b) (ni_address node) (forward_request_for req p b) of
        Answer resp \<Rightarrow>
          (Ret (Inr \<lparr>ps_message_id = ev_uuid (nv_env nv) (bk_draws (pause nv b)), ps_success = fs_success resp,
             ps_message = ''Message forwarded to partition '' @ show_nat p @ '' via P2P mesh'',
             ps_partition = wrap_s 32 (int p), ps_offset = fs_offset resp\<rparr>), tick (pause nv b))
      | NoConnection \<Rightarrow> (Ret (Inl (Unavailable (''Cannot reach node for partition '' @ show_nat p))), pause nv b)
      | CallFailed \<Rightarrow> (Ret (Inl (Unavailable (''Failed to forward message to partition '' @ show_nat p))), pause nv b)
      | Waits \<Rightarrow> (Block, tick b))"

text \<open>
  \<open>request_mesh_topology_from_node\<close>: true if the call gave \<open>Ok\<close>. Merging an answer needs the write
  guard; a task that waits for it leaves a waiting writer behind.
\<close>

definition request_mesh_topology_from_node :: "net_env \<Rightarrow> socket_addr \<Rightarrow> broker \<Rightarrow> bool outcome \<times> broker" where
  "request_mesh_topology_from_node nv addr b =
     (case nv_topology nv (bk_draws b) addr of
        NoConnection \<Rightarrow> (Ret False, tick b)
      | CallFailed \<Rightarrow> (Ret True, tick b)
      | Waits \<Rightarrow> (Block, tick b)
      | Answer resp \<Rightarrow>
          (if \<not> nv_write_grant nv (bk_mesh_lock b) then (Block, tick (queue_writer b))
           else case bk_p2p_mesh b of
             Some m \<Rightarrow>
               (Ret True, tick (put_mesh (m\<lparr>ms_topology :=
                  merge_owners (nv_owners nv) (mt_partition_owners resp) (ms_topology m)\<rparr>) b))
           | None \<Rightarrow> (Ret True, tick b)))"

definition drop_result :: "'a outcome \<times> 's \<Rightarrow> unit outcome \<times> 's" where
  "drop_result x = (case x of (Ret _, s) \<Rightarrow> (Ret (), s) | (Panic, s) \<Rightarrow> (Panic, s) | (Block, s) \<Rightarrow> (Block, s))"

text \<open>The last branch of \<open>forward_message_to_partition\<close>: the read guard is held for the whole loop.\<close>

definition discover_nodes :: "net_env \<Rightarrow> broker \<Rightarrow> unit outcome \<times> broker" where
  "discover_nodes nv b =
     (if \<not> nv_read_grant nv (bk_mesh_lock b) then (Block, b)
      else case bk_p2p_mesh b of
        Some m \<Rightarrow>
          (case run_ops (map (\<lambda>n b. drop_result (request_mesh_topology_from_node nv (ni_address n) b))
               (map snd (nv_nodes nv (tp_nodes (ms_topology m))))) (hold_read b) of
             (Ret _, b1) \<Rightarrow> (Ret (), release_read b1)
           | (Panic, b1) \<Rightarrow> (Panic, release_read b1)
           | (Block, b1) \<Rightarrow> (Block, b1))
      | None \<Rightarrow> (Ret (), b))"

fun zc_error_text :: "zc_error \<Rightarrow> string" where
  "zc_error_text BufferExceeded = ''Buffer would exceed maximum size''"
| "zc_error_text BatchSizeExceeded = ''Batch size exceeded''"
| "zc_error_text IncompleteLengthPrefix = ''Incomplete length prefix''"
| "zc_error_text IncompleteMessageData = ''Incomplete message data''"

text \<open>
  The text of the message is taken from the parsed batch; the first element of an empty result
  would panic. The reported offset is the message counter, whatever the storage answered.
\<close>

definition store_local ::
  "env \<Rightarrow> optimized_message \<Rightarrow> byte list list \<Rightarrow> broker \<Rightarrow> (status + publish_response) outcome \<times> broker" where
  "store_local ev m processed b =
     (let (c, b1) = ensure_channel ev (bk_partition_id b) b in
      case processed of
        [] \<Rightarrow> (Panic, drop_pooled m b1)
      | x # _ \<Rightarrow>
          (let payload = (case from_utf8 x of Some s \<Rightarrow> s | None \<Rightarrow> from_utf8_lossy (om_payload m))
           in case storage_append ev (om_topic m) (om_payload m) b1 of
                (Ret r, b2) \<Rightarrow>
                  (let (off, b3) = (case r of Some off \<Rightarrow> (off, b2) | None \<Rightarrow> fetch_counter b2);
                       resp = \<lparr>cr_message_id = om_id m, cr_topic = om_topic m, cr_payload = payload,
                         cr_sent_at = wrap_s 64 (int (om_timestamp m)), cr_offset = off, cr_partition = partition_i32 b\<rparr>;
                       b4 = drop_pooled m (send c resp b3)
                   in (Ret (Inr \<lparr>ps_message_id = om_id m, ps_success = True,
                         ps_message = ''Message processed locally with zero-copy and memory pooling'',
                         ps_partition = partition_i32 b, ps_offset = wrap_s 64 (int (bk_message_counter b4))\<rparr>), b4))
              | (Panic, b2) \<Rightarrow> (Panic, drop_pooled m b2)
              | (Block, b2) \<Rightarrow> (Block, hold_pooled m b2)))"

definition handle_local_message ::
  "env \<Rightarrow> publish_request \<Rightarrow> broker \<Rightarrow> (status + publish_response) outcome \<times> broker" where
  "handle_local_message ev req b =
     (let (m, b1) = take_pooled b;
          m1 = m\<lparr>om_id := ev_uuid ev (bk_draws b1), om_topic := pr_topic req, om_payload := string_bytes (pr_payload req)\<rparr>;
          b2 = tick b1
      in case unix_secs (ev_clock ev (bk_draws b2)) of
           Ret sec \<Rightarrow>
             (let m2 = m1\<lparr>om_timestamp := sec\<rparr>
              in case process_batch (bk_zero_copy b2) [om_payload m2] of
                   (Inl e, zp) \<Rightarrow>
                     (Ret (Inl (Internal (''Zero-copy processing failed: '' @ zc_error_text e))),
                      drop_pooled m2 (tick (b2\<lparr>bk_zero_copy := zp\<rparr>)))
                 | (Inr framed, zp) \<Rightarrow>
                     (case parse_batch framed of
                        Inl e \<Rightarrow>
                          (Ret (Inl (Internal (''Batch parsing failed: '' @ zc_error_text e))),
                           drop_pooled m2 (tick (b2\<lparr>bk_zero_copy := zp\<rparr>)))
                      | Inr processed \<Rightarrow> store_local ev m2 processed (tick (b2\<lparr>bk_zero_copy := zp\<rparr>))))
         | Panic \<Rightarrow> (Panic, drop_pooled m1 (tick b2))
         | Block \<Rightarrow> (Block, hold_pooled m1 b2))"

definition forward_message_to_partition ::
  "net_env \<Rightarrow> publish_request \<Rightarrow> nat \<Rightarrow> broker \<Rightarrow> (status + publish_response) outcome \<times> broker" where
  "forward_message_to_partition nv req p b =
     (case owns_partition (pr_key req) b of
        Ret own \<Rightarrow>
          (if own \<and> bk_partition_id b = p then handle_local_message (nv_env nv) req b
           else case find_target nv p b of
             (Ret (Some node), b1) \<Rightarrow> forward_to nv req p node b1
           | (Ret None, b1) \<Rightarrow>
               (case discover_nodes nv b1 of
                  (Ret _, b2) \<Rightarrow> (Ret (Inl (FailedPrecondition (''No node found for partition '' @ show_nat p @
                     ''. Mesh topology may still be synchronizing.''))), b2)
                | (Panic, b2) \<Rightarrow> (Panic, b2)
                | (Block, b2) \<Rightarrow> (Block, b2))
           | (Panic, b1) \<Rightarrow> (Panic, b1)
           | (Block, b1) \<Rightarrow> (Block, b1))
      | Panic \<Rightarrow> (Panic, b)
      | Block \<Rightarrow> (Block, b))"

section \<open>The publish handler\<close>

definition publish ::
  "net_env \<Rightarrow> publish_request \<Rightarrow> broker \<Rightarrow> (status + publish_response) outcome \<times> broker" where
  "publish nv req b =
     (case target_partition (pr_key req) b of
        Ret p \<Rightarrow>
          (if p \<noteq> bk_partition_id b then forward_message_to_partition nv req p b
           else publish_local (nv_env nv) req b)
      | Panic \<Rightarrow> (Panic, b)
      | Block \<Rightarrow> (Block, b))"

section \<open>Mesh handlers of the service\<close>

record gossip_request =
  gr_from_node_id :: string
  gr_message_type :: int
  gr_timestamp :: int
  gr_ttl :: int

text \<open>\<open>UNIX_EPOCH + Duration::from_secs(s)\<close> overflows the signed 64-bit seconds of a \<open>SystemTime\<close>.\<close>

definition epoch_plus :: "nat \<Rightarrow> systime outcome" where
  "epoch_plus s = (if s < 2 ^ 63 then Ret (int s * 1000000000) else Panic)"

definition gossip_type :: "env \<Rightarrow> broker \<Rightarrow> gossip_request \<Rightarrow> (status + gossip_message_type) outcome" where
  "gossip_type ev b req =
     (let fresh = ni_new (ev_uuid ev (bk_draws b)) (ev_clock ev (bk_draws b)) default_addr 0 3;
          t = gr_message_type req
      in if t = 1 then (case fresh of Ret n \<Rightarrow> Ret (Inr (NodeJoin n)) | Panic \<Rightarrow> Panic | Block \<Rightarrow> Block)
         else if t = 2 then Ret (Inr (NodeLeave (gr_from_node_id req)))
         else if t = 3 then (case fresh of Ret n \<Rightarrow> Ret (Inr (NodeUpdate n)) | Panic \<Rightarrow> Panic | Block \<Rightarrow> Block)
         else if t = 4 then Ret (Inr (HeartbeatMsg (gr_from_node_id req)))
         else if t = 5 then Ret (Inr (PartitionUpdate 0 (gr_from_node_id req)))
         else if t = 6 then Ret (Inr (ClusterState []))
         else Ret (Inl (InvalidArgument ''Unknown gossip message type'')))"

definition bk_gossip_message ::
  "net_env \<Rightarrow> gossip_request \<Rightarrow> broker \<Rightarrow> (status + bool \<times> string) outcome \<times> broker" where
  "bk_gossip_message nv req b =
     (let ev = nv_env nv; reply = Ret (Inr (True, ''Gossip message processed'')) in
      if \<not> nv_write_grant nv (bk_mesh_lock b) then (Block, queue_writer b)
      else case bk_p2p_mesh b of
        None \<Rightarrow> (reply, b)
      | Some m \<Rightarrow>
          (case gossip_type ev b req of
             Ret (Inr ty) \<Rightarrow>
               (case epoch_plus (wrap_u 64 (gr_timestamp req)) of
                  Ret ts \<Rightarrow>
                    (case process_gossip_message (\<lambda>k. ev_clock ev (bk_draws b + 1 + k)) (ev_clock ev (bk_draws b + 2))
                       \<lparr>gs_from_node = gr_from_node_id req, gs_message_type = ty, gs_timestamp = ts,
                        gs_ttl = wrap_u 32 (gr_ttl req)\<rparr> m of
                       (Ret _, m') \<Rightarrow> (reply, draw_many 3 (put_mesh m' b))
                     | (Panic, m') \<Rightarrow> (Panic, draw_many 3 (put_mesh m' b))
                     | (Block, m') \<Rightarrow> (Block, draw_many 3 (put_mesh m' b)))
                | Panic \<Rightarrow> (Panic, tick b)
                | Block \<Rightarrow> (Block, b))
           | Ret (Inl e) \<Rightarrow> (Ret (Inl e), b)
           | Panic \<Rightarrow> (Panic, tick b)
           | Block \<Rightarrow> (Block, b)))"

text \<open>
  A node of the topology in the wire format: \<open>last_seen_timestamp\<close> is the difference of the clock
  and the node's last sign of life, computed in \<open>i64\<close>.
\<close>

definition mesh_node_of :: "bool \<Rightarrow> systime \<Rightarrow> node_info \<Rightarrow> mesh_node_info outcome" where
  "mesh_node_of ovf now n =
     (case unix_secs now of
        Ret sec \<Rightarrow>
          (case arith_s 64 ovf (wrap_s 64 (int sec) - wrap_s 64 (int (ni_last_seen n))) of
             Ret d \<Rightarrow> Ret \<lparr>mn_node_id = ni_id n, mn_address = sa_ip (ni_address n), mn_port = int (sa_port (ni_address n)),
               mn_partition_id = wrap_s 32 (int (ni_partition_id n)),
               mn_total_partitions = wrap_s 32 (int (ni_total_partitions n)), mn_is_alive = ni_is_alive n,
               mn_last_seen_timestamp = d, mn_metadata = ni_metadata n\<rparr>
           | Panic \<Rightarrow> Panic
           | Block \<Rightarrow> Block)
      | Panic \<Rightarrow> Panic
      | Block \<Rightarrow> Block)"

fun mesh_nodes_of :: "bool \<Rightarrow> (nat \<Rightarrow> systime) \<Rightarrow> nat \<Rightarrow> node_info list \<Rightarrow> mesh_node_info list outcome" where
  "mesh_nodes_of ovf clock k [] = Ret []"
| "mesh_nodes_of ovf clock k (n # ns) =
     (case mesh_node_of ovf (clock k) n of
        Ret x \<Rightarrow> (case mesh_nodes_of ovf clock (Suc k) ns of Ret xs \<Rightarrow> Ret (x # xs) | Panic \<Rightarrow> Panic | Block \<Rightarrow> Block)
      | Panic \<Rightarrow> Panic
      | Block \<Rightarrow> Block)"

definition known_mesh_nodes :: "net_env \<Rightarrow> broker \<Rightarrow> mesh_topology \<Rightarrow> mesh_node_info list outcome" where
  "known_mesh_nodes nv b t =
     mesh_nodes_of (ev_ovf (nv_env nv)) (ev_clock (nv_env nv)) (bk_draws b) (map snd (nv_nodes nv (tp_nodes t)))"

definition bk_mesh_topology_handler ::
  "net_env \<Rightarrow> broker \<Rightarrow> (status + mesh_topology_response) outcome \<times> broker" where
  "bk_mesh_topology_handler nv b =
     (case bk_get_mesh_topology nv b of
        Ret (Some t) \<Rightarrow>
          (case known_mesh_nodes nv b t of
             Ret ns \<Rightarrow> (Ret (Inr \<lparr>mt_nodes = ns,
                  mt_partition_owners = map (\<lambda>(p, i). (wrap_s 32 (int p), i)) (tp_partitions t),
                  mt_cluster_size = wrap_s 32 (int (length (tp_nodes t)))\<rparr>), draw_many (length (tp_nodes t)) b)
           | Panic \<Rightarrow> (Panic, draw_many (length (tp_nodes t)) b)
           | Block \<Rightarrow> (Block, b))
      | Ret None \<Rightarrow> (Ret (Inl (FailedPrecondition ''P2P mesh not initialized'')), b)
      | Panic \<Rightarrow> (Panic, b)
      | Block \<Rightarrow> (Block, b))"

definition bk_join_mesh ::
  "net_env \<Rightarrow> broker \<Rightarrow> (status + bool \<times> string \<times> mesh_node_info list) outcome \<times> broker" where
  "bk_join_mesh nv b =
     (case bk_get_mesh_topology nv b of
        Ret (Some t) \<Rightarrow>
          (case known_mesh_nodes nv b t of
             Ret ns \<Rightarrow> (Ret (Inr (True, ''Successfully joined mesh'', ns)), draw_many (length (tp_nodes t)) b)
           | Panic \<Rightarrow> (Panic, draw_many (length (tp_nodes t)) b)
           | Block \<Rightarrow> (Block, b))
      | Ret None \<Rightarrow> (Ret (Inl (FailedPrecondition ''P2P mesh not initialized'')), b)
      | Panic \<Rightarrow> (Panic, b)
      | Block \<Rightarrow> (Block, b))"

definition bk_leave_mesh :: "net_env \<Rightarrow> broker \<Rightarrow> (status + bool \<times> string) outcome \<times> broker" where
  "bk_leave_mesh nv b =
     (let reply = Ret (Inr (True, ''Successfully left mesh'')) in
      if \<not> nv_write_grant nv (bk_mesh_lock b) then (Block, queue_writer b)
      else case bk_p2p_mesh b of
        Some m \<Rightarrow>
          (case leave_cluster (ev_clock (nv_env nv) (bk_draws b)) (ev_clock (nv_env nv) (Suc (bk_draws b))) m of
             (Ret _, m') \<Rightarrow> (reply, draw_many 2 (put_mesh m' b))
           | (Panic, m') \<Rightarrow> (Panic, draw_many 2 (put_mesh m' b))
           | (Block, m') \<Rightarrow> (Block, draw_many 2 (put_mesh m' b)))
      | None \<Rightarrow> (reply, b))"

section \<open>Starting the mesh\<close>

text \<open>
  \<open>new\<close> draws two identifiers and two clock readings, \<open>start\<close> one more reading, joining the rest.
  The bootstrap nodes are only asked if all their addresses parse. A false result is an error.
\<close>

definition bootstrap_calls :: "net_env \<Rightarrow> nat \<Rightarrow> socket_addr list \<Rightarrow> (socket_addr \<times> mesh_topology_response reply) list" where
  "bootstrap_calls nv d addrs = map (\<lambda>k. (addrs ! k, nv_topology nv (d + k) (addrs ! k))) [0..<length addrs]"

definition bootstrap_replies ::
  "(socket_addr \<times> mesh_topology_response reply) list \<Rightarrow> (socket_addr \<times> mesh_topology_response option) list" where
  "bootstrap_replies calls = map (\<lambda>(a, r). (a, case r of Answer resp \<Rightarrow> Some resp | _ \<Rightarrow> None)) calls"

definition join_bootstrap ::
  "net_env \<Rightarrow> nat \<Rightarrow> (nat \<Rightarrow> nat \<Rightarrow> systime \<times> systime) \<Rightarrow> string list \<Rightarrow> p2p_mesh \<Rightarrow> unit outcome \<times> p2p_mesh" where
  "join_bootstrap nv d clock bootstrap m =
     (let addrs = map (nv_parse_addr nv) bootstrap in
      if None \<in> set addrs then (Ret (), m)
      else
        let calls = bootstrap_calls nv (Suc (Suc d)) (map the addrs);
            answered = takeWhile (\<lambda>(_, r). r \<noteq> Waits) calls
        in case join_cluster (nv_parse nv) clock (nv_owners nv) (ev_clock (nv_env nv) d) (ev_clock (nv_env nv) (Suc d))
                  (bootstrap_replies answered) m of
             (Ret _, m') \<Rightarrow> (if length answered < length calls then Block else Ret (), m')
           | (Panic, m') \<Rightarrow> (Panic, m')
           | (Block, m') \<Rightarrow> (Block, m'))"

definition initialize_p2p_mesh ::
  "net_env \<Rightarrow> (nat \<Rightarrow> nat \<Rightarrow> systime \<times> systime) \<Rightarrow> string list \<Rightarrow> broker \<Rightarrow> bool outcome \<times> broker" where
  "initialize_p2p_mesh nv clock bootstrap b =
     (let ev = nv_env nv; d = bk_draws b in
      case nv_ip nv (bk_address b) of
        None \<Rightarrow> (Ret False, b)
      | Some ip \<Rightarrow>
          (case ms_new (ev_uuid ev d) (ev_uuid ev (Suc d)) (ev_clock ev d) (ev_clock ev (Suc d))
             \<lparr>sa_ip = ip, sa_port = bk_port b\<rparr> (bk_partition_id b) (bk_total_partitions b) (secs 5) (secs 10) (secs 30) 8 of
             Ret m \<Rightarrow>
               (case ms_start (ev_clock ev (d + 2)) m of
                  (Ret _, m1) \<Rightarrow>
                    (case join_bootstrap nv (d + 3) clock bootstrap m1 of
                       (Ret _, m2) \<Rightarrow>
                         (if \<not> nv_write_grant nv (bk_mesh_lock b) then (Block, queue_writer b)
                          else (Ret True, draw_many (5 + length bootstrap) (put_mesh m2 b)))
                     | (Panic, _) \<Rightarrow> (Panic, draw_many (5 + length bootstrap) b)
                     | (Block, _) \<Rightarrow> (Block, b))
                | (Panic, _) \<Rightarrow> (Panic, draw_many 3 b)
                | (Block, _) \<Rightarrow> (Block, b))
           | Panic \<Rightarrow> (Panic, draw_many 2 b)
           | Block \<Rightarrow> (Block, b)))"

section \<open>Laws of the mesh lock\<close>

lemma drop_result_simps [simp]:
  "drop_result (Ret x, s) = (Ret (), s)" "drop_result (Panic, s) = (Panic, s)" "drop_result (Block, s) = (Block, s)"
  by (simp_all add: drop_result_def)

text \<open>
  While a read guard is held, a request that is answered waits for ever; one that fails changes
  nothing but the draws.
\<close>

lemma request_held:
  assumes "tokio_rwlock nv" and "0 < ml_readers (bk_mesh_lock b)"
    and "request_mesh_topology_from_node nv addr b = (r, b')" and "nv_topology nv (bk_draws b) addr \<noteq> Waits"
  shows "if \<exists>resp. nv_topology nv (bk_draws b) addr = Answer resp
         then r = Block \<and> b' = tick (queue_writer b) else (\<exists>ok. r = Ret ok) \<and> b' = tick b"
  using assms by (auto simp: request_mesh_topology_from_node_def tokio_rwlock_def split: reply.splits)

lemma requests_held:
  assumes "tokio_rwlock nv" and "0 < ml_readers (bk_mesh_lock b)" and "\<forall>k a. nv_topology nv k a \<noteq> Waits"
    and "n \<in> set ns" and "\<forall>k. \<exists>resp. nv_topology nv k (ni_address n) = Answer resp"
  shows "\<exists>k. run_ops (map (\<lambda>n b. drop_result (request_mesh_topology_from_node nv (ni_address n) b)) ns) b =
     (Block, (queue_writer b)\<lparr>bk_draws := k\<rparr>)"
  using assms(2,4)
proof (induction ns arbitrary: b)
  case (Cons x ns)
  obtain r b' where q: "request_mesh_topology_from_node nv (ni_address x) b = (r, b')" by fastforce
  note held = request_held [OF assms(1) Cons.prems(1) q]
  have w: "nv_topology nv (bk_draws b) (ni_address x) \<noteq> Waits" using assms(3) by simp
  show ?case
  proof (cases "\<exists>resp. nv_topology nv (bk_draws b) (ni_address x) = Answer resp")
    case True
    then have "r = Block" "b' = tick (queue_writer b)" using held [OF w] by auto
    then show ?thesis using q by (auto simp: tick_def queue_writer_def)
  next
    case False
    then have "n \<in> set ns" using Cons.prems(2) assms(5) by auto
    moreover have b': "\<exists>ok. r = Ret ok" "b' = tick b" using held [OF w] False by auto
    ultimately obtain k where "run_ops (map (\<lambda>n b. drop_result (request_mesh_topology_from_node nv (ni_address n) b)) ns)
        (tick b) = (Block, (queue_writer (tick b))\<lparr>bk_draws := k\<rparr>)"
      using Cons.IH [of "tick b"] Cons.prems(1) by (auto simp: tick_def)
    with b' q show ?thesis by (auto simp: tick_def queue_writer_def)
  qed
qed simp

text \<open>With a writer waiting, everything that touches the mesh waits too.\<close>

lemma queued_writer_blocks:
  assumes "tokio_rwlock nv" and "ml_waiting (bk_mesh_lock b)"
  shows "bk_get_node_for_partition nv p b = Block" and "bk_get_mesh_topology nv b = Block"
    and "find_target nv p b = (Block, b)" and "bk_gossip_message nv g b = (Block, b)"
    and "bk_leave_mesh nv b = (Block, b)" and "discover_nodes nv b = (Block, b)"
  using assms
  by (simp_all add: tokio_rwlock_def bk_get_node_for_partition_def bk_get_mesh_topology_def find_target_def
      bk_gossip_message_def bk_leave_mesh_def discover_nodes_def queue_writer_def upt_rec)

text \<open>The other tasks of the broker do not give back the guard of a search that is under way.\<close>

definition guards_kept :: "net_env \<Rightarrow> bool" where
  "guards_kept nv \<longleftrightarrow>
     (\<forall>k b. 0 < ml_readers (bk_mesh_lock b) \<longrightarrow> 0 < ml_readers (bk_mesh_lock (nv_background nv k b)))"

lemma first_answer_guard:
  assumes "guards_kept nv" and "first_answer nv self ns b = (r, b')" and "0 < ml_readers (bk_mesh_lock b)"
  shows "0 < ml_readers (bk_mesh_lock b')"
proof -
  have p: "0 < ml_readers (bk_mesh_lock (pause nv b))" if "0 < ml_readers (bk_mesh_lock b)" for b
    using that assms(1) by (simp add: pause_def guards_kept_def)
  show ?thesis using assms(2,3)
    by (induction ns arbitrary: b) (auto simp: tick_def p split: if_splits reply.splits)
qed

lemma manual_sync_guard:
  assumes "guards_kept nv" and "manual_sync nv b = (Ret True, b')"
  shows "0 < ml_readers (bk_mesh_lock b')"
  using assms(2) first_answer_guard [OF assms(1), of _ _ "hold_read b"]
  by (auto simp: manual_sync_def hold_read_def split: if_splits option.splits prod.splits outcome.splits)

section \<open>Properties\<close>

text \<open>
  Property C11: discovery deadlocks the mesh. When no route to a partition is known, the broker
  asks the nodes of its topology while it holds the read guard of the mesh; if one of them answers and none
  leaves the call hanging, the call waits for its own guard for ever. From then on every publish for another partition and
  every mesh handler of the broker blocks too.
\<close>

theorem discovery_deadlocks:
  assumes "tokio_rwlock nv" and "bk_mesh_lock b = mesh_free" and "bk_p2p_mesh b = Some m" and "hash_order (nv_nodes nv)"
    and "n \<in> snd ` set (tp_nodes (ms_topology m))" and "\<forall>k. \<exists>resp. nv_topology nv k (ni_address n) = Answer resp"
    and "\<forall>k a. nv_topology nv k a \<noteq> Waits" and "discover_nodes nv b = (r, b')"
  shows "r = Block
     \<and> (\<forall>req p. target_partition (pr_key req) b' = Ret p \<and> p \<noteq> bk_partition_id b' \<longrightarrow> publish nv req b' = (Block, b'))
     \<and> (\<forall>g. bk_gossip_message nv g b' = (Block, b')) \<and> bk_mesh_topology_handler nv b' = (Block, b')
     \<and> bk_join_mesh nv b' = (Block, b') \<and> bk_leave_mesh nv b' = (Block, b')"
proof -
  have n: "n \<in> set (map snd (nv_nodes nv (tp_nodes (ms_topology m))))"
    using assms(5) by (simp add: hash_order_set [OF assms(4)])
  have "0 < ml_readers (bk_mesh_lock (hold_read b))" by (simp add: hold_read_def)
  from requests_held [OF assms(1) this assms(7) n assms(6)]
  have r: "r = Block" and "ml_waiting (bk_mesh_lock b')"
    using assms(1,2,3,8) by (auto simp: discover_nodes_def tokio_rwlock_def mesh_free_def queue_writer_def)
  note blk = queued_writer_blocks [OF assms(1) this(2)]
  have "publish nv req b' = (Block, b')" if "target_partition (pr_key req) b' = Ret p" "p \<noteq> bk_partition_id b'" for req p
    using that blk(3) by (simp add: publish_def forward_message_to_partition_def owns_partition_def)
  with r blk show ?thesis by (simp add: bk_mesh_topology_handler_def bk_join_mesh_def)
qed

text \<open>
  Property C12: a gossip message during a search deadlocks the mesh. When none of the known nodes
  answers the synchronisation of a search, the search keeps its read guard; a gossip message that
  comes in before the last look-up waits for that guard, the look-up waits behind the gossip message,
  and the publish never ends. From then on every handler that touches the mesh blocks.
\<close>

theorem gossip_during_search_deadlocks:
  assumes "tokio_rwlock nv" and "guards_kept nv"
    and "target_partition (pr_key req) b = Ret p" and "p \<noteq> bk_partition_id b"
    and "lookup_attempts nv p [0..<3] b = (Ret None, b1)" and "manual_sync nv b1 = (Ret True, b2)"
    and "nv_background nv (bk_draws b2) b2 = snd (bk_gossip_message nv g b2)"
    and "publish nv req b = (r, b')"
  shows "r = Block \<and> (\<forall>g. bk_gossip_message nv g b' = (Block, b')) \<and> bk_mesh_topology_handler nv b' = (Block, b')
     \<and> bk_join_mesh nv b' = (Block, b') \<and> bk_leave_mesh nv b' = (Block, b')"
proof -
  have "bk_gossip_message nv g b2 = (Block, queue_writer b2)"
    using manual_sync_guard [OF assms(2,6)] assms(1) by (simp add: bk_gossip_message_def tokio_rwlock_def)
  then have "pause nv b2 = (queue_writer b2)\<lparr>bk_draws := Suc (bk_draws b2)\<rparr>"
    using assms(7) by (simp add: pause_def)
  then have w: "ml_waiting (bk_mesh_lock (pause nv b2))" by (simp add: queue_writer_def)
  note blk = queued_writer_blocks [OF assms(1) w]
  have "find_target nv p b = (Block, pause nv b2)"
    using assms(5,6) blk(1) by (simp add: find_target_def)
  then have "r = Block" "b' = pause nv b2"
    using assms(3,4,8) by (auto simp: publish_def forward_message_to_partition_def owns_partition_def)
  with blk show ?thesis by (simp add: bk_mesh_topology_handler_def bk_join_mesh_def)
qed

text \<open>
  Property C5: publishing acknowledges before anything is stored. When the message belongs to this
  broker, its topic exists and no batch is ready yet, \<open>publish\<close> reports success; the offset it
  reports is the value of the message counter, the storage and the broadcast channels are untouched,
  and the message waits at the end of the batcher.
\<close>

theorem publish_acknowledges_queued:
  assumes "target_partition (pr_key req) b = Ret (bk_partition_id b)" and "hm_contains (bk_topics b) (pr_topic req)"
    and "bp_wf (bk_batcher b)"
    and "fst (bp_get_ready_batches (\<lambda>i. ev_instant (nv_env nv) (Suc (bk_draws b) + i))
           (bp_add (ev_instant (nv_env nv) (bk_draws b)) req (bk_batcher b))) = []"
    and "publish nv req b = (r, b')"
  shows "\<exists>resp. r = Ret (Inr resp) \<and> ps_success resp \<and> ps_offset resp = wrap_s 64 (int (bk_message_counter b))
     \<and> bk_storage b' = bk_storage b \<and> bk_sent b' = bk_sent b
     \<and> bp_contents (bk_batcher b') = bp_contents (bk_batcher b) @ [req]"
proof -
  let ?ev = "nv_env nv"
  let ?p = "bp_add (ev_instant ?ev (bk_draws b)) req (bk_batcher b)"
  obtain p' where rd: "bp_get_ready_batches (\<lambda>i. ev_instant ?ev (Suc (bk_draws b) + i)) ?p = ([], p')"
    using assms(4) by (metis prod.collapse)
  have add: "bp_add_message (ev_instant ?ev (bk_draws b)) req (bk_batcher b) = (Inr (), ?p)"
    by (auto simp: bp_add_def bp_add_message_def split: prod.splits bool.splits)
  have "bp_drain (\<lambda>i. ev_instant ?ev (Suc (bk_draws b) + i)) ?p = ([], p')" using rd by (simp add: bp_drain_def)
  then have cont: "bp_contents p' = bp_contents (bk_batcher b) @ [req]"
    using bp_drain_contents bp_add_contents [OF assms(3)] by fastforce
  have "take_ready ?ev (tick (b\<lparr>bk_batcher := ?p\<rparr>)) =
      ([], (tick (b\<lparr>bk_batcher := ?p\<rparr>))\<lparr>bk_batcher := p', bk_draws := Suc (bk_draws b) + length (bp_batches ?p)\<rparr>)"
    using rd by (simp add: take_ready_def tick_def)
  then show ?thesis
    using assms(1,2,5) add cont
    by (auto simp: publish_def publish_local_def ensure_topic_def topic_section_def fetch_counter_def tick_def)
qed

text \<open>
  Property C26: a forwarded message is taken by exactly the owner of its key. The partition the
  publisher computes survives the two casts of the wire format: a broker refuses the forwarded
  request as misrouted exactly if its partition is another one, and the broker of that partition
  owns the key.
\<close>

theorem forwarded_to_owner:
  assumes "target_partition (pr_key req) b = Ret p" and "bk_total_partitions b \<le> 2 ^ 32"
    and "bk_partition_id b2 < 2 ^ 32"
  shows "((\<exists>e. fst (bk_forward_message ev (forward_request_for req p b) b2) = Ret (Inl (FailedPrecondition e)))
       \<longleftrightarrow> bk_partition_id b2 \<noteq> p)
     \<and> (bk_total_partitions b2 = bk_total_partitions b \<longrightarrow>
          (owns_partition (pr_key req) b2 = Ret True \<longleftrightarrow> bk_partition_id b2 = p))"
proof -
  have "p < 2 ^ 32" using assms(1,2) by (auto simp: target_partition_def split: if_splits)
     (metis mod_less_divisor order_less_le_trans)
  then have "wrap_u 32 (wrap_s 32 (int p)) = p" by (rule wrap_u_wrap_s)
  then have "(\<exists>e. fst (bk_forward_message ev (forward_request_for req p b) b2) = Ret (Inl (FailedPrecondition e)))
       \<longleftrightarrow> bk_partition_id b2 \<noteq> p"
    by (auto simp: bk_forward_message_def forward_request_for_def Let_def
        split: prod.splits outcome.splits option.splits)
  moreover have "owns_partition (pr_key req) b2 = Ret True \<longleftrightarrow> bk_partition_id b2 = p"
    if "bk_total_partitions b2 = bk_total_partitions b"
    using assms(1) that by (auto simp: owns_partition_def target_partition_def split: if_splits)
  ultimately show ?thesis by blast
qed

section \<open>Witnesses\<close>

definition example_net :: net_env where
  "example_net = \<lparr>nv_env = example_env, nv_parse = (\<lambda>_ _. None), nv_parse_addr = (\<lambda>_. None), nv_ip = Some,
     nv_topology = (\<lambda>_ _. Answer peer_answer), nv_forward = (\<lambda>_ _ _. NoConnection), nv_background = (\<lambda>_ b. b),
     nv_nodes = rev, nv_owners = rev, nv_brokers = rev,
     nv_read_grant = (\<lambda>l. \<not> ml_waiting l), nv_write_grant = (\<lambda>l. ml_readers l = 0 \<and> \<not> ml_waiting l)\<rparr>"

definition example_peer :: node_info where
  "example_peer = \<lparr>ni_id = ''b'', ni_address = default_addr, ni_partition_id = 1, ni_total_partitions = 3,
     ni_last_seen = 0, ni_is_alive = True, ni_metadata = []\<rparr>"

definition meshed_broker :: broker where
  "meshed_broker = put_mesh (example_mesh\<lparr>ms_topology := snd (add_node 5 example_peer (ms_topology example_mesh))\<rparr>)
     example_broker"

theorem discovery_deadlocks_witness:
  "fst (discover_nodes example_net meshed_broker) = Block"
proof -
  let ?m = "example_mesh\<lparr>ms_topology := snd (add_node 5 example_peer (ms_topology example_mesh))\<rparr>"
  have "tokio_rwlock example_net" "hash_order (nv_nodes example_net)"
    by (simp_all add: tokio_rwlock_def example_net_def)
  moreover have "bk_mesh_lock meshed_broker = mesh_free" "bk_p2p_mesh meshed_broker = Some ?m"
    by (simp_all add: meshed_broker_def put_mesh_def example_broker_def bk_new_def new_with_cluster_def)
  moreover have "example_peer \<in> snd ` set (tp_nodes (ms_topology ?m))"
    by (simp add: add_node_def put_node_def example_mesh_def)
  moreover have "\<forall>k. \<exists>resp. nv_topology example_net k (ni_address example_peer) = Answer resp"
      "\<forall>k a. nv_topology example_net k a \<noteq> Waits"
    by (simp_all add: example_net_def)
  ultimately show ?thesis using discovery_deadlocks [OF _ _ _ _ _ _ _ surjective_pairing] by blast
qed

text \<open>A network that is down, and a gossip message during every wait.\<close>

definition busy_net :: net_env where
  "busy_net = example_net\<lparr>nv_topology := \<lambda>_ _. NoConnection,
     nv_background := \<lambda>_ b. snd (bk_gossip_message example_net
       \<lparr>gr_from_node_id = ''b'', gr_message_type = 4, gr_timestamp = 0, gr_ttl = 1\<rparr> b)\<rparr>"

lemma busy_gossip:
  "nv_background busy_net k b =
     (if ml_readers (bk_mesh_lock b) \<noteq> 0 \<or> ml_waiting (bk_mesh_lock b) then queue_writer b
      else case bk_p2p_mesh b of None \<Rightarrow> b | Some m \<Rightarrow> nv_background busy_net k b)"
  by (auto simp: busy_net_def bk_gossip_message_def example_net_def split: option.splits)

theorem gossip_during_search_deadlocks_witness:
  "fst (publish busy_net (example_request ''a'') example_broker) = Block"
proof -
  let ?b = example_broker
  let ?b1 = "?b\<lparr>bk_draws := 2\<rparr>"
  have b: "bk_p2p_mesh ?b = None" "bk_mesh_lock ?b = mesh_free" "bk_draws ?b = 0" "bk_partition_id ?b = 0"
    by (simp_all add: example_broker_def bk_new_def new_with_cluster_def)
  have nv: "tokio_rwlock busy_net" "guards_kept busy_net"
    by (auto simp: tokio_rwlock_def guards_kept_def busy_net_def example_net_def bk_gossip_message_def queue_writer_def)
  have tp: "target_partition (pr_key (example_request ''a'')) ?b = Ret 2"
    by (simp add: target_partition_def hash_key_def string_bytes_def example_request_def example_broker_def bk_new_def
        new_with_cluster_def)
  have look: "lookup_attempts busy_net 2 [0..<3] ?b = (Ret None, ?b1)"
    using nv(1) b by (simp add: upt_rec bk_get_node_for_partition_def tokio_rwlock_def pause_def busy_gossip mesh_free_def
        numeral_2_eq_2)
  have sync: "manual_sync busy_net ?b1 = (Ret True, hold_read ?b1)"
    using nv(1) b by (simp add: manual_sync_def tokio_rwlock_def mesh_free_def)
  have bg: "nv_background busy_net (bk_draws (hold_read ?b1)) (hold_read ?b1) = snd (bk_gossip_message busy_net
      \<lparr>gr_from_node_id = ''b'', gr_message_type = 4, gr_timestamp = 0, gr_ttl = 1\<rparr> (hold_read ?b1))"
    by (simp add: busy_gossip hold_read_def bk_gossip_message_def) (simp add: busy_net_def example_net_def)
  show ?thesis
    using gossip_during_search_deadlocks [OF nv tp _ look sync bg surjective_pairing] b(4) by simp
qed

theorem publish_acknowledges_queued_witness:
  "bp_contents (bk_batcher (snd (publish example_net (example_request ''a'')
     (example_broker\<lparr>bk_topics := [(''t'', [])], bk_partition_id := 2\<rparr>)))) = [example_request ''a'']"
proof -
  let ?b = "example_broker\<lparr>bk_topics := [(''t'', [])], bk_partition_id := 2\<rparr>"
  have bat: "bk_batcher ?b = bp_new 100 (millis 10)"
    by (simp add: example_broker_def bk_new_def new_with_cluster_def)
  have wf: "bp_wf (bk_batcher ?b)" "bp_contents (bk_batcher ?b) = []"
    unfolding bat by (rule bp_new_wf, simp) (simp add: bp_contents_def bp_new_def)
  have tp: "target_partition (pr_key (example_request ''a'')) ?b = Ret (bk_partition_id ?b)"
    by (simp add: target_partition_def hash_key_def string_bytes_def example_request_def example_broker_def bk_new_def
        new_with_cluster_def)
  have rd: "fst (bp_get_ready_batches (\<lambda>i. ev_instant (nv_env example_net) (Suc (bk_draws ?b) + i))
      (bp_add (ev_instant (nv_env example_net) (bk_draws ?b)) (example_request ''a'') (bk_batcher ?b))) = []"
    unfolding bat by (simp add: example_net_def example_env_def bp_get_ready_batches_def bp_add_def bp_add_message_def
        bp_push_new_def bp_new_def mb_add_message_def mb_new_def mb_is_ready_def millis_def)
  show ?thesis
    using publish_acknowledges_queued [OF tp _ wf(1) rd surjective_pairing] wf(2)
    by (auto simp: example_request_def)
qed

theorem forwarded_to_owner_witness:
  "\<exists>e. fst (bk_forward_message example_env (forward_request_for (example_request ''a'') 2 example_broker)
     (example_broker\<lparr>bk_partition_id := 1\<rparr>)) = Ret (Inl (FailedPrecondition e))"
proof -
  have "target_partition (pr_key (example_request ''a'')) example_broker = Ret 2"
    by (simp add: target_partition_def hash_key_def string_bytes_def example_request_def example_broker_def bk_new_def
        new_with_cluster_def)
  from forwarded_to_owner [OF this, of "example_broker\<lparr>bk_partition_id := 1\<rparr>" example_env] show ?thesis
    by (auto simp: example_broker_def bk_new_def new_with_cluster_def)
qed

end
