(* ===== verification/Consumer.thy ===== *)
theory Consumer
  imports Broker_Mesh
begin

text \<open>
  The consumer client, \<^verbatim>\<open>crates/consumer/src/consumer.rs\<close>. The gRPC client is the record \<open>client\<close> of
  the calls it offers; each acts on the state \<open>'w\<close> of the other side and gives an error text or an
  answer, and may wait for ever. \<open>broker_client\<close> is the client of a reachable broker: its calls are
  the broker's handlers.
\<close>

section \<open>The client\<close>

record join_answer =
  ja_success :: bool
  ja_member_id :: string
  ja_leader_id :: string
  ja_generation_id :: int
  ja_message :: string

record sync_answer =
  sy_success :: bool
  sy_assignment :: "byte list"
  sy_message :: string

record 'w client =
  cl_register :: "string \<Rightarrow> 'w \<Rightarrow> unit answer \<times> 'w"
  cl_subscribe :: "string \<Rightarrow> string \<Rightarrow> string \<Rightarrow> 'w \<Rightarrow> unit answer \<times> 'w"
  cl_join_group :: "string \<Rightarrow> string \<Rightarrow> string \<Rightarrow> string \<Rightarrow> string list \<Rightarrow> 'w \<Rightarrow> join_answer answer \<times> 'w"
  cl_sync_group :: "string \<Rightarrow> string \<Rightarrow> int \<Rightarrow> (string, byte list) hashmap \<Rightarrow> 'w \<Rightarrow> sync_answer answer \<times> 'w"
  cl_heartbeat :: "string \<Rightarrow> string \<Rightarrow> int \<Rightarrow> 'w \<Rightarrow> unit answer \<times> 'w"
  cl_acknowledge :: "string \<Rightarrow> string \<Rightarrow> string \<Rightarrow> string \<Rightarrow> 'w \<Rightarrow> unit answer \<times> 'w"
  cl_update_offset :: "string \<Rightarrow> string \<Rightarrow> int \<Rightarrow> string \<Rightarrow> 'w \<Rightarrow> unit answer \<times> 'w"

record consumer =
  co_consumer_id :: string
  co_group_id :: "string option"
  co_member_id :: string
  co_generation_id :: int
  co_assignment :: "int list"
  co_current_offset :: int

definition group_or_empty :: "consumer \<Rightarrow> string" where
  "group_or_empty c = (case co_group_id c of Some g \<Rightarrow> g | None \<Rightarrow> '''')"

text \<open>\<open>conn_ok\<close> is whether the connection could be made.\<close>

definition co_new ::
  "'w client \<Rightarrow> bool \<Rightarrow> string \<Rightarrow> string option \<Rightarrow> 'w \<Rightarrow> consumer answer \<times> 'w" where
  "co_new cl conn_ok uuid group_id w =
     (if \<not> conn_ok then (Ret (Inl ''transport error''), w)
      else case cl_register cl uuid w of
        (Ret (Inr _), w1) \<Rightarrow>
          (Ret (Inr \<lparr>co_consumer_id = uuid, co_group_id = group_id, co_member_id = '''', co_generation_id = 0,
             co_assignment = [], co_current_offset = 0\<rparr>), w1)
      | (Ret (Inl e), w1) \<Rightarrow> (Ret (Inl e), w1)
      | (Panic, w1) \<Rightarrow> (Panic, w1)
      | (Block, w1) \<Rightarrow> (Block, w1))"

text \<open>
  After the synchronisation the answer's assignment is not looked at: the assigned partition is the
  sum of the bytes of the member identifier modulo two.
\<close>

definition assigned_partition :: "string \<Rightarrow> int" where
  "assigned_partition member_id = wrap_s 32 (int (unat (hash_key member_id) mod 2))"

definition co_sync ::
  "'w client \<Rightarrow> string \<Rightarrow> consumer \<Rightarrow> 'w \<Rightarrow> unit answer \<times> consumer \<times> 'w" where
  "co_sync cl group_id c w =
     (case cl_sync_group cl group_id (co_member_id c) (co_generation_id c) [] w of
        (Ret (Inr s), w1) \<Rightarrow>
          (if \<not> sy_success s then (Ret (Inl (''Failed to sync group: '' @ sy_message s)), c, w1)
           else (Ret (Inr ()), c\<lparr>co_assignment := [assigned_partition (co_member_id c)]\<rparr>, w1))
      | (Ret (Inl e), w1) \<Rightarrow> (Ret (Inl e), c, w1)
      | (Panic, w1) \<Rightarrow> (Panic, c, w1)
      | (Block, w1) \<Rightarrow> (Block, c, w1))"

definition co_join_group ::
  "'w client \<Rightarrow> string \<Rightarrow> string list \<Rightarrow> consumer \<Rightarrow> 'w \<Rightarrow> unit answer \<times> consumer \<times> 'w" where
  "co_join_group cl group_id topics c w =
     (case cl_join_group cl group_id (co_member_id c) (co_consumer_id c) ''consumer'' topics w of
        (Ret (Inr j), w1) \<Rightarrow>
          (if \<not> ja_success j then (Ret (Inl (''Failed to join group: '' @ ja_message j)), c, w1)
           else co_sync cl group_id (c\<lparr>co_member_id := ja_member_id j, co_generation_id := ja_generation_id j\<rparr>) w1)
      | (Ret (Inl e), w1) \<Rightarrow> (Ret (Inl e), c, w1)
      | (Panic, w1) \<Rightarrow> (Panic, c, w1)
      | (Block, w1) \<Rightarrow> (Block, c, w1))"

definition co_subscribe :: "'w client \<Rightarrow> string \<Rightarrow> consumer \<Rightarrow> 'w \<Rightarrow> unit answer \<times> consumer \<times> 'w" where
  "co_subscribe cl topic c w =
     (case (case co_group_id c of
              Some g \<Rightarrow> co_join_group cl g [topic] c w
            | None \<Rightarrow> (Ret (Inr ()), c, w)) of
        (Ret (Inr _), c1, w1) \<Rightarrow>
          (case cl_subscribe cl (co_consumer_id c1) topic (group_or_empty c1) w1 of (r, w2) \<Rightarrow> (r, c1, w2))
      | (r, c1, w1) \<Rightarrow> (r, c1, w1))"

text \<open>One turn of the heartbeat task started by \<open>join_group\<close>; the result is ignored.\<close>

definition co_heartbeat_round :: "'w client \<Rightarrow> string \<Rightarrow> string \<Rightarrow> int \<Rightarrow> 'w \<Rightarrow> unit outcome \<times> 'w" where
  "co_heartbeat_round cl group_id member_id generation_id w =
     drop_result (cl_heartbeat cl group_id member_id generation_id w)"

text \<open>
  The task of \<open>consume\<close>: every message of the stream is handed to the application, acknowledged and
  its offset recorded. The messages go through an \<open>mpsc\<close> channel of tokio; \<open>app k\<close> is what becomes of
  the \<open>k\<close>-th one: the channel takes it, the application has dropped its end, or there is never room for
  it. The results of the hand-over and of the calls are ignored; what never returns stops the task.
\<close>

datatype app_send = Accepted | Closed | NoRoom

fun consume_loop ::
  "'w client \<Rightarrow> (nat \<Rightarrow> app_send) \<Rightarrow> nat \<Rightarrow> consumer \<Rightarrow> string \<Rightarrow> consume_response list \<Rightarrow> 'w \<Rightarrow>
   string list \<times> unit outcome \<times> 'w" where
  "consume_loop cl app k c topic [] w = ([], Ret (), w)"
| "consume_loop cl app k c topic (m # ms) w =
     (if app k = NoRoom then ([], Block, w)
      else
        let got = (if app k = Accepted then [cr_payload m] else []) in
        case cl_acknowledge cl (co_consumer_id c) topic (cr_message_id m) (group_or_empty c) w of
          (Ret _, w1) \<Rightarrow>
            (case cl_update_offset cl (co_consumer_id c) topic (cr_offset m) (group_or_empty c) w1 of
               (Ret _, w2) \<Rightarrow> (case consume_loop cl app (Suc k) c topic ms w2 of (out, r) \<Rightarrow> (got @ out, r))
             | (Panic, w2) \<Rightarrow> (got, Panic, w2)
             | (Block, w2) \<Rightarrow> (got, Block, w2))
        | (Panic, w1) \<Rightarrow> (got, Panic, w1)
        | (Block, w1) \<Rightarrow> (got, Block, w1))"

text \<open>The payloads of the messages that the application gets.\<close>

fun accepted :: "(nat \<Rightarrow> app_send) \<Rightarrow> nat \<Rightarrow> consume_response list \<Rightarrow> string list" where
  "accepted app k [] = []"
| "accepted app k (m # ms) = (if app k = Accepted then [cr_payload m] else []) @ accepted app (Suc k) ms"

section \<open>The client of a broker\<close>

fun status_text :: "status \<Rightarrow> string" where
  "status_text (Internal s) = s"
| "status_text (Unavailable s) = s"
| "status_text (FailedPrecondition s) = s"
| "status_text (InvalidArgument s) = s"
| "status_text (NotFound s) = s"

text \<open>A handler that panics resets the stream, which the client sees as an error.\<close>

fun remote :: "('a \<Rightarrow> 'c) \<Rightarrow> (status + 'a) outcome \<times> broker \<Rightarrow> 'c answer \<times> broker" where
  "remote f (Ret (Inr x), b) = (Ret (Inr (f x)), b)"
| "remote f (Ret (Inl e), b) = (Ret (Inl (status_text e)), b)"
| "remote f (Panic, b) = (Ret (Inl ''stream reset''), b)"
| "remote f (Block, b) = (Block, b)"

definition broker_client ::
  "env \<Rightarrow> ((string \<times> byte list) list \<Rightarrow> (string \<times> byte list) list) \<Rightarrow> broker client" where
  "broker_client ev \<pi> =
     \<lparr>cl_register = (\<lambda>client_id b. remote (\<lambda>_. ()) (bk_register b)),
      cl_subscribe = (\<lambda>consumer_id topic group_id b. remote (\<lambda>_. ()) (bk_subscribe ev consumer_id topic b)),
      cl_join_group = (\<lambda>group_id member_id client_id protocol_type topics b. remote
         (\<lambda>(member, leader, generation, protocol).
            \<lparr>ja_success = True, ja_member_id = member, ja_leader_id = leader, ja_generation_id = generation,
             ja_message = ''Joined group successfully''\<rparr>)
         (bk_join_group ev group_id member_id client_id protocol_type topics b)),
      cl_sync_group = (\<lambda>group_id member_id generation_id assignment b. remote
         (\<lambda>a. \<lparr>sy_success = True, sy_assignment = a, sy_message = ''Synced group successfully''\<rparr>)
         (case bk_sync_group \<pi> group_id member_id generation_id assignment b of (r, b') \<Rightarrow> (Ret r, b'))),
      cl_heartbeat = (\<lambda>group_id member_id generation_id b. remote (\<lambda>_. ())
         (case bk_heartbeat ev group_id member_id generation_id b of (r, b') \<Rightarrow> (Ret r, b'))),
      cl_acknowledge = (\<lambda>consumer_id topic message_id group_id b. remote (\<lambda>_. ()) (bk_acknowledge b)),
      cl_update_offset = (\<lambda>consumer_id topic off group_id b. remote (\<lambda>_. ())
         (case bk_update_offset consumer_id topic off b of (r, b') \<Rightarrow> (Ret r, b')))\<rparr>"

section \<open>Laws\<close>

lemma update_offset_get:
  assumes "hm_contains (bk_topics b) topic" and "0 \<le> off" and "bk_update_offset i topic off b = (r, b')"
  shows "bk_get_consumer_offset i topic b' = off" and "bk_topics b' = bk_topics b" and "bk_storage b' = bk_storage b"
  using assms by (auto simp: bk_update_offset_def set_consumer_offset_def bk_get_consumer_offset_def hashmap_simps)

lemma remote_Ret [simp]: "remote f (Ret r, b) = (Ret (map_sum status_text f r), b)"
  by (cases r) simp_all

lemma consume_loop_broker:
  assumes "hm_contains (bk_topics b) topic" and "\<forall>m \<in> set ms. 0 \<le> cr_offset m" and "ms \<noteq> []"
    and "\<forall>k. app k \<noteq> NoRoom" and "consume_loop (broker_client ev \<pi>) app k c topic ms b = (out, r, b')"
  shows "r = Ret () \<and> out = accepted app k ms \<and> bk_get_consumer_offset (co_consumer_id c) topic b' = cr_offset (last ms)
     \<and> bk_storage b' = bk_storage b"
  using assms(1-3,5)
proof (induction ms arbitrary: b out k)
  case (Cons m ms)
  let ?i = "co_consumer_id c"
  let ?got = "if app k = Accepted then [cr_payload m] else []"
  obtain u b1 where u: "bk_update_offset ?i topic (cr_offset m) b = (u, b1)" by fastforce
  have "0 \<le> cr_offset m" using Cons.prems(2) by simp
  note upd = update_offset_get [OF Cons.prems(1) this u]
  obtain out1 where o: "consume_loop (broker_client ev \<pi>) app (Suc k) c topic ms b1 = (out1, r, b')" "out = ?got @ out1"
    using Cons.prems(4) assms(4) u by (auto simp: broker_client_def bk_acknowledge_def Let_def split: prod.splits)
  show ?case
  proof (cases "ms = []")
    case True
    then show ?thesis using o upd by simp
  next
    case False
    have "hm_contains (bk_topics b1) topic" "\<forall>m \<in> set ms. 0 \<le> cr_offset m" using Cons.prems(1,2) upd(2) by simp_all
    from Cons.IH [OF this False o(1)] show ?thesis using o(2) upd(3) False by simp
  qed
qed simp

lemma accepted_all:
  "\<forall>i < length ms. app (k + i) = s \<Longrightarrow> accepted app k ms = (if s = Accepted then map cr_payload ms else [])"
proof (induction ms arbitrary: k)
  case (Cons m ms)
  have "\<forall>i < length ms. app (Suc k + i) = s" using Cons.prems by (metis Suc_less_eq add_Suc_shift length_Cons)
  moreover have "app k = s" using Cons.prems by (metis add_0_right length_greater_0_conv list.discI)
  ultimately show ?case using Cons.IH by simp
qed simp

section \<open>Properties\<close>

text \<open>
  Consuming from a broker. A consumer of a known topic hands every message of the
  stream to the application, in order, whatever its group and assignment; the broker then has the
  offset of the last message as the consumer's offset of the topic, also when the application had
  dropped its end of the channel and got nothing, while its storage, with the acknowledgements and
  offsets kept there, is unchanged.
\<close>

lemma consume_records_offsets:
  assumes "hm_contains (bk_topics b) topic" and "\<forall>m \<in> set ms. 0 \<le> cr_offset m" and "ms \<noteq> []"
    and "\<forall>k. app k \<noteq> NoRoom" and "consume_loop (broker_client ev \<pi>) app 0 c topic ms b = (out, r, b')"
  shows "r = Ret () \<and> ((\<forall>k < length ms. app k = Accepted) \<longrightarrow> out = map cr_payload ms)
     \<and> ((\<forall>k < length ms. app k = Closed) \<longrightarrow> out = [])
     \<and> bk_get_consumer_offset (co_consumer_id c) topic b' = cr_offset (last ms)
     \<and> bk_storage b' = bk_storage b"
proof -
  have "(\<forall>k < length ms. app k = s) \<Longrightarrow> accepted app 0 ms = (if s = Accepted then map cr_payload ms else [])" for s
    using accepted_all [of ms app 0 s] by simp
  from this [of Accepted] this [of Closed] show ?thesis using consume_loop_broker [OF assms] by simp
qed

lemma consume_records_offsets_example:
  "bk_get_consumer_offset ''c'' ''t'' (snd (snd (consume_loop (broker_client example_env rev) (\<lambda>_. Closed) 0
     \<lparr>co_consumer_id = ''c'', co_group_id = Some ''g'', co_member_id = ''m'', co_generation_id = 1, co_assignment = [1],
      co_current_offset = 0\<rparr> ''t''
     [\<lparr>cr_message_id = ''x'', cr_topic = ''t'', cr_payload = ''p'', cr_sent_at = 0, cr_offset = 7, cr_partition = 0\<rparr>]
     (example_broker\<lparr>bk_topics := [(''t'', [])]\<rparr>)))) = 7"
proof -
  let ?c = "\<lparr>co_consumer_id = ''c'', co_group_id = Some ''g'', co_member_id = ''m'', co_generation_id = 1, co_assignment = [1],
      co_current_offset = 0\<rparr>"
  let ?m = "\<lparr>cr_message_id = ''x'', cr_topic = ''t'', cr_payload = ''p'', cr_sent_at = 0, cr_offset = 7, cr_partition = 0\<rparr>"
  obtain out r b' where run: "consume_loop (broker_client example_env rev) (\<lambda>_. Closed) 0 ?c ''t'' [?m]
      (example_broker\<lparr>bk_topics := [(''t'', [])]\<rparr>) = (out, r, b')"
    by (metis prod_cases3)
  from consume_records_offsets [OF _ _ _ _ this] show ?thesis unfolding run by simp
qed

text \<open>
  The group's assignment does not reach the consumer. After every successful join the
  consumer's assignment is one partition, 0 or 1, computed from its member identifier alone,
  whatever the coordinator's answer holds, and the leader always sends an empty assignment map.
\<close>

lemma assignment_from_member_id:
  assumes "co_join_group cl g topics c w = (Ret (Inr ()), c', w')"
  shows "co_assignment c' = [int (unat (hash_key (co_member_id c')) mod 2)]
     \<and> (\<exists>j w1 s. cl_join_group cl g (co_member_id c) (co_consumer_id c) ''consumer'' topics w = (Ret (Inr j), w1)
          \<and> co_member_id c' = ja_member_id j \<and> co_generation_id c' = ja_generation_id j
          \<and> cl_sync_group cl g (ja_member_id j) (ja_generation_id j) [] w1 = (Ret (Inr s), w'))"
proof -
  have wrap: "assigned_partition x = int (unat (hash_key x) mod 2)" for x
  proof -
    have "unat (hash_key x) mod 2 = 0 \<or> unat (hash_key x) mod 2 = 1" by linarith
    then show ?thesis by (auto simp: assigned_partition_def wrap_s_def)
  qed
  show ?thesis using assms
    by (auto simp: co_join_group_def co_sync_def wrap split: prod.splits outcome.splits sum.splits if_splits)
qed

lemma assignment_from_member_id_example:
  "\<exists>c' b'. co_join_group (broker_client example_env rev) ''g'' [''t'']
     \<lparr>co_consumer_id = ''c'', co_group_id = Some ''g'', co_member_id = [], co_generation_id = 0, co_assignment = [],
      co_current_offset = 0\<rparr> example_broker = (Ret (Inr ()), c', b')
   \<and> co_assignment c' = [int (unat (hash_key (co_member_id c')) mod 2)]"
proof -
  have "\<exists>c' b'. co_join_group (broker_client example_env rev) ''g'' [''t'']
     \<lparr>co_consumer_id = ''c'', co_group_id = Some ''g'', co_member_id = [], co_generation_id = 0, co_assignment = [],
      co_current_offset = 0\<rparr> example_broker = (Ret (Inr ()), c', b')"
    by (simp add: co_join_group_def co_sync_def broker_client_def bk_join_group_def bk_sync_group_def handle_join_group_def
        join_group_def new_group_def new_member_def handle_sync_group_def sync_group_def example_env_def example_broker_def
        bk_new_def new_with_cluster_def gc_new_def tick_def in_s_def Let_def)
  then obtain c' b' where j: "co_join_group (broker_client example_env rev) ''g'' [''t'']
     \<lparr>co_consumer_id = ''c'', co_group_id = Some ''g'', co_member_id = [], co_generation_id = 0, co_assignment = [],
      co_current_offset = 0\<rparr> example_broker = (Ret (Inr ()), c', b')"
    by blast
  from conjI [OF j conjunct1 [OF assignment_from_member_id [OF j]]] show ?thesis by (intro exI)
qed

end
