(* ===== verification/Delivery.thy ===== *)
theory Delivery
  imports Consumer
begin

text \<open>
  From a broadcast channel to the application: \<open>MessageStream\<close> of
  \<^verbatim>\<open>crates/broker/src/broker.rs\<close>, the stream that the handler \<open>consume\<close> returns, together with the
  task of \<open>Consumer::consume\<close>. The receiving end of the channel is \<open>BroadcastStream\<close> of tokio-stream;
  the results of its polls are an argument. A receiver that has fallen behind by more than the
  capacity gets the error \<open>Lagged\<close> with the number of messages it missed.
\<close>

section \<open>The stream of a consumer\<close>

datatype 'a poll = Pending | Ready 'a

type_synonym channel_poll = "(nat + consume_response) option poll"

text \<open>\<open>lag_text n\<close> is the text of the error.\<close>

definition poll_next :: "(nat \<Rightarrow> string) \<Rightarrow> channel_poll \<Rightarrow> (status + consume_response) option poll" where
  "poll_next lag_text inner =
     (case inner of
        Ready (Some (Inr msg)) \<Rightarrow> Ready (Some (Inr msg))
      | Ready (Some (Inl n)) \<Rightarrow> Ready (Some (Inl (Internal (lag_text n))))
      | Ready None \<Rightarrow> Ready None
      | Pending \<Rightarrow> Pending)"

text \<open>
  What the consumer receives: the server sends the items of the stream until the first error status
  or the end, and the loop \<open>while let Ok(Some(message))\<close> ends at either.
\<close>

fun received :: "(status + consume_response) option poll list \<Rightarrow> consume_response list" where
  "received [] = []"
| "received (Pending # ps) = received ps"
| "received (Ready (Some (Inr m)) # ps) = m # received ps"
| "received (Ready (Some (Inl e)) # ps) = []"
| "received (Ready None # ps) = []"

definition consume_task ::
  "(nat \<Rightarrow> string) \<Rightarrow> 'w client \<Rightarrow> (nat \<Rightarrow> app_send) \<Rightarrow> consumer \<Rightarrow> string \<Rightarrow> channel_poll list \<Rightarrow> 'w \<Rightarrow>
   string list \<times> unit outcome \<times> 'w" where
  "consume_task lag_text cl app c topic polls w =
     consume_loop cl app 0 c topic (received (map (poll_next lag_text) polls)) w"

text \<open>The polls after which the stream goes on.\<close>

definition runs :: "channel_poll \<Rightarrow> bool" where
  "runs p = (case p of Ready None \<Rightarrow> False | Ready (Some (Inl _)) \<Rightarrow> False | _ \<Rightarrow> True)"

text \<open>
  \<open>Consumer::consume\<close>: \<open>opened consumer_id topic group_id\<close> is the answer of the call \<open>consume\<close>, with the
  polls of the channel behind the stream it gives. The result is what the receiver yields and whether
  it ends: the sender is dropped when the task has seen the end of the stream or has panicked.
\<close>

definition co_consume ::
  "(nat \<Rightarrow> string) \<Rightarrow> (string \<Rightarrow> string \<Rightarrow> string \<Rightarrow> 'w \<Rightarrow> channel_poll list answer \<times> 'w) \<Rightarrow> 'w client \<Rightarrow>
   (nat \<Rightarrow> app_send) \<Rightarrow> consumer \<Rightarrow> string \<Rightarrow> 'w \<Rightarrow> (string list \<times> bool) answer \<times> 'w" where
  "co_consume lag_text opened cl app c topic w =
     (case opened (co_consumer_id c) topic (group_or_empty c) w of
        (Ret (Inr polls), w1) \<Rightarrow>
          (case consume_task lag_text cl app c topic polls w1 of
             (out, r, w2) \<Rightarrow>
               (Ret (Inr (out, r = Panic \<or> r = Ret () \<and> list_ex (\<lambda>p. \<not> runs p) polls)), w2))
      | (Ret (Inl e), w1) \<Rightarrow> (Ret (Inl e), w1)
      | (Panic, w1) \<Rightarrow> (Panic, w1)
      | (Block, w1) \<Rightarrow> (Block, w1))"

text \<open>
  \<open>_publish_internal\<close>: a response goes to the channel of the own partition. The channel hands it
  back if it has no receiver.
\<close>

definition publish_internal ::
  "env \<Rightarrow> consume_response \<Rightarrow> broker \<Rightarrow> (consume_response + unit) \<times> broker" where
  "publish_internal ev resp b =
     (case ensure_channel ev (bk_partition_id b) b of
        (c, b1) \<Rightarrow> if ev_receivers ev (bk_draws b1) c > 0 then (Inr (), send c resp b1) else (Inl resp, b1))"

section \<open>Laws\<close>

definition channel_messages :: "channel_poll list \<Rightarrow> consume_response list" where
  "channel_messages polls = concat (map (\<lambda>p. case p of Ready (Some (Inr m)) \<Rightarrow> [m] | _ \<Rightarrow> []) polls)"

lemma received_append:
  "list_all runs polls \<Longrightarrow>
   received (map (poll_next lag_text) (polls @ rest)) = channel_messages polls @ received (map (poll_next lag_text) rest)"
  by (induction polls) (auto simp: poll_next_def channel_messages_def runs_def split: poll.splits option.splits sum.splits)

section \<open>Properties\<close>

text \<open>
  Property C17: a consumer that lags once is lost. If the channel has reported a lag, the consumer has
  got the messages up to that point and nothing after it, whatever the channel delivers from then on:
  its task has ended, although the channel is open and keeps the newest messages for it. The broker's
  record of the consumer's offset stays at the last message before the lag.
\<close>

theorem lagging_consumer_stops:
  assumes "hm_contains (bk_topics b) topic" and "list_all runs before"
    and "channel_messages before \<noteq> []" and "\<forall>m \<in> set (channel_messages before). 0 \<le> cr_offset m"
    and "\<forall>k. app k = Accepted"
    and "consume_task lag_text (broker_client ev \<pi>) app c topic (before @ Ready (Some (Inl n)) # later) b = (out, r, b')"
  shows "r = Ret () \<and> out = map cr_payload (channel_messages before)
     \<and> bk_get_consumer_offset (co_consumer_id c) topic b' = cr_offset (last (channel_messages before))"
proof -
  let ?ms = "channel_messages before"
  have "received (map (poll_next lag_text) (before @ Ready (Some (Inl n)) # later)) = ?ms"
    by (simp only: received_append [OF assms(2)]) (simp add: poll_next_def)
  then have run: "consume_loop (broker_client ev \<pi>) app 0 c topic ?ms b = (out, r, b')"
    using assms(6) by (simp add: consume_task_def)
  have "\<forall>k. app k \<noteq> NoRoom" using assms(5) by simp
  from consume_loop_broker [OF assms(1,4,3) this run] show ?thesis
    using accepted_all [of ?ms app 0 Accepted] assms(5) by simp
qed

theorem lagging_consumer_stops_witness:
  "fst (consume_task (\<lambda>_. []) (broker_client example_env rev) (\<lambda>_. Accepted)
     \<lparr>co_consumer_id = ''c'', co_group_id = None, co_member_id = [], co_generation_id = 0, co_assignment = [],
      co_current_offset = 0\<rparr> ''t''
     [Ready (Some (Inr \<lparr>cr_message_id = ''x'', cr_topic = ''t'', cr_payload = ''p'', cr_sent_at = 0, cr_offset = 0, cr_partition = 0\<rparr>)),
      Pending, Ready (Some (Inl 3)),
      Ready (Some (Inr \<lparr>cr_message_id = ''y'', cr_topic = ''t'', cr_payload = ''q'', cr_sent_at = 0, cr_offset = 4, cr_partition = 0\<rparr>))]
     (example_broker\<lparr>bk_topics := [(''t'', [])]\<rparr>)) = [''p'']"
proof -
  let ?m = "\<lparr>cr_message_id = ''x'', cr_topic = ''t'', cr_payload = ''p'', cr_sent_at = 0, cr_offset = 0, cr_partition = 0\<rparr>"
  let ?m' = "\<lparr>cr_message_id = ''y'', cr_topic = ''t'', cr_payload = ''q'', cr_sent_at = 0, cr_offset = 4, cr_partition = 0\<rparr>"
  let ?c = "\<lparr>co_consumer_id = ''c'', co_group_id = None, co_member_id = [], co_generation_id = 0, co_assignment = [],
      co_current_offset = 0\<rparr>"
  have cm: "channel_messages [Ready (Some (Inr ?m)), Pending] = [?m]" by (simp add: channel_messages_def)
  have run: "list_all runs [Ready (Some (Inr ?m)), Pending]" by (simp add: runs_def)
  obtain out r b' where t: "consume_task (\<lambda>_. []) (broker_client example_env rev) (\<lambda>_. Accepted) ?c ''t''
      ([Ready (Some (Inr ?m)), Pending] @ Ready (Some (Inl 3)) # [Ready (Some (Inr ?m'))])
      (example_broker\<lparr>bk_topics := [(''t'', [])]\<rparr>) = (out, r, b')"
    by (metis prod_cases3)
  from lagging_consumer_stops [OF _ run _ _ _ t] have "out = [''p'']" by (simp add: cm)
  then show ?thesis using t by simp
qed

end
