(* ===== verification/Producer.thy ===== *)
theory Producer
  imports Rafka_Proto Memory_Pool
begin

text \<open>
  The producer client: \<^verbatim>\<open>crates/producer/src/connection_pool.rs\<close> and
  \<^verbatim>\<open>crates/producer/src/producer.rs\<close>. Opening a connection and the \<open>publish\<close> remote
  procedure call are the generated gRPC client, so they are arguments of the definitions:
  \<open>connect\<close> gives the result of dialling the endpoint, \<open>rpc\<close> the answer of the other side, whose
  state is \<open>'w\<close>, to a request sent over a connection.
\<close>

section \<open>The connection pool\<close>

record 'c connection_pool =
  cp_connections :: "'c list"
  cp_max_connections :: nat

definition cp_new :: "nat \<Rightarrow> 'c connection_pool" where
  "cp_new max_connections = \<lparr>cp_connections = [], cp_max_connections = max_connections\<rparr>"

definition cp_get_connection ::
  "(string + 'c) \<Rightarrow> 'c connection_pool \<Rightarrow> (string + 'c) \<times> 'c connection_pool" where
  "cp_get_connection connect p =
     (if cp_connections p \<noteq> [] then
        (Inr (last (cp_connections p)), p\<lparr>cp_connections := butlast (cp_connections p)\<rparr>)
      else case connect of
        Inl e \<Rightarrow> (Inl (''Failed to connect: '' @ e), p)
      | Inr c \<Rightarrow> (Inr c, p))"

definition cp_return_connection :: "'c \<Rightarrow> 'c connection_pool \<Rightarrow> 'c connection_pool" where
  "cp_return_connection c p =
     (if length (cp_connections p) < cp_max_connections p
      then p\<lparr>cp_connections := cp_connections p @ [c]\<rparr> else p)"

section \<open>The producer\<close>

record 'c producer =
  pd_pool :: "'c connection_pool"
  pd_producer_id :: string

text \<open>
  \<open>Producer::new\<close> checks the address, \<open>endpoint\<close>, and keeps at most ten connections; the identifier is
  a fresh UUID. A connection goes back to the pool only after an answer.
\<close>

definition pd_new :: "(string + unit) \<Rightarrow> string \<Rightarrow> string + 'c producer" where
  "pd_new endpoint uuid =
     (case endpoint of
        Inl e \<Rightarrow> Inl e
      | Inr _ \<Rightarrow> Inr \<lparr>pd_pool = cp_new 10, pd_producer_id = uuid\<rparr>)"

type_synonym ('c, 'w) publish_rpc = "'c \<Rightarrow> publish_request \<Rightarrow> 'w \<Rightarrow> publish_response answer \<times> 'w"

definition pd_publish ::
  "(string + 'c) \<Rightarrow> ('c, 'w) publish_rpc \<Rightarrow> string \<Rightarrow> string \<Rightarrow> string \<Rightarrow> 'c producer \<Rightarrow> 'w \<Rightarrow>
   publish_response answer \<times> 'c producer \<times> 'w" where
  "pd_publish connect rpc topic message key pd w =
     (case cp_get_connection connect (pd_pool pd) of
        (Inl e, pool) \<Rightarrow> (Ret (Inl e), pd\<lparr>pd_pool := pool\<rparr>, w)
      | (Inr client, pool) \<Rightarrow>
          (case rpc client \<lparr>pr_producer_id = pd_producer_id pd, pr_topic = topic, pr_key = key,
               pr_payload = message\<rparr> w of
             (Ret (Inr result), w') \<Rightarrow> (Ret (Inr result), pd\<lparr>pd_pool := cp_return_connection client pool\<rparr>, w')
           | (Ret (Inl e), w') \<Rightarrow> (Ret (Inl e), pd\<lparr>pd_pool := pool\<rparr>, w')
           | (Panic, w') \<Rightarrow> (Panic, pd\<lparr>pd_pool := pool\<rparr>, w')
           | (Block, w') \<Rightarrow> (Block, pd\<lparr>pd_pool := pool\<rparr>, w')))"

section \<open>The pool is bounded\<close>

interpretation conn_pool: bounded_pool cp_connections cp_max_connections cp_return_connection "\<lambda>c. c"
  by unfold_locales (simp_all add: cp_return_connection_def)

definition pd_wf :: "'c producer \<Rightarrow> bool" where
  "pd_wf pd \<longleftrightarrow> length (cp_connections (pd_pool pd)) \<le> cp_max_connections (pd_pool pd)"

lemma cp_get_pool:
  "cp_get_connection connect p = (r, p') \<Longrightarrow>
   cp_max_connections p' = cp_max_connections p \<and>
   length (cp_connections p') = length (cp_connections p) - 1"
  by (auto simp: cp_get_connection_def split: if_splits sum.splits)

lemma pd_publish_wf:
  assumes "pd_wf pd"
  shows "pd_wf (fst (snd (pd_publish connect rpc topic message key pd w)))"
proof -
  obtain r p' where 1: "cp_get_connection connect (pd_pool pd) = (r, p')" by fastforce
  have "length (cp_connections p') \<le> cp_max_connections p'"
    using cp_get_pool [OF 1] assms by (simp add: pd_wf_def)
  with 1 show ?thesis
    by (auto simp: pd_publish_def pd_wf_def conn_pool.give_bounded split: sum.splits outcome.splits prod.splits)
qed

section \<open>A producer publishing a sequence of messages\<close>

abbreviation request_of :: "string \<Rightarrow> string \<times> string \<times> string \<Rightarrow> publish_request" where
  "request_of pid x \<equiv> (case x of (topic, message, key) \<Rightarrow>
     \<lparr>pr_producer_id = pid, pr_topic = topic, pr_key = key, pr_payload = message\<rparr>)"

text \<open>
  A caller that publishes the messages \<open>xs\<close> one after the other until one is not answered; the
  \<open>i\<close>-th call would get \<open>dial i\<close> from the network if it had to open a connection. \<open>rpc_all\<close> is the same
  over one connection, without a producer.
\<close>

fun pd_publish_all ::
  "(nat \<Rightarrow> string + 'c) \<Rightarrow> ('c, 'w) publish_rpc \<Rightarrow> nat \<Rightarrow> (string \<times> string \<times> string) list \<Rightarrow> 'c producer \<Rightarrow> 'w \<Rightarrow>
   unit answer \<times> 'c producer \<times> 'w" where
  "pd_publish_all dial rpc i [] pd w = (Ret (Inr ()), pd, w)"
| "pd_publish_all dial rpc i ((topic, message, key) # xs) pd w =
     (case pd_publish (dial i) rpc topic message key pd w of
        (Ret (Inr _), pd', w') \<Rightarrow> pd_publish_all dial rpc (Suc i) xs pd' w'
      | (Ret (Inl e), pd', w') \<Rightarrow> (Ret (Inl e), pd', w')
      | (Panic, pd', w') \<Rightarrow> (Panic, pd', w')
      | (Block, pd', w') \<Rightarrow> (Block, pd', w'))"

fun rpc_all :: "(publish_request \<Rightarrow> 'w \<Rightarrow> publish_response answer \<times> 'w) \<Rightarrow> publish_request list \<Rightarrow> 'w \<Rightarrow> unit answer \<times> 'w" where
  "rpc_all rpc [] w = (Ret (Inr ()), w)"
| "rpc_all rpc (q # qs) w =
     (case rpc q w of
        (Ret (Inr _), w') \<Rightarrow> rpc_all rpc qs w'
      | (Ret (Inl e), w') \<Rightarrow> (Ret (Inl e), w')
      | (Panic, w') \<Rightarrow> (Panic, w')
      | (Block, w') \<Rightarrow> (Block, w'))"

lemma pd_publish_one:
  assumes "cp_connections (pd_pool pd) = [c]" and "0 < cp_max_connections (pd_pool pd)"
    and "rpc c (request_of (pd_producer_id pd) (topic, message, key)) w = (r, w')"
  shows "pd_publish connect rpc topic message key pd w =
     (r, if \<exists>x. r = Ret (Inr x) then pd else pd\<lparr>pd_pool := (pd_pool pd)\<lparr>cp_connections := []\<rparr>\<rparr>, w')"
  using assms
  by (auto simp: pd_publish_def cp_get_connection_def cp_return_connection_def split: outcome.splits sum.splits)

text \<open>Once there is a connection, the producer is transparent: what it gives is what the other side gives.\<close>

lemma pd_publish_all_one:
  assumes "cp_connections (pd_pool pd) = [c]" and "0 < cp_max_connections (pd_pool pd)"
    and "pd_publish_all dial rpc i xs pd w = (r, pd', w')"
  shows "rpc_all (rpc c) (map (request_of (pd_producer_id pd)) xs) w = (r, w') \<and> (r = Ret (Inr ()) \<longrightarrow> pd' = pd)"
  using assms(3)
proof (induction xs arbitrary: i w)
  case (Cons x xs)
  obtain topic message key where x: "x = (topic, message, key)" by (cases x)
  obtain r1 w1 where q: "rpc c (request_of (pd_producer_id pd) (topic, message, key)) w = (r1, w1)" by fastforce
  note one = pd_publish_one [where rpc = rpc, OF assms(1,2) q]
  show ?case using Cons.prems Cons.IH [of "Suc i" w1] q x by (auto simp: one split: outcome.splits sum.splits)
qed simp

text \<open>
  A producer needs one connection. If the first dial succeeds and the first message is answered, the
  outcome of publishing a sequence of messages is that of sending the requests built from them, in
  order, over that first connection; later dials, which may all fail, are never needed, and at the end
  of a complete run the connection is back in the pool.
\<close>

lemma producer_uses_one_connection:
  assumes "dial 0 = Inr c" and "pd_new endpoint uuid = Inr pd"
    and "rpc c (request_of uuid x) w = (Ret (Inr resp), w1)"
    and "pd_publish_all dial rpc 0 (x # xs) pd w = (r, pd', w')"
  shows "rpc_all (rpc c) (map (request_of uuid) (x # xs)) w = (r, w')
     \<and> (r = Ret (Inr ()) \<longrightarrow> cp_connections (pd_pool pd') = [c])"
proof -
  obtain topic message key where x: "x = (topic, message, key)" by (cases x)
  let ?pd = "\<lparr>pd_pool = \<lparr>cp_connections = [c], cp_max_connections = 10\<rparr>, pd_producer_id = uuid\<rparr>"
  have pd: "pd = \<lparr>pd_pool = cp_new 10, pd_producer_id = uuid\<rparr>" using assms(2) by (simp add: pd_new_def split: sum.splits)
  have "pd_publish (dial 0) rpc topic message key pd w = (Ret (Inr resp), ?pd, w1)"
    using assms(1,3) x by (simp add: pd pd_publish_def cp_new_def cp_get_connection_def cp_return_connection_def)
  then have rest: "pd_publish_all dial rpc (Suc 0) xs ?pd w1 = (r, pd', w')" using assms(4) x by simp
  from pd_publish_all_one [OF _ _ rest] show ?thesis using assms(3) by auto
qed

end
