(* ===== verification/Broker_System.thy ===== *)
theory Broker_System
  imports Broker_Mesh
begin

text \<open>
  The broker as a transition system: every handler of the service and every round of the background
  flusher is a step. The system property is about the composition of the publish path, the batcher,
  the storage and the broadcast channels: what can ever reach a consumer.
\<close>

section \<open>Steps\<close>

text \<open>
  The part of the state that carries messages. While a handler waits in the forwarding code, other
  tasks run; what they do to this part are steps of their own.
\<close>

definition message_path :: "broker \<Rightarrow> _" where
  "message_path b = (bk_sent b, bk_storage b, bk_topics b, bk_batcher b, bk_partition_id b, bk_total_partitions b,
     zp_limits (bk_zero_copy b))"

definition background_ok :: "net_env \<Rightarrow> bool" where
  "background_ok nv \<longleftrightarrow> (\<forall>k b. message_path (nv_background nv k b) = message_path b)"

text \<open>The log files of the partitions can be recovered.\<close>

definition logs_recover :: "env \<Rightarrow> bool" where
  "logs_recover ev \<longleftrightarrow> (\<forall>pol topic pid. \<exists>q. pq_new (ev_ovf ev) (ev_deser ev) pol (ev_fs ev topic pid) = Ret q)"

inductive broker_step :: "env \<Rightarrow> broker \<Rightarrow> broker \<Rightarrow> bool" for ev where
  publish: "nv_env nv = ev \<Longrightarrow> background_ok nv \<Longrightarrow> publish nv req b = (r, b') \<Longrightarrow> broker_step ev b b'"
| flusher: "flusher_round ev b = (r, b') \<Longrightarrow> broker_step ev b b'"
| forward: "bk_forward_message ev fr b = (r, b') \<Longrightarrow> broker_step ev b b'"
| consume: "bk_consume ev b = (c, b') \<Longrightarrow> broker_step ev b b'"
| subscribe: "bk_subscribe ev consumer_id topic b = (r, b') \<Longrightarrow> broker_step ev b b'"
| update_offset: "bk_update_offset consumer_id topic off b = (s, b') \<Longrightarrow> broker_step ev b b'"
| join_group: "bk_join_group ev g m c p ts b = (r, b') \<Longrightarrow> broker_step ev b b'"
| sync_group: "bk_sync_group \<pi> g m gen a b = (s, b') \<Longrightarrow> broker_step ev b b'"
| heartbeat: "bk_heartbeat ev g m gen b = (s, b') \<Longrightarrow> broker_step ev b b'"
| retention: "bk_update_retention_policy ev clock age bytes b = (r, b') \<Longrightarrow> broker_step ev b b'"
| cleanup: "bk_cleanup_old_messages ev clock b = (r, b') \<Longrightarrow> broker_step ev b b'"
| join_cluster: "bk_join_cluster ev \<pi> pb b = (s, b') \<Longrightarrow> broker_step ev b b'"
| health: "bk_health_check ev i b = (r, b') \<Longrightarrow> broker_step ev b b'"
| config: "load_cluster_config ev cfg b = (s, b') \<Longrightarrow> broker_step ev b b'"
| gossip: "nv_env nv = ev \<Longrightarrow> bk_gossip_message nv g b = (r, b') \<Longrightarrow> broker_step ev b b'"
| topology: "nv_env nv = ev \<Longrightarrow> bk_mesh_topology_handler nv b = (r, b') \<Longrightarrow> broker_step ev b b'"
| join_mesh: "nv_env nv = ev \<Longrightarrow> bk_join_mesh nv b = (r, b') \<Longrightarrow> broker_step ev b b'"
| leave_mesh: "nv_env nv = ev \<Longrightarrow> bk_leave_mesh nv b = (r, b') \<Longrightarrow> broker_step ev b b'"
| start_mesh: "nv_env nv = ev \<Longrightarrow> initialize_p2p_mesh nv clock bs b = (r, b') \<Longrightarrow> broker_step ev b b'"
| shutdown: "broker_step ev b (bk_shutdown b)"

section \<open>The invariant\<close>

text \<open>
  Nothing was broadcast, every topic has its partition in the storage, and the messages in the
  batcher are for known topics.
\<close>

definition topics_stored :: "broker \<Rightarrow> bool" where
  "topics_stored b \<longleftrightarrow> (\<forall>t. hm_contains (bk_topics b) t \<longrightarrow> get_queue (bk_storage b) t (partition_i32 b) \<noteq> None)"

definition silent :: "broker \<Rightarrow> bool" where
  "silent b \<longleftrightarrow> bk_sent b = [] \<and> topics_stored b
     \<and> (\<forall>req \<in> set (bp_contents (bk_batcher b)). hm_contains (bk_topics b) (pr_topic req))"

lemma silent_path: "message_path b' = message_path b \<Longrightarrow> silent b' = silent b"
  by (simp add: silent_def topics_stored_def message_path_def partition_i32_def)

lemma path_tick [simp]: "message_path (tick b) = message_path b"
  by (simp add: message_path_def tick_def)

lemma path_put_mesh [simp]: "message_path (put_mesh m b) = message_path b"
  by (simp add: message_path_def put_mesh_def)

lemma path_draw_many [simp]: "message_path (draw_many n b) = message_path b"
  by (simp add: message_path_def draw_many_def)

lemma path_pause [simp]: "background_ok nv \<Longrightarrow> message_path (pause nv b) = message_path b"
  by (simp add: message_path_def pause_def background_ok_def)

lemma path_updates [simp]:
  "message_path (b\<lparr>bk_mesh_lock := l\<rparr>) = message_path b" "message_path (b\<lparr>bk_coordinator := gs\<rparr>) = message_path b"
  "message_path (b\<lparr>bk_cluster_manager := cm\<rparr>) = message_path b"
  "message_path (b\<lparr>bk_draws := n\<rparr>) = message_path b" "message_path (b\<lparr>bk_pool := p\<rparr>) = message_path b"
  "message_path (b\<lparr>bk_message_counter := n\<rparr>) = message_path b"
  by (simp_all add: message_path_def)

lemma path_lock [simp]:
  "message_path (hold_read b) = message_path b" "message_path (release_read b) = message_path b"
  "message_path (queue_writer b) = message_path b" "message_path (end_search held b) = message_path b"
  by (simp_all add: message_path_def hold_read_def release_read_def queue_writer_def end_search_def Let_def)

section \<open>Forwarding does not touch the message path\<close>

lemma path_lookup:
  assumes "background_ok nv" and "lookup_attempts nv p as b = (r, b')"
  shows "message_path b' = message_path b"
  using assms
  by (induction nv p as b rule: lookup_attempts.induct) (auto split: outcome.splits option.splits if_splits)

lemma path_first_answer:
  assumes "background_ok nv" and "first_answer nv self ns b = (x, b')"
  shows "message_path b' = message_path b"
  using assms
  by (induction nv self ns b rule: first_answer.induct) (auto split: reply.splits if_splits)

lemma path_apply_sync: "apply_sync nv resp b = (r, b') \<Longrightarrow> message_path b' = message_path b"
  by (auto simp: apply_sync_def split: if_splits option.splits prod.splits)

lemma path_manual_sync:
  assumes "background_ok nv" and "manual_sync nv b = (r, b')"
  shows "message_path b' = message_path b"
proof (cases "bk_p2p_mesh b")
  case (Some m)
  obtain r1 b1 where f: "first_answer nv (bk_broker_id b) (map snd (nv_nodes nv (tp_nodes (ms_topology m)))) (hold_read b) = (r1, b1)"
    by fastforce
  have p: "message_path b1 = message_path b" using path_first_answer [OF assms(1) f] by simp
  show ?thesis using assms(2) Some f p
    by (auto simp: manual_sync_def dest!: path_apply_sync split: if_splits option.splits outcome.splits prod.splits)
qed (use assms(2) in \<open>auto simp: manual_sync_def split: if_splits\<close>)

lemma path_fallback: "cluster_fallback nv p b = (r, b') \<Longrightarrow> message_path b' = message_path b"
  by (auto simp: cluster_fallback_def split: option.splits outcome.splits)

lemma path_find_target:
  assumes "background_ok nv" and "find_target nv p b = (r, b')"
  shows "message_path b' = message_path b"
proof -
  obtain r1 b1 where 1: "lookup_attempts nv p [0..<3] b = (r1, b1)" by fastforce
  obtain r2 b2 where 2: "manual_sync nv b1 = (r2, b2)" by fastforce
  have "message_path b2 = message_path b" "message_path b1 = message_path b"
    using path_lookup [OF assms(1) 1] path_manual_sync [OF assms(1) 2] by simp_all
  then show ?thesis using assms 1 2
    by (auto simp: find_target_def Let_def dest!: path_fallback split: outcome.splits option.splits prod.splits)
qed

lemma path_request: "request_mesh_topology_from_node nv a b = (r, b') \<Longrightarrow> message_path b' = message_path b"
  by (auto simp: request_mesh_topology_from_node_def split: reply.splits if_splits option.splits)

lemma path_requests:
  "run_ops (map (\<lambda>n b. drop_result (request_mesh_topology_from_node nv (ni_address n) b)) ns) b = (r, b') \<Longrightarrow>
   message_path b' = message_path b"
proof (induction ns arbitrary: b)
  case (Cons n ns)
  obtain r1 b1 where q: "request_mesh_topology_from_node nv (ni_address n) b = (r1, b1)" by fastforce
  show ?case using Cons q path_request [OF q] by (cases r1) auto
qed simp

lemma path_discover:
  assumes "discover_nodes nv b = (r, b')"
  shows "message_path b' = message_path b"
proof (cases "bk_p2p_mesh b")
  case (Some m)
  obtain r1 b1 where q: "run_ops (map (\<lambda>n b. drop_result (request_mesh_topology_from_node nv (ni_address n) b))
      (map snd (nv_nodes nv (tp_nodes (ms_topology m))))) (hold_read b) = (r1, b1)" by fastforce
  show ?thesis using assms Some q path_requests [OF q]
    by (cases r1) (auto simp: discover_nodes_def split: if_splits)
qed (use assms in \<open>auto simp: discover_nodes_def split: if_splits\<close>)

lemma path_forward_to:
  assumes "background_ok nv" and "forward_to nv req p n b = (r, b')"
  shows "message_path b' = message_path b"
  using assms by (auto simp: forward_to_def split: reply.splits)

lemma path_forwarding:
  assumes "background_ok nv" and "p \<noteq> bk_partition_id b" and "forward_message_to_partition nv req p b = (r, b')"
  shows "message_path b' = message_path b"
proof -
  obtain r1 b1 where 1: "find_target nv p b = (r1, b1)" by fastforce
  note f = path_find_target [OF assms(1) 1]
  obtain r2 b2 where 2: "discover_nodes nv b1 = (r2, b2)" by fastforce
  show ?thesis using assms(2,3) 1 2 f path_discover [OF 2]
    by (auto simp: forward_message_to_partition_def dest!: path_forward_to [OF assms(1)]
        split: outcome.splits option.splits prod.splits)
qed

section \<open>Appends\<close>

lemma path_ensure_channel: "ensure_channel ev p b = (c, b') \<Longrightarrow> message_path b' = message_path b"
  by (auto simp: ensure_channel_def message_path_def Let_def split: option.splits if_splits)

lemma path_flusher_channel: "flusher_channel b = (c, b') \<Longrightarrow> message_path b' = message_path b"
  by (auto simp: flusher_channel_def channel_section_def message_path_def split: option.splits)

lemma path_frame_batch: "frame_batch batch b = (items, b') \<Longrightarrow> message_path b' = message_path b"
  by (auto simp: frame_batch_def Let_def message_path_def process_batch_limits split: prod.splits)

lemma path_take_pooled: "take_pooled b = (m, b') \<Longrightarrow> message_path b' = message_path b"
  by (auto simp: take_pooled_def split: prod.splits)

lemma path_pool [simp]:
  "message_path (drop_pooled m b) = message_path b" "message_path (hold_pooled m b) = message_path b"
  by (simp_all add: drop_pooled_def hold_pooled_def)

text \<open>The partitions of the storage only grow.\<close>

definition same_partitions :: "storage \<Rightarrow> storage \<Rightarrow> bool" where
  "same_partitions s s' \<longleftrightarrow> (\<forall>t p. (get_queue s' t p = None) = (get_queue s t p = None))"

lemma same_partitions_put:
  assumes "get_queue s t p = Some q0"
  shows "same_partitions s (put_queue t p q s)"
proof -
  obtain ps where "hm_get (st_topics s) t = Some ps" using get_queue_topic [OF assms] by blast
  then show ?thesis using assms by (auto simp: same_partitions_def get_put_queue)
qed

lemma append_same_partitions:
  assumes "st_append ovf grant ser io now now' t p m s = (r, s')"
  shows "same_partitions s s'"
proof (cases "get_queue s t p")
  case (Some q)
  then show ?thesis using assms same_partitions_put [OF Some] by (auto simp: st_append_def split: prod.splits outcome.splits)
qed (use assms in \<open>simp add: st_append_def same_partitions_def\<close>)

lemma pq_append_no_return:
  assumes "exclusive_lock grant" and "pq_append ovf grant ser io now now' m p q = (r, q')"
  shows "r \<noteq> Ret off"
  using assms
  by (auto simp: pq_append_def enforce_retention_policy_def exclusive_lock_def Let_def split: if_splits outcome.splits)

lemma st_append_no_return:
  assumes "exclusive_lock grant" and "get_queue s t p \<noteq> None" and "st_append ovf grant ser io now now' t p m s = (r, s')"
  shows "r \<noteq> Ret off"
  using assms by (auto simp: st_append_def dest!: pq_append_no_return [OF assms(1)] split: prod.splits outcome.splits)

lemma silent_storage:
  assumes "silent b" and "same_partitions (bk_storage b) s"
  shows "silent (b\<lparr>bk_storage := s\<rparr>)"
  using assms by (simp add: silent_def topics_stored_def same_partitions_def partition_i32_def)

text \<open>An append of the broker for a known topic keeps the invariant and does not return.\<close>

lemma storage_append_silent:
  assumes "storage_append ev topic payload b = (r, b')" and "silent b"
  shows "silent b'" and "bk_topics b' = bk_topics b" and "bk_batcher b' = bk_batcher b"
    and "bk_partition_id b' = bk_partition_id b"
    and "exclusive_lock (ev_grant ev) \<Longrightarrow> hm_contains (bk_topics b) topic \<Longrightarrow> r \<noteq> Ret off"
proof -
  obtain s where s: "st_append (ev_ovf ev) (ev_grant ev) (ev_ser ev) (ev_io ev (bk_draws b)) (ev_clock ev (bk_draws b))
      (ev_clock ev (Suc (bk_draws b))) topic (partition_i32 b) payload (bk_storage b) = (r, s)"
    and b': "b' = tick (tick (b\<lparr>bk_storage := s\<rparr>))"
    using assms(1) by (auto simp: storage_append_def split: prod.splits)
  have "silent (b\<lparr>bk_storage := s\<rparr>)" using silent_storage [OF assms(2) append_same_partitions [OF s]] .
  then show "silent b'" using b' silent_path [of b' "b\<lparr>bk_storage := s\<rparr>"] by simp
  show "bk_topics b' = bk_topics b" "bk_batcher b' = bk_batcher b" "bk_partition_id b' = bk_partition_id b"
    using b' by (simp_all add: tick_def)
  show "r \<noteq> Ret off" if "exclusive_lock (ev_grant ev)" "hm_contains (bk_topics b) topic"
    using st_append_no_return [OF that(1) _ s] that(2) assms(2) by (simp add: silent_def topics_stored_def)
qed

section \<open>The message path\<close>

definition broker_frame :: "broker \<Rightarrow> _" where
  "broker_frame b = (bk_topics b, bk_batcher b, bk_partition_id b, bk_total_partitions b, zp_limits (bk_zero_copy b))"

lemma frame_path: "message_path b' = message_path b \<Longrightarrow> broker_frame b' = broker_frame b"
  by (simp add: message_path_def broker_frame_def)

lemma frame_steps [simp]:
  "broker_frame (tick b) = broker_frame b" "broker_frame (drop_pooled m b) = broker_frame b"
  "broker_frame (hold_pooled m b) = broker_frame b" "broker_frame (send c resp b) = broker_frame b"
  "broker_frame (snd (fetch_counter b)) = broker_frame b"
  by (simp_all add: broker_frame_def tick_def drop_pooled_def hold_pooled_def send_def fetch_counter_def)

lemma frame_storage_append: "storage_append ev topic payload b = (r, b') \<Longrightarrow> broker_frame b' = broker_frame b"
  by (auto simp: storage_append_def broker_frame_def tick_def split: prod.splits)

lemma deliver_frame:
  assumes "deliver ev c (req, framed) b = (r, b')"
  shows "broker_frame b' = broker_frame b"
proof -
  obtain m b1 where t: "take_pooled b = (m, b1)" by fastforce
  have b1: "broker_frame b1 = broker_frame b" using frame_path [OF path_take_pooled [OF t]] .
  obtain a b3 where a: "storage_append ev (pr_topic req) (string_bytes (pr_payload req)) (tick (tick b1)) = (a, b3)"
    by fastforce
  have b3: "broker_frame b3 = broker_frame b" using frame_storage_append [OF a] b1 by simp
  show ?thesis
  proof (cases "unix_secs (ev_clock ev (bk_draws (tick b1)))")
    case (Ret sec)
    show ?thesis
    proof (cases a)
      case (Ret v)
      obtain off b4 where o: "(case v of Some off \<Rightarrow> (off, b3) | None \<Rightarrow> fetch_counter b3) = (off, b4)" by fastforce
      then have "broker_frame b4 = broker_frame b3"
        using frame_steps(5) [of b3] by (cases v) auto
      then show ?thesis using assms t a Ret \<open>unix_secs _ = _\<close> o b3 by (auto simp: deliver_def Let_def)
    qed (use assms t a \<open>unix_secs _ = _\<close> b3 in \<open>auto simp: deliver_def Let_def\<close>)
  qed (use assms t b1 in \<open>auto simp: deliver_def Let_def\<close>)
qed

lemma deliver_silent:
  assumes "deliver ev c (req, framed) b = (r, b')" and "silent b" and "exclusive_lock (ev_grant ev)"
    and "hm_contains (bk_topics b) (pr_topic req)"
  shows "silent b' \<and> broker_frame b' = broker_frame b"
proof -
  note fr = deliver_frame [OF assms(1)]
  have q: "get_queue (bk_storage b) (pr_topic req) (partition_i32 b) \<noteq> None"
    using assms(2,4) by (simp add: silent_def topics_stored_def)
  have "same_partitions (bk_storage b) (bk_storage b') \<and> bk_sent b' = bk_sent b"
    using deliver_effect [OF assms(1)]
  proof (elim disjE exE conjE)
    fix a
    assume a: "appended ev (pr_topic req) (partition_i32 b) (string_bytes (pr_payload req)) (bk_storage b) a (bk_storage b')"
      and c: "case a of
               Ret _ \<Rightarrow> r = Ret () \<and> (\<exists>resp. bk_sent b' = bk_sent b @ [(c, resp)] \<and> cr_topic resp = pr_topic req
                          \<and> cr_payload resp = from_utf8_lossy framed)
             | Panic \<Rightarrow> r = Panic \<and> bk_sent b' = bk_sent b
             | Block \<Rightarrow> r = Block \<and> bk_sent b' = bk_sent b"
    obtain io now now' where s: "st_append (ev_ovf ev) (ev_grant ev) (ev_ser ev) io now now' (pr_topic req) (partition_i32 b)
        (string_bytes (pr_payload req)) (bk_storage b) = (a, bk_storage b')"
      using a unfolding appended_def by blast
    have "a \<noteq> Ret x" for x by (rule st_append_no_return [OF assms(3) q s])
    then have "bk_sent b' = bk_sent b" using c by (cases a) auto
    with append_same_partitions [OF s] show ?thesis by simp
  qed (simp add: same_partitions_def)
  then show ?thesis using assms(2) fr
    by (auto simp: silent_def topics_stored_def same_partitions_def broker_frame_def partition_i32_def)
qed

lemma run_deliver_silent:
  assumes "run_ops (map (deliver ev c) items) b = (r, b')" and "silent b" and "exclusive_lock (ev_grant ev)"
    and "\<forall>x \<in> set items. hm_contains (bk_topics b) (pr_topic (fst x))"
  shows "silent b' \<and> broker_frame b' = broker_frame b"
  using assms(1,2,4)
proof (induction items arbitrary: b)
  case (Cons x items)
  obtain req framed where x: "x = (req, framed)" by (cases x)
  obtain r1 b1 where d: "deliver ev c (req, framed) b = (r1, b1)" by fastforce
  have s: "silent b1 \<and> broker_frame b1 = broker_frame b"
    using deliver_silent [OF d Cons.prems(2) assms(3)] Cons.prems(3) x by simp
  then have "\<forall>x \<in> set items. hm_contains (bk_topics b1) (pr_topic (fst x))"
    using Cons.prems(3) by (simp add: broker_frame_def)
  note IH = Cons.IH [OF _ conjunct1 [OF s] this]
  show ?case
  proof (cases r1)
    case (Ret u)
    then have "run_ops (map (deliver ev c) items) b1 = (r, b')" using Cons.prems(1) d x by simp
    from IH [OF this] s show ?thesis by simp
  qed (use Cons.prems(1) d x s in simp_all)
qed simp

lemma batch_silent:
  assumes "silent b" and "exclusive_lock (ev_grant ev)"
    and "\<forall>req \<in> set (mb_get_messages batch). hm_contains (bk_topics b) (pr_topic req)"
    and "bk_process_batch ev batch b = (r, b') \<or> flush_batch ev batch b = (r, b')"
  shows "silent b' \<and> broker_frame b' = broker_frame b"
proof (cases "mb_get_messages batch = []")
  case False
  obtain items b1 where f: "frame_batch batch b = (items, b1)" by fastforce
  obtain c b2 where c: "ensure_channel ev (bk_partition_id b1) b1 = (c, b2)" by fastforce
  obtain c' b3 where c': "flusher_channel b1 = (c', b3)" by fastforce
  have p: "message_path b2 = message_path b" "message_path b3 = message_path b"
    using path_frame_batch [OF f] path_ensure_channel [OF c] path_flusher_channel [OF c'] by simp_all
  have items: "\<forall>x \<in> set items. hm_contains (bk_topics b) (pr_topic (fst x))"
    using f assms(3) by (auto simp: frame_batch_def Let_def split: prod.splits dest!: set_zip_leftD)
  have s: "silent b2" "silent b3" "broker_frame b2 = broker_frame b" "broker_frame b3 = broker_frame b"
    using p silent_path frame_path assms(1) by blast+
  have i2: "\<forall>x \<in> set items. hm_contains (bk_topics b2) (pr_topic (fst x))"
    and i3: "\<forall>x \<in> set items. hm_contains (bk_topics b3) (pr_topic (fst x))"
    using items s(3,4) by (simp_all add: broker_frame_def)
  from assms(4) show ?thesis
  proof
    assume "bk_process_batch ev batch b = (r, b')"
    then have "run_ops (map (deliver ev c) items) b2 = (r, b')" using False f c by (simp add: bk_process_batch_def)
    from run_deliver_silent [OF this s(1) assms(2) i2] s(3) show ?thesis by simp
  next
    assume "flush_batch ev batch b = (r, b')"
    then have "run_ops (map (deliver ev c') items) b3 = (r, b')" using False f c' by (simp add: flush_batch_def)
    from run_deliver_silent [OF this s(2) assms(2) i3] s(4) show ?thesis by simp
  qed
qed (use assms in \<open>auto simp: bk_process_batch_def flush_batch_def\<close>)

lemma run_batches_silent:
  assumes "run_ops (map f batches) b = (r, b')" and "f = bk_process_batch ev \<or> f = flush_batch ev"
    and "silent b" and "exclusive_lock (ev_grant ev)"
    and "\<forall>batch \<in> set batches. \<forall>req \<in> set (mb_get_messages batch). hm_contains (bk_topics b) (pr_topic req)"
  shows "silent b'"
  using assms(1,3,5)
proof (induction batches arbitrary: b)
  case (Cons batch batches)
  obtain r1 b1 where d: "f batch b = (r1, b1)" by fastforce
  have "bk_process_batch ev batch b = (r1, b1) \<or> flush_batch ev batch b = (r1, b1)" using d assms(2) by auto
  then have s: "silent b1 \<and> broker_frame b1 = broker_frame b"
    by (rule batch_silent [OF Cons.prems(2) assms(4), rotated]) (use Cons.prems(3) in simp)
  then have "\<forall>batch \<in> set batches. \<forall>req \<in> set (mb_get_messages batch). hm_contains (bk_topics b1) (pr_topic req)"
    using Cons.prems(3) by (simp add: broker_frame_def)
  note IH = Cons.IH [OF _ conjunct1 [OF s] this]
  show ?case
  proof (cases r1)
    case (Ret u)
    then have "run_ops (map f batches) b1 = (r, b')" using Cons.prems(1) d by simp
    from IH [OF this] show ?thesis .
  qed (use Cons.prems(1) d s in simp_all)
qed simp

lemma take_ready_silent:
  assumes "take_ready ev b = (ready, b')" and "silent b"
  shows "silent b' \<and> bk_topics b' = bk_topics b
     \<and> (\<forall>batch \<in> set ready. \<forall>req \<in> set (mb_get_messages batch). hm_contains (bk_topics b) (pr_topic req))"
proof -
  obtain p where g: "bp_get_ready_batches (\<lambda>i. ev_instant ev (bk_draws b + i)) (bk_batcher b) = (ready, p)"
    and b': "b' = b\<lparr>bk_batcher := p, bk_draws := bk_draws b + length (bp_batches (bk_batcher b))\<rparr>"
    using assms(1) by (auto simp: take_ready_def split: prod.splits)
  have "bp_drain (\<lambda>i. ev_instant ev (bk_draws b + i)) (bk_batcher b) = (concat (map mb_get_messages ready), p)"
    using g by (simp add: bp_drain_def)
  then have "bp_contents (bk_batcher b) = concat (map mb_get_messages ready) @ bp_contents p" by (rule bp_drain_contents)
  then show ?thesis using assms(2) b' by (auto simp: silent_def topics_stored_def partition_i32_def)
qed

lemma ensure_topic_silent:
  assumes "ensure_topic ev topic b = (r, b')" and "silent b" and "logs_recover ev"
  shows "r = Ret () \<and> silent b' \<and> hm_contains (bk_topics b') topic \<and> bk_batcher b' = bk_batcher b
     \<and> bk_partition_id b' = bk_partition_id b"
proof (cases "hm_contains (bk_topics b) topic")
  case False
  let ?s = "create_topic topic (bk_storage b)"
  have t: "hm_get (st_topics ?s) topic = Some []" by (simp add: create_topic_def hashmap_simps)
  obtain q where q: "pq_new (ev_ovf ev) (ev_deser ev) (st_retention_policy ?s) (ev_fs ev topic (partition_i32 b)) = Ret q"
    using assms(3) unfolding logs_recover_def by blast
  have b': "r = Ret ()" "b' = b\<lparr>bk_topics := hm_insert topic [] (bk_topics b), bk_storage := put_queue topic (partition_i32 b) q ?s\<rparr>"
    using assms(1) False t q by (auto simp: ensure_topic_def topic_section_def create_partition_def Let_def)
  have "get_queue (put_queue topic (partition_i32 b) q ?s) u p =
      (if u = topic then if p = partition_i32 b then Some q else None else get_queue (bk_storage b) u p)" for u p
    using get_put_queue [OF t] by (auto simp: get_create_topic)
  then show ?thesis using assms(2) b'
    by (auto simp: silent_def topics_stored_def partition_i32_def hashmap_simps)
qed (use assms in \<open>simp add: ensure_topic_def topic_section_def\<close>)

lemma single_silent:
  assumes "process_single_message ev req b = (r, b')" and "silent b" and "exclusive_lock (ev_grant ev)"
    and "hm_contains (bk_topics b) (pr_topic req)"
  shows "silent b'"
proof -
  have t: "silent (tick b)" "bk_topics (tick b) = bk_topics b" using assms(2) silent_path [of "tick b" b] by simp_all
  obtain a b1 where a: "storage_append ev (pr_topic req) (string_bytes (pr_payload req)) (tick b) = (a, b1)" by fastforce
  note app = storage_append_silent [OF a t(1)]
  have no: "a \<noteq> Ret x" for x using app(5) assms(3,4) t(2) by simp
  show ?thesis
  proof (cases a)
    case (Ret v)
    then show ?thesis using no [of v] by simp
  qed (use assms(1) a app(1) in \<open>simp_all add: process_single_message_def\<close>)
qed

lemma publish_local_silent:
  assumes "publish_local ev req b = (r, b')" and "silent b" and "exclusive_lock (ev_grant ev)" and "logs_recover ev"
  shows "silent b'"
proof -
  obtain r1 b1 where e: "ensure_topic ev (pr_topic req) b = (r1, b1)" by fastforce
  note en = ensure_topic_silent [OF e assms(2,4)]
  let ?p = "bp_add (ev_instant ev (bk_draws b1)) req (bk_batcher b1)"
  let ?b2 = "tick (b1\<lparr>bk_batcher := ?p\<rparr>)"
  have add: "bp_add_message (ev_instant ev (bk_draws b1)) req (bk_batcher b1) = (Inr (), ?p)"
    by (auto simp: bp_add_def bp_add_message_def split: prod.splits bool.splits)
  have "set (bp_contents ?p) \<subseteq> set (bp_contents (bk_batcher b1)) \<union> {req}" by (rule bp_add_set)
  then have b2: "silent ?b2"
    using en silent_path [of ?b2 "b1\<lparr>bk_batcher := ?p\<rparr>"]
    by (auto simp: silent_def topics_stored_def partition_i32_def)
  obtain ready b3 where r: "take_ready ev ?b2 = (ready, b3)" by fastforce
  note tr = take_ready_silent [OF r b2]
  obtain r4 b4 where 4: "run_ops (map (bk_process_batch ev) ready) b3 = (r4, b4)" by fastforce
  have b4: "silent b4"
    using run_batches_silent [OF 4 disjI1 [OF refl] _ assms(3)] tr by simp
  obtain off b5 where f: "fetch_counter (tick b4) = (off, b5)" by fastforce
  then have "message_path b5 = message_path b4" by (auto simp: fetch_counter_def)
  then have b5: "silent b5" using silent_path b4 by blast
  show ?thesis using assms(1) e en add r 4 f b4 b5 by (cases r4) (auto simp: publish_local_def)
qed

lemma flusher_silent:
  assumes "flusher_round ev b = (r, b')" and "silent b" and "exclusive_lock (ev_grant ev)"
  shows "silent b'"
proof -
  obtain ready b1 where t: "take_ready ev b = (ready, b1)" by fastforce
  note tr = take_ready_silent [OF t assms(2)]
  have "run_ops (map (flush_batch ev) ready) b1 = (r, b')" using assms(1) t by (simp add: flusher_round_def)
  from run_batches_silent [OF this disjI2 [OF refl] _ assms(3)] tr show ?thesis by simp
qed

lemma forward_message_silent:
  assumes "bk_forward_message ev fr b = (r, b')" and "silent b" and "exclusive_lock (ev_grant ev)" and "logs_recover ev"
  shows "silent b'"
proof (cases "wrap_u 32 (fr_target_partition fr) = bk_partition_id b")
  case True
  obtain r1 b1 where e: "ensure_topic ev (fr_topic fr) b = (r1, b1)" by fastforce
  note en = ensure_topic_silent [OF e assms(2,4)]
  have t: "silent (tick b1)" "bk_topics (tick b1) = bk_topics b1" using en silent_path [of "tick b1" b1] by simp_all
  obtain a b2 where a: "storage_append ev (fr_topic fr) (string_bytes (fr_payload fr)) (tick b1) = (a, b2)" by fastforce
  note app = storage_append_silent [OF a t(1)]
  have no: "a \<noteq> Ret x" for x using app(5) assms(3) en t(2) by simp
  show ?thesis
  proof (cases a)
    case (Ret v)
    then show ?thesis using no [of v] by simp
  qed (use assms(1) True e en a app(1) in \<open>simp_all add: bk_forward_message_def\<close>)
qed (use assms(1,2) in \<open>simp add: bk_forward_message_def\<close>)

lemma publish_silent:
  assumes "publish nv req b = (r, b')" and "background_ok nv" and "silent b" and "exclusive_lock (ev_grant (nv_env nv))"
    and "logs_recover (nv_env nv)"
  shows "silent b'"
proof (cases "target_partition (pr_key req) b")
  case (Ret p)
  show ?thesis
  proof (cases "p = bk_partition_id b")
    case True
    then show ?thesis using assms(1) Ret publish_local_silent [OF _ assms(3-5)] by (simp add: publish_def)
  next
    case False
    then have "forward_message_to_partition nv req p b = (r, b')" using assms(1) Ret by (simp add: publish_def)
    from path_forwarding [OF assms(2) False this] show ?thesis using silent_path assms(3) by blast
  qed
qed (use assms(1,3) in \<open>simp_all add: publish_def\<close>)

section \<open>Storage maintenance\<close>

lemma each_partition_keys: "each_partition f ps = (r, ps') \<Longrightarrow> map fst ps' = map fst ps"
  by (induction f ps arbitrary: r ps' rule: each_partition.induct) (auto split: prod.splits outcome.splits)

lemma each_topic_get:
  assumes "each_topic f ts = (r, ts')"
  shows "rel_option (\<lambda>ps ps'. map fst ps' = map fst ps) (hm_get ts t) (hm_get ts' t)"
  using assms
proof (induction f ts arbitrary: r ts' rule: each_topic.induct)
  case (2 f topic ps ts)
  obtain r1 ps1 where 1: "each_partition (f topic) ps = (r1, ps1)" by fastforce
  obtain r2 ts2 where 2: "each_topic f ts = (r2, ts2)" by fastforce
  note keys = each_partition_keys [OF 1]
  have refl: "rel_option (\<lambda>ps ps'. map fst ps' = map fst ps) (hm_get ts t) (hm_get ts t)"
    by (cases "hm_get ts t") simp_all
  show ?case
  proof (cases r1)
    case (Ret u)
    then show ?thesis using 2 "2.prems" "2.IH" [OF 1 [symmetric] Ret 2] 1 keys by auto
  qed (use "2.prems" 1 keys refl in auto)
qed simp

lemma maintenance_same_partitions:
  assumes "each_topic f (st_topics s) = (r, ts)" and "st_topics s' = ts"
  shows "same_partitions s s'"
proof -
  have "(get_queue s' t p = None) = (get_queue s t p = None)" for t p
    using each_topic_get [OF assms(1), of t]
  proof cases
    case None
    then show ?thesis using assms(2) by (simp add: get_queue_def)
  next
    case (Some ps ps')
    then have "fst ` set ps' = fst ` set ps" by (metis set_map)
    then show ?thesis using Some assms(2) by (simp add: get_queue_def map_of_eq_None_iff)
  qed
  then show ?thesis by (simp add: same_partitions_def)
qed

lemma retention_same_partitions:
  "same_partitions s (snd (update_retention_policy ovf grant clock pol s))"
  "same_partitions s (snd (cleanup_old_messages ovf grant clock s))"
  by (cases "each_topic (\<lambda>t p. enforce_retention_policy ovf grant (clock t p)) (st_topics s)",
      auto simp: update_retention_policy_def cleanup_old_messages_def intro: maintenance_same_partitions)+

section \<open>The other handlers\<close>

lemma path_service:
  "bk_consume ev b = (c, b') \<Longrightarrow> message_path b' = message_path b"
  "bk_update_offset consumer_id topic off b = (s, b') \<Longrightarrow> message_path b' = message_path b"
  "bk_join_cluster ev \<pi> pb b = (s', b') \<Longrightarrow> message_path b' = message_path b"
  "bk_health_check ev i b = (r', b') \<Longrightarrow> message_path b' = message_path b"
  by (auto simp: bk_consume_def path_ensure_channel bk_update_offset_def set_consumer_offset_def message_path_def
      bk_join_cluster_def bk_health_check_def Let_def split: if_splits outcome.splits)
    (auto simp: message_path_def dest: path_ensure_channel)

lemma path_group:
  "bk_join_group ev g m c p ts b = (r, b') \<Longrightarrow> message_path b' = message_path b"
  "bk_sync_group \<pi> g m gen a b = (s, b') \<Longrightarrow> message_path b' = message_path b"
  "bk_heartbeat ev g m gen b = (h, b') \<Longrightarrow> message_path b' = message_path b"
  by (auto simp: bk_join_group_def bk_sync_group_def bk_heartbeat_def split: prod.splits outcome.splits sum.splits)

lemma path_config:
  assumes "load_cluster_config ev cfg b = (s, b')"
  shows "message_path b' = message_path b"
proof -
  have "message_path (fold (\<lambda>bc b. tick (b\<lparr>bk_cluster_manager :=
      add_broker (bi_new (ev_clock ev (bk_draws b)) bc) (bk_cluster_manager b)\<rparr>)) xs b) = message_path b" for xs
    by (induction xs arbitrary: b) simp_all
  then show ?thesis using assms by (auto simp: load_cluster_config_def split: option.splits)
qed

lemma path_shutdown: "message_path (bk_shutdown b) = message_path b"
proof -
  have "message_path (fold (\<lambda>p b. b\<lparr>bk_messages := hm_insert p (bk_next_channel b) (bk_messages b),
      bk_next_channel := Suc (bk_next_channel b)\<rparr>) ps b) = message_path b" for ps
    by (induction ps arbitrary: b) (simp_all add: message_path_def)
  then show ?thesis by (simp add: bk_shutdown_def)
qed

lemma path_mesh:
  "bk_gossip_message nv g b = (r1, b') \<Longrightarrow> message_path b' = message_path b"
  "bk_mesh_topology_handler nv b = (r2, b') \<Longrightarrow> message_path b' = message_path b"
  "bk_join_mesh nv b = (r3, b') \<Longrightarrow> message_path b' = message_path b"
  "bk_leave_mesh nv b = (r4, b') \<Longrightarrow> message_path b' = message_path b"
  subgoal by (auto simp: bk_gossip_message_def Let_def split: if_splits option.splits outcome.splits sum.splits prod.splits)
  subgoal by (auto simp: bk_mesh_topology_handler_def split: option.splits outcome.splits)
  subgoal by (auto simp: bk_join_mesh_def split: option.splits outcome.splits)
  subgoal by (auto simp: bk_leave_mesh_def Let_def split: if_splits option.splits outcome.splits prod.splits)
  done

lemma path_start_mesh: "initialize_p2p_mesh nv clock bs b = (r, b') \<Longrightarrow> message_path b' = message_path b"
  by (auto simp: initialize_p2p_mesh_def Let_def split: if_splits option.splits outcome.splits prod.splits)

lemma subscribe_silent:
  assumes "bk_subscribe ev consumer_id topic b = (r, b')" and "silent b" and "logs_recover ev"
  shows "silent b'"
proof -
  obtain r1 b1 where e: "ensure_topic ev topic b = (r1, b1)" by fastforce
  note en = ensure_topic_silent [OF e assms(2,3)]
  let ?ts = "AList.map_entry topic (List.insert consumer_id) (bk_topics b1)"
  have keys: "hm_contains ?ts u = hm_contains (bk_topics b1) u" for u
    by (simp add: map_of_map_entry split: option.splits)
  have b': "b' = b1\<lparr>bk_topics := ?ts\<rparr>" using assms(1) e en by (simp add: bk_subscribe_def)
  have frame: "bk_sent b' = bk_sent b1" "bk_topics b' = ?ts" "bk_storage b' = bk_storage b1" "bk_batcher b' = bk_batcher b1"
      "partition_i32 b' = partition_i32 b1"
    by (simp_all add: b' partition_i32_def)
  show ?thesis using en unfolding silent_def topics_stored_def frame keys by blast
qed

lemma maintenance_silent:
  assumes "silent b"
  shows "bk_update_retention_policy ev clock age bytes b = (r, b') \<Longrightarrow> silent b'"
    and "bk_cleanup_old_messages ev clock b = (r', b') \<Longrightarrow> silent b'"
proof -
  assume "bk_update_retention_policy ev clock age bytes b = (r, b')"
  then have "b' = b\<lparr>bk_storage := snd (update_retention_policy (ev_ovf ev) (ev_grant ev) clock
        \<lparr>rp_max_age = age, rp_max_bytes = bytes\<rparr> (bk_storage b))\<rparr>"
    by (auto simp: bk_update_retention_policy_def split: prod.splits)
  then show "silent b'" using silent_storage [OF assms retention_same_partitions(1)] by simp
next
  assume c: "bk_cleanup_old_messages ev clock b = (r', b')"
  let ?s = "snd (cleanup_old_messages (ev_ovf ev) (ev_grant ev) clock (bk_storage b))"
  have "b' = tick b \<or> b' = tick (b\<lparr>bk_storage := ?s\<rparr>)"
    using c by (auto simp: bk_cleanup_old_messages_def split: prod.splits outcome.splits if_splits)
  then show "silent b'"
    using assms silent_storage [OF assms retention_same_partitions(2)] silent_path [OF path_tick] by metis
qed

section \<open>The system\<close>

text \<open>The steps of a broker whose storage lock is exclusive and whose log files can be recovered.\<close>

definition sound_env :: "env \<Rightarrow> bool" where
  "sound_env ev \<longleftrightarrow> exclusive_lock (ev_grant ev) \<and> logs_recover ev"

definition started :: "broker \<Rightarrow> bool" where
  "started b \<longleftrightarrow> (\<exists>clock pid n pol address port. b = new_with_cluster clock pid n pol address port)"

lemma started_silent: "started b \<Longrightarrow> silent b"
  by (auto simp: started_def silent_def topics_stored_def new_with_cluster_def bp_contents_def bp_new_def)

lemma broker_step_silent:
  assumes "broker_step ev b b'" and "silent b" and "sound_env ev"
  shows "silent b'"
  using assms(1)
proof cases
  case (publish nv req r)
  then show ?thesis using publish_silent assms(2,3) by (auto simp: sound_env_def)
next
  case (flusher r)
  then show ?thesis using flusher_silent assms(2,3) by (auto simp: sound_env_def)
next
  case (forward fr r)
  then show ?thesis using forward_message_silent assms(2,3) by (auto simp: sound_env_def)
next
  case (subscribe consumer_id topic r)
  then show ?thesis using subscribe_silent assms(2,3) by (auto simp: sound_env_def)
next
  case (retention clock age bytes r)
  then show ?thesis using maintenance_silent(1) [OF assms(2)] by blast
next
  case (cleanup clock r)
  then show ?thesis using maintenance_silent(2) [OF assms(2)] by blast
next
  case shutdown
  then show ?thesis using silent_path path_shutdown assms(2) by blast
next
  case (consume c)
  show ?thesis using silent_path [OF path_service(1) [OF consume]] assms(2) by simp
next
  case (update_offset consumer_id topic off s)
  show ?thesis using silent_path [OF path_service(2) [OF update_offset]] assms(2) by simp
next
  case (join_cluster \<pi> pb s)
  show ?thesis using silent_path [OF path_service(3) [OF join_cluster]] assms(2) by simp
next
  case (health i r)
  show ?thesis using silent_path [OF path_service(4) [OF health]] assms(2) by simp
next
  case (join_group g m c p ts r)
  show ?thesis using silent_path [OF path_group(1) [OF join_group]] assms(2) by simp
next
  case (sync_group \<pi> g m gen a s)
  show ?thesis using silent_path [OF path_group(2) [OF sync_group]] assms(2) by simp
next
  case (heartbeat g m gen s)
  show ?thesis using silent_path [OF path_group(3) [OF heartbeat]] assms(2) by simp
next
  case (config cfg s)
  show ?thesis using silent_path [OF path_config [OF config]] assms(2) by simp
next
  case (gossip nv g r)
  show ?thesis using silent_path [OF path_mesh(1) [OF gossip(2)]] assms(2) by simp
next
  case (topology nv r)
  show ?thesis using silent_path [OF path_mesh(2) [OF topology(2)]] assms(2) by simp
next
  case (join_mesh nv r)
  show ?thesis using silent_path [OF path_mesh(3) [OF join_mesh(2)]] assms(2) by simp
next
  case (leave_mesh nv r)
  show ?thesis using silent_path [OF path_mesh(4) [OF leave_mesh(2)]] assms(2) by simp
next
  case (start_mesh nv clock bs r)
  show ?thesis using silent_path [OF path_start_mesh [OF start_mesh(2)]] assms(2) by simp
qed

interpretation service: invariant_system started "\<lambda>b b'. sound_env ev \<and> broker_step ev b b'" silent for ev
  by unfold_locales (auto intro: started_silent broker_step_silent)

text \<open>
  Property C4: nothing is ever delivered. In every state that a broker can reach from its start by
  any sequence of service calls and flusher rounds, nothing has been handed to a broadcast channel:
  the append that every delivery waits for never returns, so no consumer ever sees a message.
  Assumed are that the storage lock is exclusive and that the log files can be recovered.
\<close>

theorem nothing_is_ever_delivered:
  assumes "sound_env ev" and "started b" and "(broker_step ev)\<^sup>*\<^sup>* b b'"
  shows "bk_sent b' = []"
proof -
  have "(\<lambda>b b'. sound_env ev \<and> broker_step ev b b')\<^sup>*\<^sup>* b b'" using assms(1,3) by simp
  from service.inv_reachable [OF assms(2) this] show ?thesis by (simp add: silent_def)
qed

theorem nothing_is_ever_delivered_witness:
  "\<exists>b'. broker_step example_env (bk_new (\<lambda>_. 5) 0 1 None) b' \<and> bk_topics b' = [(''t'', [''c''])] \<and> bk_sent b' = []"
proof -
  let ?b = "bk_new (\<lambda>_. 5) 0 1 None"
  have env: "sound_env example_env"
    by (simp add: sound_env_def logs_recover_def example_env_def parking_lot_exclusive pq_new_def
        wal_read_all_def wal_new_def read_loop.simps)
  have init: "started ?b" unfolding started_def bk_new_def by blast
  obtain r b' where s: "bk_subscribe example_env ''c'' ''t'' ?b = (r, b')" by fastforce
  then have step: "broker_step example_env ?b b'" by (rule broker_step.subscribe)
  have "silent ?b" using init by (rule started_silent)
  moreover obtain r1 b1 where e: "ensure_topic example_env ''t'' ?b = (r1, b1)" by fastforce
  ultimately have "r1 = Ret ()" using ensure_topic_silent env by (simp add: sound_env_def)
  moreover have "bk_topics b1 = [(''t'', [])]"
    using e by (auto simp: ensure_topic_def topic_section_def bk_new_def new_with_cluster_def Let_def split: prod.splits outcome.splits)
  ultimately have "bk_topics b' = [(''t'', [''c''])]" using s e by (auto simp: bk_subscribe_def)
  moreover have "bk_sent b' = []" using nothing_is_ever_delivered [OF env init] step by blast
  ultimately show ?thesis using step by blast
qed

end
