(* ===== verification/Federation.thy ===== *)
theory Federation
  imports Broker_System
begin

text \<open>
  Several brokers that reach each other: the forwarding code of one broker, \<open>forward_message_to_partition\<close>
  of \<^verbatim>\<open>crates/broker/src/broker.rs\<close>, calls the handlers \<open>forward_message\<close> and
  \<open>get_mesh_topology\<close> of another. A network is a table from addresses to brokers. The remote answers of
  a broker's environment are no longer arbitrary: they are what the handlers of the addressed broker
  give. A publish and the call it makes at the other broker are one step. A topology request changes nothing at
  the other side but the number of clock readings (lemma \<open>topology_only_draws\<close>), which is not counted.
\<close>

section \<open>Remote calls\<close>

type_synonym network = "(socket_addr, broker) hashmap"

text \<open>An error status and a panic of the handler reach the caller as a failed call.\<close>

fun as_reply :: "(status + 'a) outcome \<Rightarrow> 'a reply" where
  "as_reply (Ret (Inr x)) = Answer x"
| "as_reply (Ret (Inl e)) = CallFailed"
| "as_reply Panic = CallFailed"
| "as_reply Block = Waits"

definition call :: "(broker \<Rightarrow> (status + 'a) outcome \<times> broker) \<Rightarrow> socket_addr \<Rightarrow> network \<Rightarrow> 'a reply \<times> network" where
  "call handler x N =
     (case hm_get N x of
        None \<Rightarrow> (NoConnection, N)
      | Some b \<Rightarrow> (case handler b of (r, b') \<Rightarrow> (as_reply r, hm_insert x b' N)))"

text \<open>The environment of the broker at \<open>a\<close> in the network; \<open>nvs\<close> has the rest of every environment.\<close>

definition linked :: "(socket_addr \<Rightarrow> net_env) \<Rightarrow> network \<Rightarrow> socket_addr \<Rightarrow> net_env" where
  "linked nvs N a = (nvs a)\<lparr>
     nv_forward := \<lambda>_ x fr. fst (call (bk_forward_message (nv_env (nvs x)) fr) x N),
     nv_topology := \<lambda>_ x. fst (call (bk_mesh_topology_handler (nvs x)) x N)\<rparr>"

text \<open>The call to \<open>forward_message\<close> that a publish makes, if it makes one.\<close>

definition forward_call :: "net_env \<Rightarrow> publish_request \<Rightarrow> broker \<Rightarrow> (socket_addr \<times> forward_request) option" where
  "forward_call nv req b =
     (case target_partition (pr_key req) b of
        Ret p \<Rightarrow>
          (if p = bk_partition_id b then None
           else case find_target nv p b of
             (Ret (Some node), b1) \<Rightarrow> Some (ni_address node, forward_request_for req p b1)
           | _ \<Rightarrow> None)
      | _ \<Rightarrow> None)"

definition net_publish ::
  "(socket_addr \<Rightarrow> net_env) \<Rightarrow> socket_addr \<Rightarrow> publish_request \<Rightarrow> network \<Rightarrow>
   (status + publish_response) outcome option \<times> network" where
  "net_publish nvs a req N =
     (case hm_get N a of
        None \<Rightarrow> (None, N)
      | Some b \<Rightarrow>
          (let nv = linked nvs N a;
               (r, b') = publish nv req b;
               N' = (case forward_call nv req b of
                       None \<Rightarrow> N
                     | Some (x, fr) \<Rightarrow> snd (call (bk_forward_message (nv_env (nvs x)) fr) x N))
           in (Some r, hm_insert a b' N')))"

text \<open>
  A run of a network: publishes, and whatever else happens to its brokers in between. The results of the
  publishes are kept, with their requests.
\<close>

datatype net_event = NPublish socket_addr publish_request | NOther socket_addr "broker \<Rightarrow> broker"

fun net_run ::
  "(socket_addr \<Rightarrow> net_env) \<Rightarrow> net_event list \<Rightarrow> network \<Rightarrow>
   (publish_request \<times> (status + publish_response) outcome option) list \<times> network" where
  "net_run nvs [] N = ([], N)"
| "net_run nvs (NPublish a req # es) N =
     (case net_publish nvs a req N of
        (r, N1) \<Rightarrow> (case net_run nvs es N1 of (rs, N2) \<Rightarrow> ((req, r) # rs, N2)))"
| "net_run nvs (NOther a f # es) N =
     net_run nvs es (case hm_get N a of None \<Rightarrow> N | Some b \<Rightarrow> hm_insert a (f b) N)"

section \<open>Laws\<close>

lemma linked_frame [simp]:
  "nv_env (linked nvs N a) = nv_env (nvs a)" "nv_background (linked nvs N a) = nv_background (nvs a)"
  by (simp_all add: linked_def)

lemma linked_background [simp]: "background_ok (linked nvs N a) = background_ok (nvs a)"
  by (simp add: background_ok_def)

text \<open>What a publish for another partition answers is what the call gives.\<close>

lemma publish_forwarded:
  assumes "target_partition (pr_key req) b = Ret p" and "p \<noteq> bk_partition_id b"
    and "find_target nv p b = (Ret (Some node), b1)"
  shows "publish nv req b = forward_to nv req p node b1"
    and "forward_call nv req b = Some (ni_address node, forward_request_for req p b1)"
  using assms by (simp_all add: publish_def forward_message_to_partition_def owns_partition_def forward_call_def)

lemma call_get:
  assumes "call h x N = (r, N')"
  shows "hm_get N' y = (if y = x then map_option (\<lambda>b. snd (h b)) (hm_get N x) else hm_get N y)"
  using assms by (auto simp: call_def hashmap_simps split: option.splits prod.splits)

lemma net_publish_get:
  assumes "net_publish nvs a req N = (Some r, N')" and "hm_get N a = Some b"
  shows "hm_get N' a = Some (snd (publish (linked nvs N a) req b))" and "r = fst (publish (linked nvs N a) req b)"
    and "y \<noteq> a \<Longrightarrow> hm_get N' y =
      (case forward_call (linked nvs N a) req b of
         Some (x, fr) \<Rightarrow> if y = x then map_option (\<lambda>b. snd (bk_forward_message (nv_env (nvs x)) fr b)) (hm_get N x)
                         else hm_get N y
       | None \<Rightarrow> hm_get N y)"
  using assms by (auto simp: net_publish_def Let_def hashmap_simps call_get [OF surjective_pairing] split: prod.splits option.splits)

lemma topology_only_draws:
  "bk_mesh_topology_handler nv b = (r, b') \<Longrightarrow> \<exists>n. b' = b\<lparr>bk_draws := n\<rparr>"
  by (auto simp: bk_mesh_topology_handler_def draw_many_def split: outcome.splits option.splits intro: exI [of _ "bk_draws b"])

section \<open>A network stores a message only with its owner\<close>

text \<open>No handler of the message path changes which partition a broker has.\<close>

definition broker_ids :: "broker \<Rightarrow> nat \<times> nat" where
  "broker_ids b = (bk_partition_id b, bk_total_partitions b)"

lemma ids_path: "message_path b' = message_path b \<Longrightarrow> broker_ids b' = broker_ids b"
  by (simp add: message_path_def broker_ids_def)

lemma ids_frame: "broker_frame b' = broker_frame b \<Longrightarrow> broker_ids b' = broker_ids b"
  by (simp add: broker_frame_def broker_ids_def)

lemma ids_steps [simp]:
  "broker_ids (tick b) = broker_ids b" "broker_ids (send c resp b) = broker_ids b"
  "broker_ids (b\<lparr>bk_batcher := p\<rparr>) = broker_ids b" "broker_ids (snd (fetch_counter b)) = broker_ids b"
  by (simp_all add: broker_ids_def tick_def send_def fetch_counter_def)

lemma ids_ensure_topic: "ensure_topic ev topic b = (r, b') \<Longrightarrow> broker_ids b' = broker_ids b"
  by (auto simp: ensure_topic_def topic_section_def broker_ids_def Let_def split: if_splits prod.splits outcome.splits)

lemma ids_process_batch: "bk_process_batch ev batch b = (r, b') \<Longrightarrow> broker_ids b' = broker_ids b"
proof (cases "mb_get_messages batch = []")
  case False
  assume run: "bk_process_batch ev batch b = (r, b')"
  obtain items b1 where f: "frame_batch batch b = (items, b1)" by fastforce
  obtain c b2 where c: "ensure_channel ev (bk_partition_id b1) b1 = (c, b2)" by fastforce
  have "broker_ids b2 = broker_ids b" using ids_path [OF path_frame_batch [OF f]] ids_path [OF path_ensure_channel [OF c]] by simp
  moreover have "broker_ids (snd (deliver ev c x s)) = broker_ids s" for x s
    by (rule ids_frame) (rule deliver_frame [of ev c "fst x" "snd x" s "fst (deliver ev c x s)"], simp)
  then have "broker_ids (snd (run_ops (map (deliver ev c) items) b2)) = broker_ids b2"
    by (intro run_ops_inv [where P = "\<lambda>s. broker_ids s = broker_ids b2"]) auto
  ultimately show ?thesis using run False f c by (simp add: bk_process_batch_def)
qed (simp add: bk_process_batch_def)

lemma ids_fetch_counter: "fetch_counter b = (x, b') \<Longrightarrow> broker_ids b' = broker_ids b"
  by (auto simp: fetch_counter_def broker_ids_def)

lemma ids_single_message:
  assumes "process_single_message ev req b = (r, b')"
  shows "broker_ids b' = broker_ids b"
proof -
  obtain a b1 where a: "storage_append ev (pr_topic req) (string_bytes (pr_payload req)) (tick b) = (a, b1)" by fastforce
  obtain c b2 where c: "ensure_channel ev (bk_partition_id b) (tick b1) = (c, b2)" by fastforce
  have "broker_ids b1 = broker_ids b" using ids_frame [OF frame_storage_append [OF a]] by simp
  moreover have "broker_ids b2 = broker_ids b1" using ids_path [OF path_ensure_channel [OF c]] by simp
  ultimately show ?thesis using assms a c
    by (simp add: process_single_message_def Let_def split: outcome.splits option.splits) auto
qed

lemma ids_publish_local:
  assumes "publish_local ev req b = (r, b')"
  shows "broker_ids b' = broker_ids b"
proof -
  obtain r1 b1 where e: "ensure_topic ev (pr_topic req) b = (r1, b1)" by fastforce
  obtain x p where add: "bp_add_message (ev_instant ev (bk_draws b1)) req (bk_batcher b1) = (x, p)" by fastforce
  let ?b2 = "tick (b1\<lparr>bk_batcher := p\<rparr>)"
  obtain ready b3 where t: "take_ready ev ?b2 = (ready, b3)" by fastforce
  obtain r4 b4 where run: "run_ops (map (bk_process_batch ev) ready) b3 = (r4, b4)" by fastforce
  have b2: "broker_ids ?b2 = broker_ids b" using ids_ensure_topic [OF e] by simp
  have "broker_ids b3 = broker_ids ?b2" using t by (auto simp: take_ready_def broker_ids_def split: prod.splits)
  moreover have "broker_ids (snd (run_ops (map (bk_process_batch ev) ready) b3)) = broker_ids b3"
    by (rule run_ops_inv [where P = "\<lambda>s. broker_ids s = broker_ids b3"])
      (auto simp: ids_process_batch [OF surjective_pairing])
  ultimately have b4: "broker_ids b4 = broker_ids b" using run b2 by simp
  show ?thesis
  proof (cases r1)
    case (Ret u)
    show ?thesis
    proof (cases x)
      case (Inl y)
      then show ?thesis using assms e Ret add b2 ids_single_message by (fastforce simp: publish_local_def)
    next
      case (Inr y)
      then show ?thesis using assms e Ret add t run b4
        by (cases r4) (auto simp: publish_local_def Let_def split: prod.splits dest: ids_fetch_counter)
    qed
  qed (use assms e ids_ensure_topic [OF e] in \<open>simp_all add: publish_local_def\<close>)
qed

lemma ids_forward_message:
  assumes "bk_forward_message ev fr b = (r, b')"
  shows "broker_ids b' = broker_ids b"
proof -
  obtain r1 b1 where e: "ensure_topic ev (fr_topic fr) b = (r1, b1)" by fastforce
  obtain a b2 where a: "storage_append ev (fr_topic fr) (string_bytes (fr_payload fr)) (tick b1) = (a, b2)" by fastforce
  obtain c b3 where c: "ensure_channel ev (bk_partition_id b) (tick b2) = (c, b3)" by fastforce
  have "broker_ids b1 = broker_ids b" using ids_ensure_topic [OF e] .
  moreover have "broker_ids b2 = broker_ids b1" using ids_frame [OF frame_storage_append [OF a]] by simp
  moreover have "broker_ids b3 = broker_ids b2" using ids_path [OF path_ensure_channel [OF c]] by simp
  ultimately show ?thesis using assms e a c
    by (simp add: bk_forward_message_def Let_def split: outcome.splits option.splits if_splits) auto
qed

lemma forward_message_refused:
  "wrap_u 32 (fr_target_partition fr) \<noteq> bk_partition_id b \<Longrightarrow>
   \<exists>e. bk_forward_message ev fr b = (Ret (Inl e), b)"
  by (simp add: bk_forward_message_def)

definition same_total :: "nat \<Rightarrow> network \<Rightarrow> bool" where
  "same_total n N \<longleftrightarrow> (\<forall>x c. hm_get N x = Some c \<longrightarrow> bk_total_partitions c = n)"

abbreviation owner :: "string \<Rightarrow> broker \<Rightarrow> bool" where
  "owner key c \<equiv> target_partition key c = Ret (bk_partition_id c)"

text \<open>What may become of a broker while a message with this key is published.\<close>

definition unless_owner :: "string \<Rightarrow> broker \<Rightarrow> broker \<Rightarrow> bool" where
  "unless_owner key c c' \<longleftrightarrow> broker_ids c' = broker_ids c \<and> (\<not> owner key c \<longrightarrow> message_path c' = message_path c)"

lemma unless_owner_path: "message_path c' = message_path c \<Longrightarrow> unless_owner key c c'"
  unfolding unless_owner_def using ids_path by blast

lemma target_cong: "bk_total_partitions c = bk_total_partitions b \<Longrightarrow> target_partition key c = target_partition key b"
  by (simp add: target_partition_def)

lemma target_bound: "target_partition key b = Ret p \<Longrightarrow> bk_total_partitions b \<le> 2 ^ 32 \<Longrightarrow> p < 2 ^ 32"
  by (auto simp: target_partition_def split: if_splits) (metis mod_less_divisor order_less_le_trans)

text \<open>The request of a publish at another broker, and what it does there.\<close>

lemma forward_call_owner:
  assumes "forward_call nv req b = Some (x, fr)" and "bk_total_partitions b \<le> 2 ^ 32" and "bk_total_partitions c = bk_total_partitions b"
  shows "unless_owner (pr_key req) c (snd (bk_forward_message ev fr c))"
    and "fst (bk_forward_message ev fr c) = Ret (Inr resp) \<Longrightarrow> owner (pr_key req) c"
proof -
  obtain p node b1 where p: "target_partition (pr_key req) b = Ret p" "fr = forward_request_for req p b1"
    using assms(1) by (auto simp: forward_call_def split: outcome.splits if_splits prod.splits option.splits)
  have "wrap_u 32 (fr_target_partition fr) = p"
    using target_bound [OF p(1) assms(2)] p(2) by (simp add: forward_request_for_def wrap_u_wrap_s)
  moreover have "target_partition (pr_key req) c = Ret p" using p(1) target_cong [OF assms(3)] by simp
  ultimately have refuse: "\<exists>e. bk_forward_message ev fr c = (Ret (Inl e), c)" if "\<not> owner (pr_key req) c"
    using forward_message_refused [of fr c ev] that by auto
  then show "unless_owner (pr_key req) c (snd (bk_forward_message ev fr c))"
    unfolding unless_owner_def using ids_forward_message [OF surjective_pairing] by fastforce
  show "owner (pr_key req) c" if "fst (bk_forward_message ev fr c) = Ret (Inr resp)"
    using refuse that by fastforce
qed

lemma publish_unless_owner:
  assumes "background_ok nv" and "publish nv req b = (r, b')"
  shows "unless_owner (pr_key req) b b'"
proof (cases "owner (pr_key req) b")
  case True
  then have "publish_local (nv_env nv) req b = (r, b')" using assms(2) by (simp add: publish_def)
  then show ?thesis using True ids_publish_local by (simp add: unless_owner_def)
next
  case False
  have "message_path b' = message_path b"
  proof (cases "target_partition (pr_key req) b")
    case (Ret p)
    then show ?thesis using path_forwarding [OF assms(1)] False assms(2) by (simp add: publish_def)
  qed (use assms(2) in \<open>simp_all add: publish_def\<close>)
  then show ?thesis by (rule unless_owner_path)
qed

text \<open>A publish that a broker answers with success has an owner: this broker or the one it called.\<close>

lemma publish_success:
  assumes "publish (linked nvs N a) req b = (Ret (Inr resp), b')" and "\<not> owner (pr_key req) b"
  obtains x fr c resp' where "forward_call (linked nvs N a) req b = Some (x, fr)" and "hm_get N x = Some c"
    and "fst (bk_forward_message (nv_env (nvs x)) fr c) = Ret (Inr resp')"
proof -
  let ?nv = "linked nvs N a"
  obtain p where p: "target_partition (pr_key req) b = Ret p" "p \<noteq> bk_partition_id b"
    using assms by (auto simp: publish_def split: outcome.splits)
  then have fwd: "forward_message_to_partition ?nv req p b = (Ret (Inr resp), b')" using assms(1) by (simp add: publish_def)
  obtain r1 b1 where f: "find_target ?nv p b = (r1, b1)" by fastforce
  obtain r2 b2 where d: "discover_nodes ?nv b1 = (r2, b2)" by fastforce
  obtain node where node: "r1 = Ret (Some node)"
    using fwd f d p by (auto simp: forward_message_to_partition_def split: outcome.splits option.splits)
  note pf = publish_forwarded [OF p f [unfolded node]]
  let ?x = "ni_address node" and ?fr = "forward_request_for req p b1"
  have "\<exists>ans. fst (call (bk_forward_message (nv_env (nvs ?x)) ?fr) ?x N) = Answer ans"
    using pf(1) assms(1) by (auto simp: forward_to_def linked_def split: reply.splits)
  then obtain ans where ans: "fst (call (bk_forward_message (nv_env (nvs ?x)) ?fr) ?x N) = Answer ans" ..
  then obtain c where c: "hm_get N ?x = Some c" by (cases "hm_get N ?x") (auto simp: call_def)
  obtain r3 c' where h: "bk_forward_message (nv_env (nvs ?x)) ?fr c = (r3, c')" by fastforce
  have "as_reply r3 = Answer ans" using ans c h by (simp add: call_def)
  then have "r3 = Ret (Inr ans)" by (cases r3 rule: as_reply.cases) auto
  then show ?thesis using that [OF pf(2) c] h by simp
qed

lemma net_publish_step:
  assumes "background_ok (nvs a)" and "same_total n N" and "n \<le> 2 ^ 32" and "net_publish nvs a req N = (r, N')"
  shows "rel_option (unless_owner (pr_key req)) (hm_get N y) (hm_get N' y)"
    and "r = Some (Ret (Inr resp)) \<Longrightarrow> \<exists>y c. hm_get N y = Some c \<and> owner (pr_key req) c"
proof -
  have self: "rel_option (unless_owner (pr_key req)) m m" for m
    by (simp add: option.rel_refl unless_owner_path)
  have "rel_option (unless_owner (pr_key req)) (hm_get N y) (hm_get N' y)
     \<and> (r = Some (Ret (Inr resp)) \<longrightarrow> (\<exists>y c. hm_get N y = Some c \<and> owner (pr_key req) c))"
  proof (cases "hm_get N a")
    case None
    then show ?thesis using assms(4) self by (simp add: net_publish_def)
  next
    case (Some b)
    let ?nv = "linked nvs N a"
    obtain r0 where r0: "r = Some r0" using assms(4) Some by (auto simp: net_publish_def Let_def split: prod.splits)
    note get = net_publish_get [OF assms(4) [unfolded r0] Some]
    have n: "bk_total_partitions b \<le> 2 ^ 32" using assms(2,3) Some by (simp add: same_total_def)
    have "rel_option (unless_owner (pr_key req)) (hm_get N y) (hm_get N' y)"
    proof (cases "y = a")
      case True
      then show ?thesis using get(1) Some publish_unless_owner [OF _ surjective_pairing, of ?nv req b] assms(1) by simp
    next
      case False
      show ?thesis
      proof (cases "\<exists>fr c. forward_call ?nv req b = Some (y, fr) \<and> hm_get N y = Some c")
        case True
        then obtain fr c where fc: "forward_call ?nv req b = Some (y, fr)" "hm_get N y = Some c" by blast
        have "bk_total_partitions c = bk_total_partitions b" using assms(2) Some fc(2) by (simp add: same_total_def)
        from forward_call_owner(1) [OF fc(1) n this] show ?thesis using get(3) [OF False] fc by simp
      next
        case ne: False
        then have "hm_get N' y = hm_get N y" using get(3) [OF False] by (auto split: option.splits if_splits)
        then show ?thesis using self by simp
      qed
    qed
    moreover have "\<exists>y c. hm_get N y = Some c \<and> owner (pr_key req) c" if "r = Some (Ret (Inr resp))"
    proof (cases "owner (pr_key req) b")
      case False
      have "publish ?nv req b = (Ret (Inr resp), snd (publish ?nv req b))" using that r0 get(2) by (simp add: prod_eq_iff)
      then obtain x fr c resp' where x: "forward_call ?nv req b = Some (x, fr)" "hm_get N x = Some c"
          "fst (bk_forward_message (nv_env (nvs x)) fr c) = Ret (Inr resp')"
        using publish_success False by metis
      have "bk_total_partitions c = bk_total_partitions b" using assms(2) Some x(2) by (simp add: same_total_def)
      from forward_call_owner(2) [OF x(1) n this x(3)] show ?thesis using x(2) by blast
    qed (use Some in blast)
    ultimately show ?thesis by blast
  qed
  then show "rel_option (unless_owner (pr_key req)) (hm_get N y) (hm_get N' y)"
    and "r = Some (Ret (Inr resp)) \<Longrightarrow> \<exists>y c. hm_get N y = Some c \<and> owner (pr_key req) c" by blast+
qed

text \<open>The same over a run.\<close>

lemma owner_ids: "broker_ids c' = broker_ids c \<Longrightarrow> owner key c' = owner key c"
  by (simp add: broker_ids_def target_partition_def)

definition untouched :: "net_event list \<Rightarrow> broker \<Rightarrow> broker \<Rightarrow> bool" where
  "untouched es c c' \<longleftrightarrow> broker_ids c' = broker_ids c
     \<and> ((\<forall>a req. NPublish a req \<in> set es \<longrightarrow> \<not> owner (pr_key req) c) \<longrightarrow> message_path c' = message_path c)"

lemma untouched_cons:
  "untouched [e] c c1 \<Longrightarrow> untouched es c1 c' \<Longrightarrow> untouched (e # es) c c'"
  unfolding untouched_def using owner_ids [of c1 c] by auto

lemma same_total_step:
  assumes "same_total n N" and "\<And>y. rel_option (untouched es) (hm_get N y) (hm_get N1 y)"
  shows "same_total n N1"
  unfolding same_total_def
proof (intro allI impI)
  fix x c' assume "hm_get N1 x = Some c'"
  with assms(2) [of x] obtain c where "hm_get N x = Some c" "untouched es c c'" by (cases "hm_get N x") auto
  then show "bk_total_partitions c' = n" using assms(1) by (auto simp: same_total_def untouched_def broker_ids_def)
qed

lemma net_event_step:
  assumes "\<forall>x. background_ok (nvs x)" and "same_total n N" and "n \<le> 2 ^ 32"
    and "\<forall>a f. e = NOther a f \<longrightarrow> (\<forall>c. message_path (f c) = message_path c)"
    and "net_run nvs [e] N = (rs, N1)"
  shows "rel_option (untouched [e]) (hm_get N y) (hm_get N1 y)"
    and "(req, Some (Ret (Inr resp))) \<in> set rs \<Longrightarrow> \<exists>y c. hm_get N y = Some c \<and> owner (pr_key req) c"
proof -
  have "rel_option (untouched [e]) (hm_get N y) (hm_get N1 y)
     \<and> ((req, Some (Ret (Inr resp))) \<in> set rs \<longrightarrow> (\<exists>y c. hm_get N y = Some c \<and> owner (pr_key req) c))"
  proof (cases e)
    case (NPublish a q)
    obtain r where p: "net_publish nvs a q N = (r, N1)" "rs = [(q, r)]"
      using assms(5) NPublish by (auto split: prod.splits)
    have mono: "untouched [e] c c'" if "unless_owner (pr_key q) c c'" for c c'
      using that by (simp add: unless_owner_def untouched_def NPublish)
    have bg: "background_ok (nvs a)" using assms(1) by blast
    have "rel_option (untouched [e]) (hm_get N y) (hm_get N1 y)"
      by (rule option.rel_mono_strong [OF net_publish_step(1) [OF bg assms(2,3) p(1)]]) (rule mono)
    moreover have "\<exists>y c. hm_get N y = Some c \<and> owner (pr_key req) c" if "(req, Some (Ret (Inr resp))) \<in> set rs"
    proof -
      have q: "req = q" "r = Some (Ret (Inr resp))" using that p(2) by auto
      show ?thesis unfolding q(1) by (rule net_publish_step(2) [OF bg assms(2,3) p(1) q(2)])
    qed
    ultimately show ?thesis by blast
  next
    case (NOther a f)
    have f: "message_path (f c) = message_path c" for c using assms(4) NOther by blast
    have u: "untouched [e] c c" "untouched [e] c (f c)" for c
      using f [of c] ids_path [OF f, of c] by (simp_all add: untouched_def)
    have refl: "rel_option (untouched [e]) m m" for m by (rule option.rel_refl) (rule u(1))
    have run: "rs = []" "N1 = (case hm_get N a of None \<Rightarrow> N | Some b \<Rightarrow> hm_insert a (f b) N)"
      using assms(5) NOther by simp_all
    have "rel_option (untouched [e]) (hm_get N y) (hm_get N1 y)"
      using u(2) refl by (cases "hm_get N a"; cases "y = a") (simp_all add: run(2) hashmap_simps)
    then show ?thesis using run(1) by simp
  qed
  then show "rel_option (untouched [e]) (hm_get N y) (hm_get N1 y)"
    and "(req, Some (Ret (Inr resp))) \<in> set rs \<Longrightarrow> \<exists>y c. hm_get N y = Some c \<and> owner (pr_key req) c" by blast+
qed

lemma net_run_cons:
  "net_run nvs (e # es) N = (rs, N') \<Longrightarrow>
   \<exists>rs1 N1 rs2. net_run nvs [e] N = (rs1, N1) \<and> net_run nvs es N1 = (rs2, N') \<and> rs = rs1 @ rs2"
  by (cases e) (auto split: prod.splits)

lemma net_run_owners:
  assumes "\<forall>x. background_ok (nvs x)" and "n \<le> 2 ^ 32"
  shows "same_total n N \<Longrightarrow> \<forall>a f. NOther a f \<in> set es \<longrightarrow> (\<forall>c. message_path (f c) = message_path c) \<Longrightarrow>
    net_run nvs es N = (rs, N') \<Longrightarrow>
    (\<forall>y. rel_option (untouched es) (hm_get N y) (hm_get N' y))
    \<and> (\<forall>req resp. (req, Some (Ret (Inr resp))) \<in> set rs \<longrightarrow> (\<exists>y c. hm_get N y = Some c \<and> owner (pr_key req) c))"
proof (induction es arbitrary: N rs)
  case Nil
  have "rel_option (untouched []) m m" for m by (rule option.rel_refl) (simp add: untouched_def)
  then show ?case using Nil.prems(3) by simp
next
  case (Cons e es)
  obtain rs1 N1 rs2 where run: "net_run nvs [e] N = (rs1, N1)" "net_run nvs es N1 = (rs2, N')" "rs = rs1 @ rs2"
    using net_run_cons [OF Cons.prems(3)] by blast
  have e: "\<forall>a f. e = NOther a f \<longrightarrow> (\<forall>c. message_path (f c) = message_path c)" using Cons.prems(2) by simp
  note step = net_event_step [OF assms(1) Cons.prems(1) assms(2) e run(1)]
  note IH = Cons.IH [OF same_total_step [OF Cons.prems(1) step(1)] _ run(2)]
  have rest: "\<forall>y. rel_option (untouched es) (hm_get N1 y) (hm_get N' y)"
      "\<forall>req resp. (req, Some (Ret (Inr resp))) \<in> set rs2 \<longrightarrow> (\<exists>y c. hm_get N1 y = Some c \<and> owner (pr_key req) c)"
    using IH Cons.prems(2) by simp_all
  have "rel_option (untouched (e # es)) (hm_get N y) (hm_get N' y)" for y
    using step(1) [of y] rest(1) [THEN spec, of y] untouched_cons
    by (cases "hm_get N y"; cases "hm_get N1 y"; cases "hm_get N' y") auto
  moreover have back_step: "\<exists>y c. hm_get N y = Some c \<and> owner key c" if "hm_get N1 y = Some c'" "owner key c'" for y c' key
  proof (cases "hm_get N y")
    case None
    then show ?thesis using step(1) [of y] that(1) by simp
  next
    case (Some c)
    then have "broker_ids c' = broker_ids c" using step(1) [of y] that(1) by (simp add: untouched_def)
    then show ?thesis using Some that(2) owner_ids by blast
  qed
  have "\<exists>y c. hm_get N y = Some c \<and> owner (pr_key req) c" if "(req, Some (Ret (Inr resp))) \<in> set rs" for req resp
  proof (cases "(req, Some (Ret (Inr resp))) \<in> set rs1")
    case False
    then have "(req, Some (Ret (Inr resp))) \<in> set rs2" using that run(3) by simp
    then obtain y c where "hm_get N1 y = Some c" "owner (pr_key req) c" using rest(2) by blast
    then show ?thesis by (rule back_step)
  qed (rule step(2))
  ultimately show ?case by blast
qed

text \<open>
  Property C13: a network stores a message only with the owner of its key. Let the brokers of a network agree on the number of
  partitions, at most \<open>2 ^ 32\<close>. Whatever is published at whichever broker, in any order, and however their
  mesh tables, cluster tables and groups change in between, right or wrong: a broker that owns none of the published
  keys has its storage, topics, waiting batches and broadcasts as before; and a publish that is answered
  with success has an owner in the network. A broker that is called for a partition that is not its own refuses.
\<close>

theorem publishes_reach_owners_only:
  assumes "\<forall>x. background_ok (nvs x)" and "\<forall>x c. hm_get N x = Some c \<longrightarrow> bk_total_partitions c = n" and "n \<le> 2 ^ 32"
    and "\<forall>a f. NOther a f \<in> set es \<longrightarrow> (\<forall>c. message_path (f c) = message_path c)"
    and "net_run nvs es N = (rs, N')"
  shows "(\<forall>y c. hm_get N y = Some c \<and> (\<forall>a req. NPublish a req \<in> set es \<longrightarrow> target_partition (pr_key req) c \<noteq> Ret (bk_partition_id c)) \<longrightarrow>
          (\<exists>c'. hm_get N' y = Some c' \<and> bk_storage c' = bk_storage c \<and> bk_topics c' = bk_topics c
             \<and> bk_batcher c' = bk_batcher c \<and> bk_sent c' = bk_sent c))
     \<and> (\<forall>req resp. (req, Some (Ret (Inr resp))) \<in> set rs \<longrightarrow>
          (\<exists>y c. hm_get N y = Some c \<and> target_partition (pr_key req) c = Ret (bk_partition_id c)))"
proof -
  have "same_total n N" using assms(2) by (simp add: same_total_def)
  note run = net_run_owners [OF assms(1,3) this assms(4,5)]
  have "\<exists>c'. hm_get N' y = Some c' \<and> message_path c' = message_path c"
    if "hm_get N y = Some c" "\<forall>a req. NPublish a req \<in> set es \<longrightarrow> \<not> owner (pr_key req) c" for y c
    using conjunct1 [OF run, THEN spec, of y] that by (cases "hm_get N' y") (auto simp: untouched_def)
  then show ?thesis using run by (fastforce simp: message_path_def)
qed

section \<open>A publish for the partition of another broker\<close>

text \<open>The handler of the owner: the message reaches the queue and its log, and the call never ends.\<close>

lemma forward_message_stores:
  assumes "exclusive_lock (ev_grant ev)" and "wrap_u 32 (fr_target_partition fr) = bk_partition_id b"
    and "hm_contains (bk_topics b) (fr_topic fr)"
    and "get_queue (bk_storage b) (fr_topic fr) (partition_i32 b) = Some q" and "pq_lock q = Unlocked"
    and "in_s 64 (pq_next_offset q + 1)" and "bk_forward_message ev fr b = (r, b')"
    and "e = new_entry q (ev_clock ev (Suc (bk_draws b))) (string_bytes (fr_payload fr)) (partition_i32 b)"
  shows "r = Block \<and> (\<exists>q'. get_queue (bk_storage b') (fr_topic fr) (partition_i32 b') = Some q'
     \<and> pq_messages q' = pq_messages q @ [e] \<and> pq_next_offset q' = pq_next_offset q + 1
     \<and> pq_wal q' = map_option (\<lambda>w. snd (wal_append (ev_ser ev) (ev_io ev (Suc (bk_draws b))) e w)) (pq_wal q))"
proof -
  let ?now = "ev_clock ev (Suc (bk_draws b))" and ?io = "ev_io ev (Suc (bk_draws b))"
  let ?e = "new_entry q ?now (string_bytes (fr_payload fr)) (partition_i32 b)"
  let ?q = "q\<lparr>pq_lock := WriteHeld, pq_next_offset := pq_next_offset q + 1,
      pq_wal := map_option (\<lambda>w. snd (wal_append (ev_ser ev) ?io ?e w)) (pq_wal q),
      pq_current_size := pq_current_size q + length (string_bytes (fr_payload fr)), pq_messages := pq_messages q @ [?e]\<rparr>"
  have i32: "partition_i32 (tick b) = partition_i32 b" by (rule partition_i32_cong) simp
  have "st_append (ev_ovf ev) (ev_grant ev) (ev_ser ev) ?io ?now (ev_clock ev (Suc (Suc (bk_draws b)))) (fr_topic fr)
      (partition_i32 b) (string_bytes (fr_payload fr)) (bk_storage b) = (Block, put_queue (fr_topic fr) (partition_i32 b) ?q (bk_storage b))"
    using assms(1,4-6) by (simp add: st_append_def pq_append_def enforce_retention_policy_def exclusive_lock_def Let_def)
  then have a: "storage_append ev (fr_topic fr) (string_bytes (fr_payload fr)) (tick b) =
      (Block, tick (tick ((tick b)\<lparr>bk_storage := put_queue (fr_topic fr) (partition_i32 b) ?q (bk_storage b)\<rparr>)))"
    using i32 by (simp add: storage_append_def tick_def)
  have b': "r = Block" "b' = tick (tick ((tick b)\<lparr>bk_storage := put_queue (fr_topic fr) (partition_i32 b) ?q (bk_storage b)\<rparr>))"
    using assms(2,3,7) a by (auto simp: bk_forward_message_def ensure_topic_def topic_section_def)
  obtain ps where "hm_get (st_topics (bk_storage b)) (fr_topic fr) = Some ps" using get_queue_topic [OF assms(4)] by blast
  then have "get_queue (bk_storage b') (fr_topic fr) (partition_i32 b') = Some ?q"
    by (simp add: b'(2) get_put_queue partition_i32_def tick_def)
  then show ?thesis using b'(1) assms(8) by (intro conjI exI [of _ ?q]) simp_all
qed


section \<open>Witnesses\<close>

definition addr_b :: socket_addr where
  "addr_b = \<lparr>sa_ip = ''10.0.0.2'', sa_port = 50051\<rparr>"

text \<open>The broker of partition 0, whose mesh knows the node of partition 2, and the broker of partition 2.\<close>

definition broker_a :: broker where
  "broker_a = put_mesh (example_mesh\<lparr>ms_topology := \<lparr>tp_nodes = [(''b'', example_peer\<lparr>ni_address := addr_b\<rparr>)],
     tp_partitions = [(2, ''b'')], tp_connections = [], tp_last_updated = 0\<rparr>\<rparr>) example_broker"

definition logged_queue :: partition_queue where
  "logged_queue = empty_queue\<lparr>pq_wal := Some (wal_new [])\<rparr>"

definition broker_b :: broker where
  "broker_b = (bk_new (\<lambda>_. 5) 2 3 None)\<lparr>bk_topics := [(''t'', [])],
     bk_storage := put_queue ''t'' 2 logged_queue (create_topic ''t'' st_new)\<rparr>"

definition example_network :: network where
  "example_network = [(default_addr, broker_a), (addr_b, broker_b)]"

lemma broker_b_queue:
  "partition_i32 broker_b = 2" "bk_partition_id broker_b = 2" "hm_contains (bk_topics broker_b) ''t''"
  "get_queue (bk_storage broker_b) ''t'' 2 = Some logged_queue" "bk_total_partitions broker_b = 3"
  by (simp_all add: broker_b_def partition_i32_def bk_new_def new_with_cluster_def wrap_s_def get_queue_def put_queue_def
      create_topic_def st_new_def with_retention_policy_def hashmap_simps)

lemma example_network_get:
  "hm_get example_network default_addr = Some broker_a" "hm_get example_network addr_b = Some broker_b"
  "hm_get example_network x = Some c \<Longrightarrow> c = broker_a \<or> c = broker_b"
  by (auto simp: example_network_def addr_b_def default_addr_def split: if_splits)

lemma broker_a_ids: "bk_partition_id broker_a = 0" "bk_total_partitions broker_a = 3" "bk_mesh_lock broker_a = mesh_free"
  by (simp_all add: broker_a_def put_mesh_def example_broker_def bk_new_def new_with_cluster_def)

lemma example_target: "bk_total_partitions b = 3 \<Longrightarrow> target_partition (pr_key (example_request ''a'')) b = Ret 2"
  by (simp add: target_partition_def hash_key_def string_bytes_def example_request_def)


text \<open>The network without the owner of the key: the broker of partition 0 stores nothing, and nobody gets a success.\<close>

theorem publishes_reach_owners_only_witness:
  "\<exists>rs N' c'. net_run (\<lambda>_. example_net) [NPublish default_addr (example_request ''a'')] [(default_addr, broker_a)] = (rs, N')
     \<and> hm_get N' default_addr = Some c' \<and> bk_storage c' = bk_storage broker_a \<and> bk_batcher c' = bk_batcher broker_a
     \<and> (\<forall>req resp. (req, Some (Ret (Inr resp))) \<notin> set rs)"
proof -
  let ?N = "[(default_addr, broker_a)]" and ?es = "[NPublish default_addr (example_request ''a'')]"
  obtain rs N' where run: "net_run (\<lambda>_. example_net) ?es ?N = (rs, N')" by fastforce
  have bg: "\<forall>x :: socket_addr. background_ok example_net" by (simp add: background_ok_def example_net_def)
  have tot: "\<forall>x c. hm_get ?N x = Some c \<longrightarrow> bk_total_partitions c = 3" using broker_a_ids(2) by simp
  have tgt: "target_partition (pr_key (example_request ''a'')) broker_a = Ret 2" by (rule example_target) (rule broker_a_ids(2))
  have own: "(\<forall>y c. hm_get ?N y = Some c \<and> (\<forall>a req. NPublish a req \<in> set ?es \<longrightarrow> target_partition (pr_key req) c \<noteq> Ret (bk_partition_id c)) \<longrightarrow>
        (\<exists>c'. hm_get N' y = Some c' \<and> bk_storage c' = bk_storage c \<and> bk_topics c' = bk_topics c
           \<and> bk_batcher c' = bk_batcher c \<and> bk_sent c' = bk_sent c))
     \<and> (\<forall>req resp. (req, Some (Ret (Inr resp))) \<in> set rs \<longrightarrow>
        (\<exists>y c. hm_get ?N y = Some c \<and> target_partition (pr_key req) c = Ret (bk_partition_id c)))"
    by (rule publishes_reach_owners_only [OF bg tot _ _ run]) simp_all
  have "\<exists>c'. hm_get N' default_addr = Some c' \<and> bk_storage c' = bk_storage broker_a \<and> bk_batcher c' = bk_batcher broker_a"
    using conjunct1 [OF own, THEN spec, of default_addr, THEN spec, of broker_a] tgt broker_a_ids(1) by auto
  moreover have "\<forall>req resp. (req, Some (Ret (Inr resp))) \<notin> set rs"
  proof (intro allI notI)
    fix req resp assume r: "(req, Some (Ret (Inr resp))) \<in> set rs"
    then have "req = example_request ''a''" using run by (auto split: prod.splits)
    moreover from own r obtain y c where "hm_get ?N y = Some c" "target_partition (pr_key req) c = Ret (bk_partition_id c)" by auto
    ultimately show False using tgt broker_a_ids(1) by (auto split: if_splits)
  qed
  ultimately show ?thesis using run by blast
qed

end
