(* ===== verification/Metrics_Registry.thy ===== *)
theory Metrics_Registry
  imports Monitoring
begin

text \<open>
  The metrics of \<^verbatim>\<open>crates/core/src/metrics.rs\<close>: eighteen counters, gauges and histograms in a registry
  of the prometheus crate, the methods that update them and the HTTP handler that shows them. The crate is
  the record \<open>prometheus\<close> of the calls the code makes, on a state \<open>'w\<close> with metrics as handles \<open>'h\<close>
  (a cloned metric is the same handle), together with what can be read of that state: the value of a counter or gauge,
  and of a histogram what the crate keeps of it, the number of samples, their sum and the counts per bucket.
\<close>

section \<open>The prometheus crate\<close>

datatype metric_kind = CounterKind | GaugeKind | HistogramKind "f64 list"

record metric_spec =
  sp_kind :: metric_kind
  sp_name :: string
  sp_help :: string

text \<open>What a histogram shows: \<open>hr_buckets\<close> has, for every upper bound, how many samples are not above it.\<close>

record hist_reading =
  hr_count :: nat
  hr_sum :: f64
  hr_buckets :: "nat list"

record ('h, 'e, 'w) prometheus =
  px_registry :: "'w \<Rightarrow> 'w"
  px_create :: "metric_spec \<Rightarrow> 'w \<Rightarrow> ('e + 'h) \<times> 'w"
  px_register :: "'h \<Rightarrow> 'w \<Rightarrow> ('e + unit) \<times> 'w"
  px_inc :: "'h \<Rightarrow> 'w \<Rightarrow> 'w"
  px_observe :: "f64 \<Rightarrow> 'h \<Rightarrow> 'w \<Rightarrow> 'w"
  px_set :: "f64 \<Rightarrow> 'h \<Rightarrow> 'w \<Rightarrow> 'w"
  px_encode :: "'w \<Rightarrow> 'e + string"
  px_handles :: "'w \<Rightarrow> 'h list"
  px_name :: "'h \<Rightarrow> 'w \<Rightarrow> string"
  px_registered :: "'w \<Rightarrow> string list"
  px_value :: "'h \<Rightarrow> 'w \<Rightarrow> f64"
  px_kind :: "'h \<Rightarrow> 'w \<Rightarrow> metric_kind"
  px_histogram :: "'h \<Rightarrow> 'w \<Rightarrow> hist_reading"

section \<open>The metrics of the broker\<close>

record 'h rafka_metrics =
  rk_messages_published_total :: 'h
  rk_messages_consumed_total :: 'h
  rk_messages_failed_total :: 'h
  rk_publish_latency :: 'h
  rk_consume_latency :: 'h
  rk_broker_response_latency :: 'h
  rk_publish_throughput :: 'h
  rk_consume_throughput :: 'h
  rk_active_connections :: 'h
  rk_active_topics :: 'h
  rk_active_consumers :: 'h
  rk_memory_usage_bytes :: 'h
  rk_storage_messages_total :: 'h
  rk_storage_bytes_total :: 'h
  rk_storage_oldest_message_age :: 'h
  rk_connection_errors_total :: 'h
  rk_partition_errors_total :: 'h
  rk_storage_errors_total :: 'h

definition latency_buckets :: "rounding \<Rightarrow> f64 list" where
  "latency_buckets fl = map fl
     [1 / 1000, 5 / 1000, 1 / 100, 25 / 1000, 5 / 100, 1 / 10, 25 / 100, 5 / 10, 1, 25 / 10, 5, 10]"

abbreviation counter_spec :: "string \<Rightarrow> string \<Rightarrow> metric_spec" where
  "counter_spec name help \<equiv> \<lparr>sp_kind = CounterKind, sp_name = name, sp_help = help\<rparr>"

abbreviation gauge_spec :: "string \<Rightarrow> string \<Rightarrow> metric_spec" where
  "gauge_spec name help \<equiv> \<lparr>sp_kind = GaugeKind, sp_name = name, sp_help = help\<rparr>"

abbreviation histogram_spec :: "rounding \<Rightarrow> string \<Rightarrow> string \<Rightarrow> metric_spec" where
  "histogram_spec fl name help \<equiv> \<lparr>sp_kind = HistogramKind (latency_buckets fl), sp_name = name, sp_help = help\<rparr>"

text \<open>In the order in which \<open>new\<close> creates and registers them.\<close>

definition metric_specs :: "rounding \<Rightarrow> metric_spec list" where
  "metric_specs fl =
     [counter_spec ''rafka_messages_published_total'' ''Total number of messages published'',
      counter_spec ''rafka_messages_consumed_total'' ''Total number of messages consumed'',
      counter_spec ''rafka_messages_failed_total'' ''Total number of failed messages'',
      histogram_spec fl ''rafka_publish_latency_seconds'' ''Publish operation latency in seconds'',
      histogram_spec fl ''rafka_consume_latency_seconds'' ''Consume operation latency in seconds'',
      histogram_spec fl ''rafka_broker_response_latency_seconds'' ''Broker response latency in seconds'',
      gauge_spec ''rafka_publish_throughput_messages_per_second'' ''Current publish throughput in messages per second'',
      gauge_spec ''rafka_consume_throughput_messages_per_second'' ''Current consume throughput in messages per second'',
      gauge_spec ''rafka_active_connections'' ''Number of active connections'',
      gauge_spec ''rafka_active_topics'' ''Number of active topics'',
      gauge_spec ''rafka_active_consumers'' ''Number of active consumers'',
      gauge_spec ''rafka_memory_usage_bytes'' ''Memory usage in bytes'',
      gauge_spec ''rafka_storage_messages_total'' ''Total number of messages in storage'',
      gauge_spec ''rafka_storage_bytes_total'' ''Total bytes stored'',
      gauge_spec ''rafka_storage_oldest_message_age_seconds'' ''Age of oldest message in storage'',
      counter_spec ''rafka_connection_errors_total'' ''Total number of connection errors'',
      counter_spec ''rafka_partition_errors_total'' ''Total number of partition errors'',
      counter_spec ''rafka_storage_errors_total'' ''Total number of storage errors'']"

text \<open>The calls of \<open>new\<close>, each with a \<open>?\<close>: first all the constructors, then all the registrations.\<close>

fun create_all ::
  "('h, 'e, 'w) prometheus \<Rightarrow> metric_spec list \<Rightarrow> 'w \<Rightarrow> ('e + 'h list) \<times> 'w" where
  "create_all px [] w = (Inr [], w)"
| "create_all px (s # ss) w =
     (case px_create px s w of
        (Inl e, w1) \<Rightarrow> (Inl e, w1)
      | (Inr h, w1) \<Rightarrow> (case create_all px ss w1 of (Inl e, w2) \<Rightarrow> (Inl e, w2) | (Inr hs, w2) \<Rightarrow> (Inr (h # hs), w2)))"

fun register_all :: "('h, 'e, 'w) prometheus \<Rightarrow> 'h list \<Rightarrow> 'w \<Rightarrow> ('e + unit) \<times> 'w" where
  "register_all px [] w = (Inr (), w)"
| "register_all px (h # hs) w =
     (case px_register px h w of
        (Inl e, w1) \<Rightarrow> (Inl e, w1)
      | (Inr _, w1) \<Rightarrow> register_all px hs w1)"

definition metrics_of :: "'h list \<Rightarrow> 'h rafka_metrics" where
  "metrics_of hs =
     \<lparr>rk_messages_published_total = hs ! 0, rk_messages_consumed_total = hs ! 1, rk_messages_failed_total = hs ! 2,
      rk_publish_latency = hs ! 3, rk_consume_latency = hs ! 4, rk_broker_response_latency = hs ! 5,
      rk_publish_throughput = hs ! 6, rk_consume_throughput = hs ! 7, rk_active_connections = hs ! 8,
      rk_active_topics = hs ! 9, rk_active_consumers = hs ! 10, rk_memory_usage_bytes = hs ! 11,
      rk_storage_messages_total = hs ! 12, rk_storage_bytes_total = hs ! 13, rk_storage_oldest_message_age = hs ! 14,
      rk_connection_errors_total = hs ! 15, rk_partition_errors_total = hs ! 16, rk_storage_errors_total = hs ! 17\<rparr>"

definition rk_new :: "('h, 'e, 'w) prometheus \<Rightarrow> rounding \<Rightarrow> 'w \<Rightarrow> ('e + 'h rafka_metrics) \<times> 'w" where
  "rk_new px fl w =
     (case create_all px (metric_specs fl) (px_registry px w) of
        (Inl e, w1) \<Rightarrow> (Inl e, w1)
      | (Inr hs, w1) \<Rightarrow>
          (case register_all px hs w1 of
             (Inl e, w2) \<Rightarrow> (Inl e, w2)
           | (Inr _, w2) \<Rightarrow> (Inr (metrics_of hs), w2)))"

definition rk_get_metrics :: "('h, 'e, 'w) prometheus \<Rightarrow> 'w \<Rightarrow> 'e + string" where
  "rk_get_metrics px w = px_encode px w"

definition rk_record_publish :: "('h, 'e, 'w) prometheus \<Rightarrow> rounding \<Rightarrow> duration \<Rightarrow> 'h rafka_metrics \<Rightarrow> 'w \<Rightarrow> 'w" where
  "rk_record_publish px fl latency m w =
     px_observe px (as_secs_f64 fl latency) (rk_publish_latency m) (px_inc px (rk_messages_published_total m) w)"

definition rk_record_consume :: "('h, 'e, 'w) prometheus \<Rightarrow> rounding \<Rightarrow> duration \<Rightarrow> 'h rafka_metrics \<Rightarrow> 'w \<Rightarrow> 'w" where
  "rk_record_consume px fl latency m w =
     px_observe px (as_secs_f64 fl latency) (rk_consume_latency m) (px_inc px (rk_messages_consumed_total m) w)"

definition rk_record_failed_message :: "('h, 'e, 'w) prometheus \<Rightarrow> 'h rafka_metrics \<Rightarrow> 'w \<Rightarrow> 'w" where
  "rk_record_failed_message px m w = px_inc px (rk_messages_failed_total m) w"

definition rk_update_throughput :: "('h, 'e, 'w) prometheus \<Rightarrow> f64 \<Rightarrow> f64 \<Rightarrow> 'h rafka_metrics \<Rightarrow> 'w \<Rightarrow> 'w" where
  "rk_update_throughput px publish_rate consume_rate m w =
     px_set px consume_rate (rk_consume_throughput m) (px_set px publish_rate (rk_publish_throughput m) w)"

definition rk_update_system_metrics ::
  "('h, 'e, 'w) prometheus \<Rightarrow> rounding \<Rightarrow> int \<Rightarrow> int \<Rightarrow> int \<Rightarrow> int \<Rightarrow> 'h rafka_metrics \<Rightarrow> 'w \<Rightarrow> 'w" where
  "rk_update_system_metrics px fl connections topics consumers memory_bytes m w =
     px_set px (fl (of_int memory_bytes)) (rk_memory_usage_bytes m)
       (px_set px (fl (of_int consumers)) (rk_active_consumers m)
         (px_set px (fl (of_int topics)) (rk_active_topics m)
           (px_set px (fl (of_int connections)) (rk_active_connections m) w)))"

definition rk_update_storage_metrics ::
  "('h, 'e, 'w) prometheus \<Rightarrow> rounding \<Rightarrow> int \<Rightarrow> int \<Rightarrow> f64 \<Rightarrow> 'h rafka_metrics \<Rightarrow> 'w \<Rightarrow> 'w" where
  "rk_update_storage_metrics px fl messages bytes oldest_age_secs m w =
     px_set px oldest_age_secs (rk_storage_oldest_message_age m)
       (px_set px (fl (of_int bytes)) (rk_storage_bytes_total m)
         (px_set px (fl (of_int messages)) (rk_storage_messages_total m) w))"

datatype error_type = ConnectionError | PartitionError | StorageError

definition rk_record_error :: "('h, 'e, 'w) prometheus \<Rightarrow> error_type \<Rightarrow> 'h rafka_metrics \<Rightarrow> 'w \<Rightarrow> 'w" where
  "rk_record_error px e m w =
     px_inc px (case e of ConnectionError \<Rightarrow> rk_connection_errors_total m
                        | PartitionError \<Rightarrow> rk_partition_errors_total m
                        | StorageError \<Rightarrow> rk_storage_errors_total m) w"

section \<open>The metrics server\<close>

record 'h metrics_server =
  sv_metrics :: "'h rafka_metrics"
  sv_port :: nat

definition sv_new :: "'h rafka_metrics \<Rightarrow> nat \<Rightarrow> 'h metrics_server" where
  "sv_new metrics port = \<lparr>sv_metrics = metrics, sv_port = port\<rparr>"

text \<open>The handler of a request, by its path: the status and the body of the response.\<close>

definition sv_handle :: "('h, 'e, 'w) prometheus \<Rightarrow> string \<Rightarrow> 'w \<Rightarrow> nat \<times> string" where
  "sv_handle px path w =
     (if path = ''/metrics'' then
        (case rk_get_metrics px w of Inr text \<Rightarrow> (200, text) | Inl _ \<Rightarrow> (500, ''Failed to get metrics''))
      else if path = ''/health'' then (200, ''OK'')
      else (404, ''Not Found''))"

section \<open>What is relied on of the crate\<close>

text \<open>
  A metric can be created if its name is a metric name, its help text is not empty and the bounds of a
  histogram grow.
\<close>

definition name_char :: "char \<Rightarrow> bool" where
  "name_char c = (let n = of_char c :: nat in 97 \<le> n \<and> n \<le> 122 \<or> 65 \<le> n \<and> n \<le> 90 \<or> n = 95 \<or> n = 58)"

definition valid_name :: "string \<Rightarrow> bool" where
  "valid_name s = (s \<noteq> [] \<and> name_char (hd s) \<and>
     list_all (\<lambda>c. name_char c \<or> (let n = of_char c :: nat in 48 \<le> n \<and> n \<le> 57)) s)"

definition valid_spec :: "metric_spec \<Rightarrow> bool" where
  "valid_spec s \<longleftrightarrow> valid_name (sp_name s) \<and> sp_help s \<noteq> []
     \<and> (case sp_kind s of HistogramKind bounds \<Rightarrow> sorted_wrt (<) bounds | _ \<Rightarrow> True)"

text \<open>
  Documented behaviour: a new registry is empty; a valid metric is created as a new one with nothing in it;
  a registration is refused only for a name that is taken; the updates change the metric they are made on and no
  other. A counter is a floating-point number. A histogram adds an observed value to its sum, counts it, and counts it
  in every bucket whose bound it does not exceed; the counts are exact below \<open>2 ^ 63\<close> samples.
\<close>

definition same_metric :: "('h, 'e, 'w) prometheus \<Rightarrow> 'h \<Rightarrow> 'w \<Rightarrow> 'w \<Rightarrow> bool" where
  "same_metric px k w w' \<longleftrightarrow>
     px_name px k w' = px_name px k w \<and> px_kind px k w' = px_kind px k w
     \<and> px_value px k w' = px_value px k w \<and> px_histogram px k w' = px_histogram px k w"

definition no_samples :: "f64 list \<Rightarrow> hist_reading" where
  "no_samples bounds = \<lparr>hr_count = 0, hr_sum = 0, hr_buckets = map (\<lambda>_. 0) bounds\<rparr>"

definition add_sample :: "rounding \<Rightarrow> f64 list \<Rightarrow> f64 \<Rightarrow> hist_reading \<Rightarrow> hist_reading" where
  "add_sample fl bounds x r =
     \<lparr>hr_count = hr_count r + 1, hr_sum = fl (hr_sum r + x),
      hr_buckets = map2 (\<lambda>bound n. if x \<le> bound then n + 1 else n) bounds (hr_buckets r)\<rparr>"

definition fresh_metric :: "('h, 'e, 'w) prometheus \<Rightarrow> 'h \<Rightarrow> 'w \<Rightarrow> bool" where
  "fresh_metric px h w \<longleftrightarrow>
     (case px_kind px h w of HistogramKind bounds \<Rightarrow> px_histogram px h w = no_samples bounds | _ \<Rightarrow> px_value px h w = 0)"

definition creates :: "('h, 'e, 'w) prometheus \<Rightarrow> bool" where
  "creates px \<longleftrightarrow> (\<forall>s w. valid_spec s \<longrightarrow>
     (\<exists>h w'. px_create px s w = (Inr h, w') \<and> h \<notin> set (px_handles px w) \<and> px_handles px w' = h # px_handles px w
        \<and> px_name px h w' = sp_name s \<and> px_kind px h w' = sp_kind s \<and> fresh_metric px h w'
        \<and> px_registered px w' = px_registered px w \<and> (\<forall>k \<in> set (px_handles px w). same_metric px k w w')))"

definition registers :: "('h, 'e, 'w) prometheus \<Rightarrow> bool" where
  "registers px \<longleftrightarrow>
     (\<forall>w. px_registered px (px_registry px w) = [])
     \<and> (\<forall>h w. px_name px h w \<notin> set (px_registered px w) \<longrightarrow>
          (\<exists>w'. px_register px h w = (Inr (), w') \<and> px_registered px w' = px_registered px w @ [px_name px h w]
             \<and> (\<forall>k. same_metric px k w w')))"

definition updates :: "('h, 'e, 'w) prometheus \<Rightarrow> rounding \<Rightarrow> bool" where
  "updates px fl \<longleftrightarrow>
     (\<forall>h k w. px_kind px h w = CounterKind \<longrightarrow>
        px_kind px k (px_inc px h w) = px_kind px k w \<and> px_histogram px k (px_inc px h w) = px_histogram px k w
        \<and> px_value px k (px_inc px h w) = (if k = h then fl (px_value px h w + 1) else px_value px k w))
     \<and> (\<forall>h k x w. px_kind px h w = GaugeKind \<longrightarrow>
        px_kind px k (px_set px x h w) = px_kind px k w \<and> px_histogram px k (px_set px x h w) = px_histogram px k w
        \<and> px_value px k (px_set px x h w) = (if k = h then x else px_value px k w))
     \<and> (\<forall>h k x bounds w. px_kind px h w = HistogramKind bounds \<and> hr_count (px_histogram px h w) + 1 < 2 ^ 63 \<longrightarrow>
        px_kind px k (px_observe px x h w) = px_kind px k w \<and> px_value px k (px_observe px x h w) = px_value px k w
        \<and> px_histogram px k (px_observe px x h w) =
            (if k = h then add_sample fl bounds x (px_histogram px h w) else px_histogram px k w))"

lemma update_laws:
  assumes "updates px fl"
  shows "px_kind px h w = CounterKind \<Longrightarrow> px_kind px k (px_inc px h w) = px_kind px k w"
    and "px_kind px h w = CounterKind \<Longrightarrow> px_histogram px k (px_inc px h w) = px_histogram px k w"
    and "px_kind px h w = CounterKind \<Longrightarrow> px_value px k (px_inc px h w) = (if k = h then fl (px_value px h w + 1) else px_value px k w)"
    and "px_kind px h w = GaugeKind \<Longrightarrow> px_kind px k (px_set px x h w) = px_kind px k w"
    and "px_kind px h w = GaugeKind \<Longrightarrow> px_histogram px k (px_set px x h w) = px_histogram px k w"
    and "px_kind px h w = GaugeKind \<Longrightarrow> px_value px k (px_set px x h w) = (if k = h then x else px_value px k w)"
    and "px_kind px h w = HistogramKind bounds \<Longrightarrow> hr_count (px_histogram px h w) + 1 < 2 ^ 63 \<Longrightarrow>
      px_kind px k (px_observe px x h w) = px_kind px k w"
    and "px_kind px h w = HistogramKind bounds \<Longrightarrow> hr_count (px_histogram px h w) + 1 < 2 ^ 63 \<Longrightarrow>
      px_value px k (px_observe px x h w) = px_value px k w"
    and "px_kind px h w = HistogramKind bounds \<Longrightarrow> hr_count (px_histogram px h w) + 1 < 2 ^ 63 \<Longrightarrow>
      px_histogram px k (px_observe px x h w) =
        (if k = h then add_sample fl bounds x (px_histogram px h w) else px_histogram px k w)"
  using assms unfolding updates_def by blast+

section \<open>Creation\<close>

lemma same_metric_trans: "same_metric px k w w1 \<Longrightarrow> same_metric px k w1 w2 \<Longrightarrow> same_metric px k w w2"
  by (simp add: same_metric_def)

lemma fresh_same: "same_metric px h w w' \<Longrightarrow> fresh_metric px h w' = fresh_metric px h w"
  by (cases "px_kind px h w") (simp_all add: same_metric_def fresh_metric_def)

lemma create_all_ok:
  assumes "creates px" and "list_all valid_spec ss"
  shows "\<exists>hs w'. create_all px ss w = (Inr hs, w') \<and> distinct hs \<and> set hs \<inter> set (px_handles px w) = {}
     \<and> map (\<lambda>h. px_name px h w') hs = map sp_name ss \<and> map (\<lambda>h. px_kind px h w') hs = map sp_kind ss
     \<and> (\<forall>h \<in> set hs. fresh_metric px h w')
     \<and> px_registered px w' = px_registered px w \<and> (\<forall>k \<in> set (px_handles px w). same_metric px k w w')"
  using assms(2)
proof (induction ss arbitrary: w)
  case Nil
  then show ?case by (simp add: same_metric_def)
next
  case (Cons s ss)
  obtain h w1 where 1: "px_create px s w = (Inr h, w1)" "h \<notin> set (px_handles px w)" "px_handles px w1 = h # px_handles px w"
      "px_name px h w1 = sp_name s" "px_kind px h w1 = sp_kind s" "fresh_metric px h w1" "px_registered px w1 = px_registered px w"
      "\<forall>k \<in> set (px_handles px w). same_metric px k w w1"
    using assms(1) Cons.prems unfolding creates_def list.pred_inject(2) by blast
  have "list_all valid_spec ss" using Cons.prems by simp
  from Cons.IH [OF this, of w1] obtain hs w2 where 2: "create_all px ss w1 = (Inr hs, w2)" "distinct hs"
      "set hs \<inter> set (px_handles px w1) = {}" "map (\<lambda>h. px_name px h w2) hs = map sp_name ss"
      "map (\<lambda>h. px_kind px h w2) hs = map sp_kind ss" "\<forall>h \<in> set hs. fresh_metric px h w2"
      "px_registered px w2 = px_registered px w1" "\<forall>k \<in> set (px_handles px w1). same_metric px k w1 w2" by blast
  have "same_metric px k w w2" if "k \<in> set (px_handles px w)" for k
    using same_metric_trans 1(3,8) 2(8) that by (metis list.set_intros(2))
  moreover have h: "same_metric px h w1 w2" using 1(3) 2(8) by simp
  moreover have "fresh_metric px h w2" using fresh_same [OF h] 1(6) by simp
  ultimately show ?case using 1 2 by (intro exI [of _ "h # hs"] exI [of _ w2]) (auto simp: same_metric_def)
qed

lemma register_all_ok:
  assumes "registers px" and "distinct (map (\<lambda>h. px_name px h w) hs)"
    and "set (map (\<lambda>h. px_name px h w) hs) \<inter> set (px_registered px w) = {}"
  shows "\<exists>w'. register_all px hs w = (Inr (), w') \<and> px_registered px w' = px_registered px w @ map (\<lambda>h. px_name px h w) hs
     \<and> (\<forall>k. same_metric px k w w')"
  using assms(2,3)
proof (induction hs arbitrary: w)
  case Nil
  then show ?case by (simp add: same_metric_def)
next
  case (Cons h hs)
  obtain w1 where 1: "px_register px h w = (Inr (), w1)" "px_registered px w1 = px_registered px w @ [px_name px h w]"
      "\<forall>k. same_metric px k w w1"
    using assms(1) Cons.prems(2) unfolding registers_def by (metis disjoint_iff list.set_intros(1) list.simps(9))
  have n: "map (\<lambda>h. px_name px h w1) hs = map (\<lambda>h. px_name px h w) hs" using 1(3) by (simp add: same_metric_def)
  have "\<exists>w'. register_all px hs w1 = (Inr (), w') \<and> px_registered px w' = px_registered px w1 @ map (\<lambda>h. px_name px h w1) hs
     \<and> (\<forall>k. same_metric px k w1 w')"
    by (rule Cons.IH) (use Cons.prems 1(2) in \<open>auto simp: n\<close>)
  then show ?case using 1 n by (auto simp: same_metric_def)
qed

section \<open>What the metrics show\<close>

text \<open>
  The readings of all metrics, and what the calls do to them. In the specification the latencies are the list of
  all that were recorded; what a histogram shows of such a list is \<open>hist_of\<close>.
\<close>

record 'l readings =
  rd_published :: f64
  rd_consumed :: f64
  rd_failed :: f64
  rd_publish_latency :: 'l
  rd_consume_latency :: 'l
  rd_response_latency :: 'l
  rd_throughput :: "f64 \<times> f64"
  rd_system :: "f64 \<times> f64 \<times> f64 \<times> f64"
  rd_storage :: "f64 \<times> f64 \<times> f64"
  rd_connection_errors :: f64
  rd_partition_errors :: f64
  rd_storage_errors :: f64

definition readings_of :: "('h, 'e, 'w) prometheus \<Rightarrow> 'h rafka_metrics \<Rightarrow> 'w \<Rightarrow> hist_reading readings" where
  "readings_of px m w =
     \<lparr>rd_published = px_value px (rk_messages_published_total m) w,
      rd_consumed = px_value px (rk_messages_consumed_total m) w,
      rd_failed = px_value px (rk_messages_failed_total m) w,
      rd_publish_latency = px_histogram px (rk_publish_latency m) w,
      rd_consume_latency = px_histogram px (rk_consume_latency m) w,
      rd_response_latency = px_histogram px (rk_broker_response_latency m) w,
      rd_throughput = (px_value px (rk_publish_throughput m) w, px_value px (rk_consume_throughput m) w),
      rd_system = (px_value px (rk_active_connections m) w, px_value px (rk_active_topics m) w,
        px_value px (rk_active_consumers m) w, px_value px (rk_memory_usage_bytes m) w),
      rd_storage = (px_value px (rk_storage_messages_total m) w, px_value px (rk_storage_bytes_total m) w,
        px_value px (rk_storage_oldest_message_age m) w),
      rd_connection_errors = px_value px (rk_connection_errors_total m) w,
      rd_partition_errors = px_value px (rk_partition_errors_total m) w,
      rd_storage_errors = px_value px (rk_storage_errors_total m) w\<rparr>"

definition no_readings :: "f64 list readings" where
  "no_readings = \<lparr>rd_published = 0, rd_consumed = 0, rd_failed = 0, rd_publish_latency = [], rd_consume_latency = [],
     rd_response_latency = [], rd_throughput = (0, 0), rd_system = (0, 0, 0, 0), rd_storage = (0, 0, 0),
     rd_connection_errors = 0, rd_partition_errors = 0, rd_storage_errors = 0\<rparr>"

definition hist_of :: "rounding \<Rightarrow> f64 list \<Rightarrow> f64 list \<Rightarrow> hist_reading" where
  "hist_of fl bounds xs =
     \<lparr>hr_count = length xs, hr_sum = foldl (\<lambda>s x. fl (s + x)) 0 xs,
      hr_buckets = map (\<lambda>bound. length (filter (\<lambda>x. x \<le> bound) xs)) bounds\<rparr>"

definition view :: "rounding \<Rightarrow> f64 list readings \<Rightarrow> hist_reading readings" where
  "view fl r =
     \<lparr>rd_published = rd_published r, rd_consumed = rd_consumed r, rd_failed = rd_failed r,
      rd_publish_latency = hist_of fl (latency_buckets fl) (rd_publish_latency r),
      rd_consume_latency = hist_of fl (latency_buckets fl) (rd_consume_latency r),
      rd_response_latency = hist_of fl (latency_buckets fl) (rd_response_latency r),
      rd_throughput = rd_throughput r, rd_system = rd_system r, rd_storage = rd_storage r,
      rd_connection_errors = rd_connection_errors r, rd_partition_errors = rd_partition_errors r,
      rd_storage_errors = rd_storage_errors r\<rparr>"

lemma hist_of_nil: "hist_of fl bounds [] = no_samples bounds"
  by (simp add: hist_of_def no_samples_def)

lemma hist_of_snoc: "hist_of fl bounds (xs @ [x]) = add_sample fl bounds x (hist_of fl bounds xs)"
  by (simp add: hist_of_def add_sample_def zip_map2 zip_same_conv_map comp_def)

datatype metric_op =
    RecordPublish duration
  | RecordConsume duration
  | RecordFailed
  | UpdateThroughput f64 f64
  | UpdateSystem int int int int
  | UpdateStorage int int f64
  | RecordError error_type

fun metric_op_run :: "('h, 'e, 'w) prometheus \<Rightarrow> rounding \<Rightarrow> 'h rafka_metrics \<Rightarrow> metric_op \<Rightarrow> 'w \<Rightarrow> 'w" where
  "metric_op_run px fl m (RecordPublish d) w = rk_record_publish px fl d m w"
| "metric_op_run px fl m (RecordConsume d) w = rk_record_consume px fl d m w"
| "metric_op_run px fl m RecordFailed w = rk_record_failed_message px m w"
| "metric_op_run px fl m (UpdateThroughput p c) w = rk_update_throughput px p c m w"
| "metric_op_run px fl m (UpdateSystem a b c d) w = rk_update_system_metrics px fl a b c d m w"
| "metric_op_run px fl m (UpdateStorage a b x) w = rk_update_storage_metrics px fl a b x m w"
| "metric_op_run px fl m (RecordError e) w = rk_record_error px e m w"

fun spec_op_run :: "rounding \<Rightarrow> metric_op \<Rightarrow> f64 list readings \<Rightarrow> f64 list readings" where
  "spec_op_run fl (RecordPublish d) r =
     r\<lparr>rd_published := fl (rd_published r + 1), rd_publish_latency := rd_publish_latency r @ [as_secs_f64 fl d]\<rparr>"
| "spec_op_run fl (RecordConsume d) r =
     r\<lparr>rd_consumed := fl (rd_consumed r + 1), rd_consume_latency := rd_consume_latency r @ [as_secs_f64 fl d]\<rparr>"
| "spec_op_run fl RecordFailed r = r\<lparr>rd_failed := fl (rd_failed r + 1)\<rparr>"
| "spec_op_run fl (UpdateThroughput p c) r = r\<lparr>rd_throughput := (p, c)\<rparr>"
| "spec_op_run fl (UpdateSystem a b c d) r = r\<lparr>rd_system := (fl (of_int a), fl (of_int b), fl (of_int c), fl (of_int d))\<rparr>"
| "spec_op_run fl (UpdateStorage a b x) r = r\<lparr>rd_storage := (fl (of_int a), fl (of_int b), x)\<rparr>"
| "spec_op_run fl (RecordError ConnectionError) r = r\<lparr>rd_connection_errors := fl (rd_connection_errors r + 1)\<rparr>"
| "spec_op_run fl (RecordError PartitionError) r = r\<lparr>rd_partition_errors := fl (rd_partition_errors r + 1)\<rparr>"
| "spec_op_run fl (RecordError StorageError) r = r\<lparr>rd_storage_errors := fl (rd_storage_errors r + 1)\<rparr>"

definition metric_handles :: "'h rafka_metrics \<Rightarrow> 'h list" where
  "metric_handles m =
     [rk_messages_published_total m, rk_messages_consumed_total m, rk_messages_failed_total m, rk_publish_latency m,
      rk_consume_latency m, rk_broker_response_latency m, rk_publish_throughput m, rk_consume_throughput m,
      rk_active_connections m, rk_active_topics m, rk_active_consumers m, rk_memory_usage_bytes m,
      rk_storage_messages_total m, rk_storage_bytes_total m, rk_storage_oldest_message_age m,
      rk_connection_errors_total m, rk_partition_errors_total m, rk_storage_errors_total m]"

lemma metric_handles_of: "length hs = 18 \<Longrightarrow> metric_handles (metrics_of hs) = hs"
  by (rule nth_equalityI) (auto simp: metric_handles_def metrics_of_def less_Suc_eq numeral_eq_Suc)

text \<open>Every call does to the readings what it should, if the metrics are different ones of the right kinds.\<close>

definition right_kinds :: "('h, 'e, 'w) prometheus \<Rightarrow> rounding \<Rightarrow> 'h rafka_metrics \<Rightarrow> 'w \<Rightarrow> bool" where
  "right_kinds px fl m w \<longleftrightarrow> map (\<lambda>h. px_kind px h w) (metric_handles m) = map sp_kind (metric_specs fl)"

lemmas op_defs = rk_record_publish_def rk_record_consume_def rk_record_failed_message_def rk_update_throughput_def
  rk_update_system_metrics_def rk_update_storage_metrics_def rk_record_error_def

lemma metric_op_refines:
  assumes "updates px fl" and "distinct (metric_handles m)" and "right_kinds px fl m w"
    and "readings_of px m w = view fl r"
    and "length (rd_publish_latency r) + 1 < 2 ^ 63" and "length (rd_consume_latency r) + 1 < 2 ^ 63"
  shows "readings_of px m (metric_op_run px fl m op w) = view fl (spec_op_run fl op r)"
    and "right_kinds px fl m (metric_op_run px fl m op w)"
proof -
  have sym: "distinct (rev (metric_handles m))" using assms(2) by simp
  note kinds = assms(3) [unfolded right_kinds_def metric_handles_def metric_specs_def, simplified]
  note shows_r = assms(4) [unfolded readings_of_def view_def, simplified]
  have n: "hr_count (px_histogram px (rk_publish_latency m) w) + 1 < 2 ^ 63"
      "hr_count (px_histogram px (rk_consume_latency m) w) + 1 < 2 ^ 63"
    using shows_r assms(5,6) by (simp_all add: hist_of_def)
  have "readings_of px m (metric_op_run px fl m op w) = view fl (spec_op_run fl op r) \<and> right_kinds px fl m (metric_op_run px fl m op w)"
  proof (cases op)
    case (RecordError e)
    then show ?thesis using assms(2) sym kinds shows_r
      by (cases e) (simp_all add: update_laws [OF assms(1)] metric_handles_def metric_specs_def right_kinds_def
          readings_of_def view_def op_defs)
  qed (use assms(2) sym kinds shows_r n in \<open>simp_all add: update_laws [OF assms(1)] metric_handles_def metric_specs_def
    right_kinds_def readings_of_def view_def op_defs hist_of_snoc\<close>)
  then show "readings_of px m (metric_op_run px fl m op w) = view fl (spec_op_run fl op r)"
    and "right_kinds px fl m (metric_op_run px fl m op w)" by blast+
qed

lemma spec_op_samples:
  "length (rd_publish_latency (spec_op_run fl op r)) \<le> Suc (length (rd_publish_latency r))"
  "length (rd_consume_latency (spec_op_run fl op r)) \<le> Suc (length (rd_consume_latency r))"
  "rd_response_latency (spec_op_run fl op r) = rd_response_latency r"
  by (cases "(fl, op, r)" rule: spec_op_run.cases; simp)+

lemma metric_ops_refine:
  assumes "updates px fl" and "distinct (metric_handles m)"
  shows "right_kinds px fl m w \<Longrightarrow> readings_of px m w = view fl r \<Longrightarrow>
    length (rd_publish_latency r) + length ops < 2 ^ 63 \<Longrightarrow> length (rd_consume_latency r) + length ops < 2 ^ 63 \<Longrightarrow>
    readings_of px m (fold (metric_op_run px fl m) ops w) = view fl (fold (spec_op_run fl) ops r)"
proof (induction ops arbitrary: w r)
  case (Cons op ops)
  have n: "length (rd_publish_latency r) + 1 < 2 ^ 63" "length (rd_consume_latency r) + 1 < 2 ^ 63"
    using Cons.prems(3,4) by simp_all
  note step = metric_op_refines [OF assms Cons.prems(1,2) n, of op]
  have "readings_of px m (fold (metric_op_run px fl m) ops (metric_op_run px fl m op w)) =
      view fl (fold (spec_op_run fl) ops (spec_op_run fl op r))"
    by (rule Cons.IH [OF step(2,1)]) (use Cons.prems(3,4) spec_op_samples(1,2) [of fl op r] in simp_all)
  then show ?case by simp
qed simp

lemma metric_specs_valid:
  "sorted_wrt (<) (latency_buckets fl) \<Longrightarrow> list_all valid_spec (metric_specs fl)"
  by (simp add: metric_specs_def valid_spec_def valid_name_def name_char_def Let_def)

lemma metric_names_distinct: "distinct (map sp_name (metric_specs fl))"
  by (simp add: metric_specs_def)

section \<open>Properties\<close>

text \<open>
  Property C18: the registry is complete and keeps what it is told. With a crate that behaves as documented
  and bucket bounds that stay in order when rounded, \<open>new\<close> succeeds: all eighteen metrics have valid and
  different names and are registered. From then on the readings after any sequence of fewer than \<open>2 ^ 63\<close> calls are
  those of the specification: each counter counts its calls, the gauges have the values set last, and the two latency histograms
  show the number of the recorded latencies, their rounded sum and, for each of the twelve bounds, how many of them are
  not above it; the histogram of the response latency stays empty.
\<close>

theorem metrics_refine:
  assumes "creates px" and "registers px" and "updates px fl" and "sorted_wrt (<) (latency_buckets fl)"
  shows "\<exists>m w0. rk_new px fl w = (Inr m, w0)
     \<and> px_registered px w0 = map sp_name (metric_specs fl)
     \<and> (\<forall>ops. length ops < 2 ^ 63 \<longrightarrow>
          readings_of px m (fold (metric_op_run px fl m) ops w0) = view fl (fold (spec_op_run fl) ops no_readings)
          \<and> rd_response_latency (readings_of px m (fold (metric_op_run px fl m) ops w0)) = no_samples (latency_buckets fl))"
proof -
  obtain hs w1 where 1: "create_all px (metric_specs fl) (px_registry px w) = (Inr hs, w1)" "distinct hs"
      "map (\<lambda>h. px_name px h w1) hs = map sp_name (metric_specs fl)"
      "map (\<lambda>h. px_kind px h w1) hs = map sp_kind (metric_specs fl)"
      "\<forall>h \<in> set hs. fresh_metric px h w1" "px_registered px w1 = []"
    using create_all_ok [OF assms(1) metric_specs_valid [OF assms(4)], of "px_registry px w"] assms(2)
    by (auto simp: registers_def)
  obtain w0 where 2: "register_all px hs w1 = (Inr (), w0)" "px_registered px w0 = map sp_name (metric_specs fl)"
      "\<forall>k. same_metric px k w1 w0"
    using register_all_ok [OF assms(2), of w1 hs] 1(3,6) metric_names_distinct [of fl] by auto
  let ?m = "metrics_of hs"
  have "length hs = 18" using arg_cong [OF 1(3), of length] by (simp add: metric_specs_def)
  then have hs: "metric_handles ?m = hs" by (rule metric_handles_of)
  have kinds: "right_kinds px fl ?m w0" using 1(4) 2(3) hs by (simp add: right_kinds_def same_metric_def)
  have "\<forall>h \<in> set (metric_handles ?m). fresh_metric px h w0"
    using 1(5) 2(3) hs fresh_same by metis
  then have zero: "readings_of px ?m w0 = view fl no_readings"
    using kinds by (simp add: right_kinds_def metric_handles_def metric_specs_def readings_of_def no_readings_def view_def
        fresh_metric_def hist_of_nil)
  have "distinct (metric_handles ?m)" using hs 1(2) by simp
  note ops = metric_ops_refine [OF assms(3) this kinds zero]
  have "rd_response_latency (fold (spec_op_run fl) ops r) = rd_response_latency r" for ops r
    by (induction ops arbitrary: r) (simp_all add: spec_op_samples(3))
  then have "rd_response_latency (view fl (fold (spec_op_run fl) ops no_readings)) = no_samples (latency_buckets fl)" for ops
    by (simp add: view_def no_readings_def hist_of_nil)
  then have "length ops < 2 ^ 63 \<longrightarrow>
      readings_of px ?m (fold (metric_op_run px fl ?m) ops w0) = view fl (fold (spec_op_run fl) ops no_readings)
      \<and> rd_response_latency (readings_of px ?m (fold (metric_op_run px fl ?m) ops w0)) = no_samples (latency_buckets fl)" for ops
    using ops [of ops] by (simp add: no_readings_def)
  moreover have "rk_new px fl w = (Inr ?m, w0)" using 1(1) 2(1) by (simp add: rk_new_def)
  ultimately show ?thesis using 2(2) by blast
qed

text \<open>A crate in memory: the state is the table of the metrics and the names in the registry.\<close>

record metric_cell =
  mc_name :: string
  mc_kind :: metric_kind
  mc_value :: f64
  mc_histogram :: hist_reading

record table_state =
  ts_cells :: "metric_cell list"
  ts_names :: "string list"

definition new_cell :: "metric_spec \<Rightarrow> metric_cell" where
  "new_cell s = \<lparr>mc_name = sp_name s, mc_kind = sp_kind s, mc_value = 0,
     mc_histogram = no_samples (case sp_kind s of HistogramKind bounds \<Rightarrow> bounds | _ \<Rightarrow> [])\<rparr>"

definition cell :: "nat \<Rightarrow> table_state \<Rightarrow> metric_cell" where
  "cell h w = (if h < length (ts_cells w) then ts_cells w ! h else new_cell (counter_spec [] []))"

definition change_cell :: "(metric_cell \<Rightarrow> metric_cell) \<Rightarrow> nat \<Rightarrow> table_state \<Rightarrow> table_state" where
  "change_cell f h w =
     w\<lparr>ts_cells := (ts_cells w @ replicate (Suc h - length (ts_cells w)) (new_cell (counter_spec [] [])))[h := f (cell h w)]\<rparr>"

definition sample_cell :: "f64 \<Rightarrow> metric_cell \<Rightarrow> metric_cell" where
  "sample_cell x c = (case mc_kind c of
     HistogramKind bounds \<Rightarrow> c\<lparr>mc_histogram := add_sample (\<lambda>x. x) bounds x (mc_histogram c)\<rparr> | _ \<Rightarrow> c)"

definition table_crate :: "(nat, unit, table_state) prometheus" where
  "table_crate =
     \<lparr>px_registry = (\<lambda>w. w\<lparr>ts_names := []\<rparr>),
      px_create = (\<lambda>s w. (Inr (length (ts_cells w)), w\<lparr>ts_cells := ts_cells w @ [new_cell s]\<rparr>)),
      px_register = (\<lambda>h w. if mc_name (cell h w) \<in> set (ts_names w) then (Inl (), w)
         else (Inr (), w\<lparr>ts_names := ts_names w @ [mc_name (cell h w)]\<rparr>)),
      px_inc = change_cell (\<lambda>c. c\<lparr>mc_value := mc_value c + 1\<rparr>),
      px_observe = (\<lambda>x. change_cell (sample_cell x)),
      px_set = (\<lambda>x. change_cell (\<lambda>c. c\<lparr>mc_value := x\<rparr>)),
      px_encode = (\<lambda>w. Inr (concat (ts_names w))),
      px_handles = (\<lambda>w. rev [0..<length (ts_cells w)]),
      px_name = (\<lambda>h w. mc_name (cell h w)), px_registered = ts_names,
      px_value = (\<lambda>h w. mc_value (cell h w)), px_kind = (\<lambda>h w. mc_kind (cell h w)),
      px_histogram = (\<lambda>h w. mc_histogram (cell h w))\<rparr>"

lemma cell_change: "cell k (change_cell f h w) = (if k = h then f (cell h w) else cell k w)"
  by (auto simp: cell_def change_cell_def nth_append)

lemma table_crate_laws: "creates table_crate" "registers table_crate" "updates table_crate (\<lambda>x. x)"
proof -
  show "creates table_crate"
    by (auto simp: creates_def table_crate_def same_metric_def cell_def nth_append new_cell_def fresh_metric_def
        split: metric_kind.splits)
  show "registers table_crate"
    by (auto simp: registers_def table_crate_def same_metric_def cell_def)
  show "updates table_crate (\<lambda>x. x)"
    by (auto simp: updates_def table_crate_def cell_change sample_cell_def)
qed

text \<open>Two publishes, of 20 and 300 milliseconds: the first is counted from the bound of 25 milliseconds on, the second from 500.\<close>

theorem metrics_refine_witness:
  "\<exists>m w0 r. rk_new table_crate (\<lambda>x. x) \<lparr>ts_cells = [], ts_names = []\<rparr> = (Inr m, w0)
     \<and> r = readings_of table_crate m (fold (metric_op_run table_crate (\<lambda>x. x) m)
         [RecordPublish (millis 20), RecordFailed, RecordPublish (millis 300)] w0)
     \<and> rd_published r = 2 \<and> rd_failed r = 1
     \<and> rd_publish_latency r = \<lparr>hr_count = 2, hr_sum = 32 / 100, hr_buckets = [0, 0, 0, 1, 1, 1, 1, 2, 2, 2, 2, 2]\<rparr>"
proof -
  let ?ops = "[RecordPublish (millis 20), RecordFailed, RecordPublish (millis 300)]"
  have "sorted_wrt (<) (latency_buckets (\<lambda>x. x))" by (simp add: latency_buckets_def)
  from metrics_refine [OF table_crate_laws this, of "\<lparr>ts_cells = [], ts_names = []\<rparr>"]
  obtain m w0 where n: "rk_new table_crate (\<lambda>x. x) \<lparr>ts_cells = [], ts_names = []\<rparr> = (Inr m, w0)"
    and r: "\<forall>ops. length ops < 2 ^ 63 \<longrightarrow> readings_of table_crate m (fold (metric_op_run table_crate (\<lambda>x. x) m) ops w0) =
      view (\<lambda>x. x) (fold (spec_op_run (\<lambda>x. x)) ops no_readings)"
    by blast
  have "readings_of table_crate m (fold (metric_op_run table_crate (\<lambda>x. x) m) ?ops w0) =
      view (\<lambda>x. x) (fold (spec_op_run (\<lambda>x. x)) ?ops no_readings)"
    by (rule r [THEN spec, THEN mp]) simp
  moreover have "rd_publish_latency (view (\<lambda>x. x) (fold (spec_op_run (\<lambda>x. x)) ?ops no_readings)) =
      \<lparr>hr_count = 2, hr_sum = 32 / 100, hr_buckets = [0, 0, 0, 1, 1, 1, 1, 2, 2, 2, 2, 2]\<rparr>"
    by (simp add: view_def no_readings_def hist_of_def latency_buckets_def as_secs_f64_def millis_def)
  moreover have "rd_published (view (\<lambda>x. x) (fold (spec_op_run (\<lambda>x. x)) ?ops no_readings)) = 2"
      "rd_failed (view (\<lambda>x. x) (fold (spec_op_run (\<lambda>x. x)) ?ops no_readings)) = 1"
    by (simp_all add: view_def no_readings_def)
  ultimately show ?thesis using n by (intro exI [of _ m] exI [of _ w0] exI conjI refl) simp_all
qed

text \<open>The server answers every request, with an error page if the text cannot be made.\<close>

lemma sv_handle_total:
  "fst (sv_handle px path w) \<in> {200, 404, 500}"
  "fst (sv_handle px path w) = 404 \<longleftrightarrow> path \<noteq> ''/metrics'' \<and> path \<noteq> ''/health''"
  by (auto simp: sv_handle_def split: sum.splits)

end
