(* ===== verification/Programs.thy ===== *)
theory Programs
  imports Delivery Producer Federation Metrics_Registry
begin

text \<open>
  The command-line programs of \<^verbatim>\<open>src/bin\<close>: how they read their arguments and what they do with the
  libraries. Printing is left out, except where it is all that a program does.
\<close>

section \<open>Arguments\<close>

text \<open>
  \<open>args.iter().position(|a| a == flag).and_then(|i| args.get(i + 1))\<close>: the argument after the first
  occurrence of the flag.
\<close>

definition arg_after :: "string \<Rightarrow> string list \<Rightarrow> string option" where
  "arg_after flag args = (case dropWhile (\<lambda>a. a \<noteq> flag) args of _ # v # _ \<Rightarrow> Some v | _ \<Rightarrow> None)"

text \<open>
  \<open>str::parse\<close> for the unsigned integers of \<open>w\<close> bits: an optional plus sign and at least one digit;
  a value that does not fit is an error.
\<close>

definition is_digit :: "char \<Rightarrow> bool" where
  "is_digit c = (let n = of_char c :: nat in 48 \<le> n \<and> n \<le> 57)"

definition digits_value :: "string \<Rightarrow> nat" where
  "digits_value s = foldl (\<lambda>v c. 10 * v + (of_char c - 48)) 0 s"

definition parse_uint :: "nat \<Rightarrow> string \<Rightarrow> nat option" where
  "parse_uint w s =
     (let ds = (case s of c # cs \<Rightarrow> if c = CHR ''+'' then cs else s | [] \<Rightarrow> [])
      in if ds \<noteq> [] \<and> list_all is_digit ds \<and> digits_value ds < 2 ^ w then Some (digits_value ds) else None)"

definition uint_arg :: "nat \<Rightarrow> string \<Rightarrow> string list \<Rightarrow> nat option" where
  "uint_arg w flag args = Option.bind (arg_after flag args) (parse_uint w)"

definition unwrap_or :: "'a \<Rightarrow> 'a option \<Rightarrow> 'a" where
  "unwrap_or d x = (case x of Some v \<Rightarrow> v | None \<Rightarrow> d)"

text \<open>\<open>str::split\<close> at a character.\<close>

fun split_on :: "char \<Rightarrow> string \<Rightarrow> string list" where
  "split_on c [] = [[]]"
| "split_on c (x # xs) =
     (if x = c then [] # split_on c xs
      else case split_on c xs of y # ys \<Rightarrow> (x # y) # ys | [] \<Rightarrow> [[x]])"

section \<open>The broker program\<close>

record broker_args =
  ba_port :: nat
  ba_partition_id :: nat
  ba_total_partitions :: nat
  ba_retention_policy :: "retention_policy option"
  ba_cluster_config_path :: "string option"
  ba_bootstrap_nodes :: "string list"

definition read_args :: "string list \<Rightarrow> broker_args" where
  "read_args args =
     \<lparr>ba_port = unwrap_or 50051 (uint_arg 16 ''--port'' args),
      ba_partition_id = unwrap_or 0 (uint_arg 32 ''--partition'' args),
      ba_total_partitions = unwrap_or 1 (uint_arg 32 ''--total-partitions'' args),
      ba_retention_policy = map_option (\<lambda>s. \<lparr>rp_max_age = secs s, rp_max_bytes = 1024 * 1024 * 1024\<rparr>)
        (uint_arg 64 ''--retention-seconds'' args),
      ba_cluster_config_path = arg_after ''--cluster-config'' args,
      ba_bootstrap_nodes = unwrap_or [] (map_option (split_on CHR '','') (arg_after ''--bootstrap'' args))\<rparr>"

text \<open>
  \<open>main\<close> of \<^verbatim>\<open>start_broker.rs\<close> up to the call of \<open>serve\<close>. \<open>config path\<close> is what reading and parsing the
  file gives; a failure to load it or to start the mesh is only a warning.
\<close>

definition start_broker ::
  "net_env \<Rightarrow> (nat \<Rightarrow> systime) \<Rightarrow> (nat \<Rightarrow> nat \<Rightarrow> systime \<times> systime) \<Rightarrow> (string \<Rightarrow> cluster_config option) \<Rightarrow>
   string list \<Rightarrow> broker outcome" where
  "start_broker nv clock mclock config args =
     (let a = read_args args;
          b = new_with_cluster clock (ba_partition_id a) (ba_total_partitions a) (ba_retention_policy a) ''127.0.0.1'' (ba_port a);
          b1 = (case ba_cluster_config_path a of
                  Some path \<Rightarrow> snd (load_cluster_config (nv_env nv) (config path) b)
                | None \<Rightarrow> b)
      in case initialize_p2p_mesh nv mclock (ba_bootstrap_nodes a) b1 of
           (Ret _, b2) \<Rightarrow> Ret b2
         | (Panic, _) \<Rightarrow> Panic
         | (Block, _) \<Rightarrow> Block)"

section \<open>The client programs\<close>

text \<open>\<^verbatim>\<open>start_producer.rs\<close>: the address it dials, and the message it publishes.\<close>

definition producer_addrs :: "string list \<Rightarrow> string list" where
  "producer_addrs args =
     (if ''--brokers'' \<in> set args
      then unwrap_or [''127.0.0.1:50051''] (map_option (split_on CHR '','') (arg_after ''--brokers'' args))
      else [''127.0.0.1:50051''])"

definition start_producer ::
  "(string \<Rightarrow> string + unit) \<Rightarrow> string \<Rightarrow> (string \<Rightarrow> string + 'c) \<Rightarrow> ('c, 'w) publish_rpc \<Rightarrow> string list \<Rightarrow> 'w \<Rightarrow>
   unit answer \<times> 'w" where
  "start_producer endpoint uuid connect rpc args w =
     (case producer_addrs args of
        [] \<Rightarrow> (Panic, w)
      | addr # _ \<Rightarrow>
          (case pd_new (endpoint addr) uuid of
             Inl e \<Rightarrow> (Ret (Inl e), w)
           | Inr pd \<Rightarrow>
               (case pd_publish (connect addr) rpc ''greetings'' (unwrap_or ''Hello, World!'' (arg_after ''--message'' args))
                  (unwrap_or ''default-key'' (arg_after ''--key'' args)) pd w of
                  (Ret (Inr _), _, w') \<Rightarrow> (Ret (Inr ()), w')
                | (Ret (Inl e), _, w') \<Rightarrow> (Ret (Inl e), w')
                | (Panic, _, w') \<Rightarrow> (Panic, w')
                | (Block, _, w') \<Rightarrow> (Block, w'))))"

text \<open>
  \<^verbatim>\<open>start_consumer.rs\<close>: the lines it prints for the messages and how it ends, which it does only when
  the receiver of \<open>consume\<close> ends. \<open>dial port\<close> is the client and whether it could connect. The partition
  of the command line is only printed.
\<close>

definition start_consumer ::
  "(nat \<Rightarrow> string) \<Rightarrow> (string \<Rightarrow> string \<Rightarrow> string \<Rightarrow> 'w \<Rightarrow> channel_poll list answer \<times> 'w) \<Rightarrow>
   (nat \<Rightarrow> 'w client \<times> bool) \<Rightarrow> string \<Rightarrow> string list \<Rightarrow> 'w \<Rightarrow> string list \<times> unit answer \<times> 'w" where
  "start_consumer lag_text opened dial uuid args w =
     (case dial (unwrap_or 50051 (uint_arg 16 ''--port'' args)) of
        (cl, conn_ok) \<Rightarrow>
          (case co_new cl conn_ok uuid (arg_after ''--group-id'' args) w of
             (Ret (Inr c), w1) \<Rightarrow>
               (case co_subscribe cl ''greetings'' c w1 of
                  (Ret (Inr _), c1, w2) \<Rightarrow>
                    (case co_consume lag_text opened cl (\<lambda>_. Accepted) c1 ''greetings'' w2 of
                       (Ret (Inr (out, ends)), w3) \<Rightarrow>
                         (map (\<lambda>m. ''Received message: '' @ m) out, if ends then Ret (Inr ()) else Block, w3)
                     | (Ret (Inl e), w3) \<Rightarrow> ([], Ret (Inl e), w3)
                     | (Panic, w3) \<Rightarrow> ([], Panic, w3)
                     | (Block, w3) \<Rightarrow> ([], Block, w3))
                | (r, _, w2) \<Rightarrow> ([], r, w2))
           | (Ret (Inl e), w1) \<Rightarrow> ([], Ret (Inl e), w1)
           | (Panic, w1) \<Rightarrow> ([], Panic, w1)
           | (Block, w1) \<Rightarrow> ([], Block, w1)))"

text \<open>\<^verbatim>\<open>check_metrics.rs\<close>: the lines it prints for the answer of the broker at the port.\<close>

definition check_metrics :: "(nat \<Rightarrow> (string + nat \<times> nat \<times> nat) outcome) \<Rightarrow> string list \<Rightarrow> (string + string list) outcome" where
  "check_metrics ask args =
     (case ask (unwrap_or 50051 (uint_arg 16 ''--port'' args)) of
        Ret (Inr (messages, bytes, age)) \<Rightarrow>
          Ret (Inr [''Storage Metrics:'', ''Total Messages: '' @ show_nat messages,
            ''Total Size: '' @ show_nat bytes @ '' bytes'', ''Oldest Message Age: '' @ show_nat age @ '' seconds''])
      | Ret (Inl e) \<Rightarrow> Ret (Inl e)
      | Panic \<Rightarrow> Panic
      | Block \<Rightarrow> Block)"

text \<open>\<^verbatim>\<open>metrics_server.rs\<close>: the server it starts.\<close>

definition start_metrics_server ::
  "('h, 'e, 'w) prometheus \<Rightarrow> rounding \<Rightarrow> string list \<Rightarrow> 'w \<Rightarrow> ('e + 'h metrics_server) \<times> 'w" where
  "start_metrics_server px fl args w =
     (case rk_new px fl w of
        (Inl e, w1) \<Rightarrow> (Inl e, w1)
      | (Inr m, w1) \<Rightarrow> (Inr (sv_new m (unwrap_or 9092 (uint_arg 16 ''--port'' args))), w1))"

section \<open>Reading numbers and arguments\<close>

lemma digit_chars:
  assumes "d < 10"
  shows "is_digit (char_of (48 + d))" "of_char (char_of (48 + d) :: char) - (48 :: nat) = d"
  using assms by (simp_all add: is_digit_def)

lemma digits_value_append:
  "digits_value (s @ [c]) = 10 * digits_value s + (of_char c - 48)"
  by (simp add: digits_value_def)

lemma show_nat_digits: "show_nat n \<noteq> [] \<and> list_all is_digit (show_nat n) \<and> digits_value (show_nat n) = n"
proof (induction n rule: show_nat.induct)
  case (1 n)
  show ?case
  proof (cases "n < 10")
    case True
    then show ?thesis using digit_chars [of n] by (simp add: show_nat.simps [of n] digits_value_def)
  next
    case False
    then show ?thesis using 1 digit_chars [of "n mod 10"]
      by (simp add: show_nat.simps [of n] digits_value_append)
  qed
qed

lemma parse_uint_show: "parse_uint w (show_nat n) = (if n < 2 ^ w then Some n else None)"
proof -
  obtain c cs where s: "show_nat n = c # cs" using show_nat_digits by (meson neq_Nil_conv)
  then have "is_digit c" using show_nat_digits [of n] by simp
  then have "c \<noteq> CHR ''+''" by (auto simp: is_digit_def Let_def)
  then show ?thesis using show_nat_digits [of n] s by (simp add: parse_uint_def)
qed

lemma parse_uint_bound: "parse_uint w s = Some n \<Longrightarrow> n < 2 ^ w"
  by (auto simp: parse_uint_def Let_def split: if_splits list.splits)

lemma uint_arg_bound: "uint_arg w flag args = Some n \<Longrightarrow> n < 2 ^ w"
  by (auto simp: uint_arg_def bind_eq_Some_conv parse_uint_bound)

fun join_on :: "char \<Rightarrow> string list \<Rightarrow> string" where
  "join_on c [] = []"
| "join_on c [x] = x"
| "join_on c (x # xs) = x @ c # join_on c xs"

lemma split_on_plain: "c \<notin> set x \<Longrightarrow> split_on c x = [x]"
  by (induction x) auto

lemma split_on_sep: "c \<notin> set x \<Longrightarrow> split_on c (x @ c # s) = x # split_on c s"
  by (induction x) auto

lemma split_join: "xs \<noteq> [] \<Longrightarrow> \<forall>x \<in> set xs. c \<notin> set x \<Longrightarrow> split_on c (join_on c xs) = xs"
  by (induction c xs rule: join_on.induct) (auto simp: split_on_plain split_on_sep)

lemma arg_after_simps [simp]:
  "arg_after flag [] = None"
  "arg_after flag [a] = None"
  "arg_after flag (a # v # args) = (if a = flag then Some v else arg_after flag (v # args))"
  by (simp_all add: arg_after_def)

text \<open>A number or a name without a leading dash is not taken for a flag.\<close>

lemma show_nat_no_flag [simp]: "show_nat n \<noteq> CHR ''-'' # f" "CHR ''-'' # f \<noteq> show_nat n"
proof -
  have "\<not> is_digit (CHR ''-'')" by (simp add: is_digit_def)
  then show "show_nat n \<noteq> CHR ''-'' # f" "CHR ''-'' # f \<noteq> show_nat n"
    using show_nat_digits [of n] by (metis list.pred_inject(2))+
qed

lemma name_no_flag: "take 1 x \<noteq> ''-'' \<Longrightarrow> x \<noteq> CHR ''-'' # f"
  by auto

section \<open>A started broker\<close>

lemma load_config_ids:
  "bk_partition_id (snd (load_cluster_config ev cfg b)) = bk_partition_id b"
  "bk_total_partitions (snd (load_cluster_config ev cfg b)) = bk_total_partitions b"
proof -
  let ?f = "\<lambda>bc b. tick (b\<lparr>bk_cluster_manager := add_broker (bi_new (ev_clock ev (bk_draws b)) bc) (bk_cluster_manager b)\<rparr>)"
  have "bk_partition_id (fold ?f bs b) = bk_partition_id b \<and> bk_total_partitions (fold ?f bs b) = bk_total_partitions b" for bs
    by (induction bs arbitrary: b) simp_all
  then show "bk_partition_id (snd (load_cluster_config ev cfg b)) = bk_partition_id b"
    "bk_total_partitions (snd (load_cluster_config ev cfg b)) = bk_total_partitions b"
    by (simp_all add: load_cluster_config_def split: option.splits)
qed

lemma init_mesh_ids:
  assumes "initialize_p2p_mesh nv clock nodes b = (r, b')"
  shows "bk_partition_id b' = bk_partition_id b" "bk_total_partitions b' = bk_total_partitions b"
  using assms by (auto simp: initialize_p2p_mesh_def Let_def draw_many_def put_mesh_def queue_writer_def
      split: option.splits outcome.splits prod.splits if_splits)

lemma start_broker_ids:
  assumes "start_broker nv clock mclock config args = Ret b"
  shows "bk_partition_id b = ba_partition_id (read_args args)"
    and "bk_total_partitions b = ba_total_partitions (read_args args)"
proof -
  let ?a = "read_args args"
  let ?b = "new_with_cluster clock (ba_partition_id ?a) (ba_total_partitions ?a) (ba_retention_policy ?a) ''127.0.0.1'' (ba_port ?a)"
  let ?b1 = "case ba_cluster_config_path ?a of
     Some path \<Rightarrow> snd (load_cluster_config (nv_env nv) (config path) ?b) | None \<Rightarrow> ?b"
  obtain x where "initialize_p2p_mesh nv mclock (ba_bootstrap_nodes ?a) ?b1 = (Ret x, b)"
    using assms by (auto simp: start_broker_def Let_def split: prod.splits outcome.splits)
  note ids = init_mesh_ids [OF this]
  have "bk_partition_id ?b1 = ba_partition_id ?a" "bk_total_partitions ?b1 = ba_total_partitions ?a"
    by (simp_all add: load_config_ids new_with_cluster_def split: option.splits)
  then show "bk_partition_id b = ba_partition_id ?a" "bk_total_partitions b = ba_total_partitions ?a" using ids by simp_all
qed

lemma key_of_sum: "unat (hash_key (replicate n (CHR 0x01))) = n mod 2 ^ 32"
proof -
  have "fold (\<lambda>b acc. acc + ucast b) (replicate n (1 :: byte)) acc = acc + (of_nat n :: 32 word)" for acc
    by (induction n arbitrary: acc) simp_all
  then have "hash_key (replicate n (CHR 0x01)) = of_nat n" by (simp add: hash_key_def string_bytes_def)
  then show ?thesis by (simp add: unat_of_nat)
qed

section \<open>Properties\<close>

text \<open>The command line of a broker.\<close>

definition broker_command ::
  "string \<Rightarrow> nat \<Rightarrow> nat \<Rightarrow> nat \<Rightarrow> nat option \<Rightarrow> string option \<Rightarrow> string list \<Rightarrow> string list" where
  "broker_command program port pid n retention config nodes =
     [program, ''--port'', show_nat port, ''--partition'', show_nat pid, ''--total-partitions'', show_nat n] @
     (case retention of Some s \<Rightarrow> [''--retention-seconds'', show_nat s] | None \<Rightarrow> []) @
     (case config of Some path \<Rightarrow> [''--cluster-config'', path] | None \<Rightarrow> []) @
     (if nodes = [] then [] else [''--bootstrap'', join_on CHR '','' nodes])"

text \<open>
  Property C19: the broker program reads its command line back. Port, partition, number of partitions,
  retention, configuration file and bootstrap nodes are those that were written, as far as they fit
  the 16, 32 and 64 bits of their types. A number that does not fit is no error: the broker starts on
  port 50051, for partition 0, with one partition in all, or without a retention policy of its own.
\<close>

theorem broker_args_roundtrip:
  assumes "take 1 program \<noteq> ''-''" and "\<forall>path. config = Some path \<longrightarrow> take 1 path \<noteq> ''-''"
    and "\<forall>x \<in> set nodes. CHR '','' \<notin> set x"
  shows "read_args (broker_command program port pid n retention config nodes) =
     \<lparr>ba_port = (if port < 2 ^ 16 then port else 50051), ba_partition_id = (if pid < 2 ^ 32 then pid else 0),
      ba_total_partitions = (if n < 2 ^ 32 then n else 1),
      ba_retention_policy = (case retention of
         Some s \<Rightarrow> if s < 2 ^ 64 then Some \<lparr>rp_max_age = secs s, rp_max_bytes = 1024 * 1024 * 1024\<rparr> else None
       | None \<Rightarrow> None),
      ba_cluster_config_path = config, ba_bootstrap_nodes = nodes\<rparr>"
proof -
  let ?args = "broker_command program port pid n retention config nodes"
  note flags = name_no_flag [OF assms(1)] broker_command_def uint_arg_def
  have num: "uint_arg 16 ''--port'' ?args = (if port < 2 ^ 16 then Some port else None)"
      "uint_arg 32 ''--partition'' ?args = (if pid < 2 ^ 32 then Some pid else None)"
      "uint_arg 32 ''--total-partitions'' ?args = (if n < 2 ^ 32 then Some n else None)"
    by (simp_all add: flags parse_uint_show)
  have ret: "uint_arg 64 ''--retention-seconds'' ?args = Option.bind retention (\<lambda>s. if s < 2 ^ 64 then Some s else None)"
    using assms(2) name_no_flag by (cases retention; cases config; cases nodes) (auto simp: flags parse_uint_show)
  have cfg: "arg_after ''--cluster-config'' ?args = config"
    using assms(2) name_no_flag by (cases retention; cases config; cases nodes) (auto simp: flags)
  have boot: "arg_after ''--bootstrap'' ?args = (if nodes = [] then None else Some (join_on CHR '','' nodes))"
    using assms(2) name_no_flag by (cases retention; cases config; cases nodes) (auto simp: flags)
  show ?thesis using split_join [OF _ assms(3)]
    by (simp add: read_args_def num ret cfg boot unwrap_or_def split: option.splits)
qed

theorem broker_args_roundtrip_witness:
  "ba_port (read_args (broker_command ''rafka'' 65536 2 3 (Some 60) None [''a:1'', ''b:2''])) = 50051
   \<and> ba_bootstrap_nodes (read_args (broker_command ''rafka'' 65536 2 3 (Some 60) None [''a:1'', ''b:2''])) = [''a:1'', ''b:2'']"
  using broker_args_roundtrip [of "''rafka''" None "[''a:1'', ''b:2'']" 65536 2 3 "Some 60"] by simp

text \<open>
  Property C20: a started broker owns keys exactly if its partition number is below the number of
  partitions. The program does not check this; if it is not so, no key belongs to the broker, and no
  call of \<open>publish\<close> stores, queues or delivers anything there.
\<close>

theorem started_broker_owns_keys:
  assumes "start_broker nv clock mclock config args = Ret b" and "background_ok nv"
  shows "((\<exists>key. target_partition key b = Ret (bk_partition_id b)) \<longleftrightarrow>
       ba_partition_id (read_args args) < ba_total_partitions (read_args args))
     \<and> (ba_total_partitions (read_args args) \<le> ba_partition_id (read_args args) \<longrightarrow>
       message_path (snd (publish nv req b)) = message_path b)"
proof -
  note ids = start_broker_ids [OF assms(1)]
  let ?p = "ba_partition_id (read_args args)" and ?n = "ba_total_partitions (read_args args)"
  have bound: "?p < 2 ^ 32"
    using uint_arg_bound [of 32 _ args] by (auto simp: read_args_def unwrap_or_def split: option.splits)
  have less: "target_partition key b = Ret p \<Longrightarrow> p < ?n" for key p
    using ids by (auto simp: target_partition_def split: if_splits)
  have "target_partition (replicate ?p (CHR 0x01)) b = Ret ?p" if "?p < ?n"
    using that bound ids key_of_sum by (simp add: target_partition_def)
  with less have owns: "(\<exists>key. target_partition key b = Ret (bk_partition_id b)) \<longleftrightarrow> ?p < ?n" using ids by metis
  have "message_path (snd (publish nv req b)) = message_path b" if "?n \<le> ?p"
  proof -
    have other: "target_partition (pr_key req) b = Ret p \<Longrightarrow> p \<noteq> bk_partition_id b" for p
      using that less ids(1) by fastforce
    obtain r b' where "publish nv req b = (r, b')" by fastforce
    then show ?thesis
      using path_forwarding [OF assms(2)] other by (auto simp: publish_def split: outcome.splits)
  qed
  with owns show ?thesis by blast
qed

theorem started_broker_owns_keys_witness:
  "\<exists>b. start_broker example_net (\<lambda>_. 5) (\<lambda>_ _. (5, 5)) (\<lambda>_. None) [''rafka'', ''--partition'', ''3'', ''--total-partitions'', ''3''] = Ret b
     \<and> \<not> (\<exists>key. target_partition key b = Ret (bk_partition_id b))
     \<and> message_path (snd (publish example_net (example_request ''a'') b)) = message_path b"
proof -
  let ?args = "[''rafka'', ''--partition'', ''3'', ''--total-partitions'', ''3'']"
  have args: "read_args ?args = \<lparr>ba_port = 50051, ba_partition_id = 3, ba_total_partitions = 3, ba_retention_policy = None,
      ba_cluster_config_path = None, ba_bootstrap_nodes = []\<rparr>"
    by (simp add: read_args_def uint_arg_def parse_uint_def digits_value_def is_digit_def unwrap_or_def)
  obtain b where b: "start_broker example_net (\<lambda>_. 5) (\<lambda>_ _. (5, 5)) (\<lambda>_. None) ?args = Ret b"
    by (simp add: start_broker_def args initialize_p2p_mesh_def join_bootstrap_def bootstrap_calls_def bootstrap_replies_def
        join_cluster_def ms_new_def ni_new_def tp_new_def ms_start_def add_node_def touch_def put_node_def new_with_cluster_def example_net_def
        example_env_def mesh_free_def Let_def)
  have "background_ok example_net" by (simp add: background_ok_def example_net_def)
  from started_broker_owns_keys [OF b this] show ?thesis using b by (auto simp: args)
qed

end
