(* ===== verification/Zero_Copy_Race.thy ===== *)
theory Zero_Copy_Race
  imports Zero_Copy
begin

text \<open>
  Two calls of \<open>ZeroCopyProcessor::process_batch\<close> (\<^verbatim>\<open>crates/core/src/zero_copy.rs\<close>) at the same time.
  The broker shares one processor between its publish handlers and the background flusher, and
  \<open>process_batch\<close> takes the lock of a buffer anew for every access. Each access is one atomic step
  here; a schedule says which call makes the next step.
\<close>

section \<open>A call as a sequence of steps\<close>

datatype zc_step = ClearInput | AppendInput "byte list" | ClearOutput | AppendOutput "byte list" | ReadOutput

definition frame_steps :: "byte list \<Rightarrow> zc_step list" where
  "frame_steps m = [AppendOutput (to_be 4 (wrap_u 32 (int (length m)))), AppendOutput m]"

definition call_steps :: "byte list list \<Rightarrow> zc_step list" where
  "call_steps ms = ClearInput # map AppendInput ms @ ClearOutput # concat (map frame_steps ms) @ [ReadOutput]"

text \<open>The steps that are left, and the result once there is one.\<close>

record zc_call =
  zl_todo :: "zc_step list"
  zl_result :: "(zc_error + byte list) option"

definition zl_start :: "zc_processor \<Rightarrow> byte list list \<Rightarrow> zc_call" where
  "zl_start p ms =
     (if length ms > zp_batch_size p then \<lparr>zl_todo = [], zl_result = Some (Inl BatchSizeExceeded)\<rparr>
      else \<lparr>zl_todo = call_steps ms, zl_result = None\<rparr>)"

text \<open>A step gives the result of the call if it is the last one: the \<open>?\<close> ends the call on an error.\<close>

fun do_step :: "zc_step \<Rightarrow> zc_processor \<Rightarrow> (zc_error + byte list) option \<times> zc_processor" where
  "do_step ClearInput p = (None, p\<lparr>zp_input := zc_clear (zp_input p)\<rparr>)"
| "do_step (AppendInput m) p =
     (case zc_append (zp_input p) m of
        (Inl e, b) \<Rightarrow> (Some (Inl e), p\<lparr>zp_input := b\<rparr>)
      | (Inr _, b) \<Rightarrow> (None, p\<lparr>zp_input := b\<rparr>))"
| "do_step ClearOutput p = (None, p\<lparr>zp_output := zc_clear (zp_output p)\<rparr>)"
| "do_step (AppendOutput m) p =
     (case zc_append (zp_output p) m of
        (Inl e, b) \<Rightarrow> (Some (Inl e), p\<lparr>zp_output := b\<rparr>)
      | (Inr _, b) \<Rightarrow> (None, p\<lparr>zp_output := b\<rparr>))"
| "do_step ReadOutput p = (Some (Inr (zc_get_bytes (zp_output p))), p)"

definition advance :: "zc_call \<Rightarrow> zc_processor \<Rightarrow> zc_call \<times> zc_processor" where
  "advance c p =
     (case zl_todo c of
        [] \<Rightarrow> (c, p)
      | s # ss \<Rightarrow>
          (case do_step s p of
             (Some r, p') \<Rightarrow> (\<lparr>zl_todo = [], zl_result = Some r\<rparr>, p')
           | (None, p') \<Rightarrow> (\<lparr>zl_todo = ss, zl_result = None\<rparr>, p')))"

text \<open>\<open>True\<close> lets the first call make a step, \<open>False\<close> the second.\<close>

fun race :: "bool list \<Rightarrow> zc_call \<Rightarrow> zc_call \<Rightarrow> zc_processor \<Rightarrow> zc_call \<times> zc_call \<times> zc_processor" where
  "race [] c d p = (c, d, p)"
| "race (True # sch) c d p = (case advance c p of (c', p') \<Rightarrow> race sch c' d p')"
| "race (False # sch) c d p = (case advance d p of (d', p') \<Rightarrow> race sch c d' p')"

section \<open>A call on its own\<close>

fun run_call :: "zc_step list \<Rightarrow> zc_processor \<Rightarrow> zc_call \<times> zc_processor" where
  "run_call [] p = (\<lparr>zl_todo = [], zl_result = None\<rparr>, p)"
| "run_call (s # ss) p =
     (case do_step s p of
        (Some r, p') \<Rightarrow> (\<lparr>zl_todo = [], zl_result = Some r\<rparr>, p')
      | (None, p') \<Rightarrow> run_call ss p')"

lemma race_append: "race (s1 @ s2) c d p = (case race s1 c d p of (c', d', p') \<Rightarrow> race s2 c' d' p')"
  by (induction s1 c d p rule: race.induct) (auto split: prod.splits)

lemma advance_finished [simp]: "advance \<lparr>zl_todo = [], zl_result = r\<rparr> p = (\<lparr>zl_todo = [], zl_result = r\<rparr>, p)"
  by (simp add: advance_def)

lemma race_finished [simp]:
  "race (replicate n True) \<lparr>zl_todo = [], zl_result = r\<rparr> d p = (\<lparr>zl_todo = [], zl_result = r\<rparr>, d, p)"
  "race (replicate n False) c \<lparr>zl_todo = [], zl_result = r\<rparr> p = (c, \<lparr>zl_todo = [], zl_result = r\<rparr>, p)"
  by (induction n) simp_all

text \<open>A call that runs without interruption does its steps in order, whatever the other call has done.\<close>

lemma race_alone:
  assumes "length ss \<le> n"
  shows "race (replicate n True) \<lparr>zl_todo = ss, zl_result = None\<rparr> d p = (case run_call ss p of (c, p') \<Rightarrow> (c, d, p'))"
    and "race (replicate n False) d \<lparr>zl_todo = ss, zl_result = None\<rparr> p = (case run_call ss p of (c, p') \<Rightarrow> (d, c, p'))"
  using assms
proof (induction ss arbitrary: n p)
  case (Cons s ss)
  {
    case 1
    then obtain m where "n = Suc m" "length ss \<le> m" by (cases n) auto
    then show ?case using Cons.IH(1) by (auto simp: advance_def split: prod.splits option.splits)
  next
    case 2
    then obtain m where "n = Suc m" "length ss \<le> m" by (cases n) auto
    then show ?case using Cons.IH(2) by (auto simp: advance_def split: prod.splits option.splits)
  }
qed simp_all

lemma run_input:
  "run_call (map AppendInput ms @ ss) p =
   (case zc_append_all (zp_input p) ms of
      (Inl e, b) \<Rightarrow> (\<lparr>zl_todo = [], zl_result = Some (Inl e)\<rparr>, p\<lparr>zp_input := b\<rparr>)
    | (Inr _, b) \<Rightarrow> run_call ss (p\<lparr>zp_input := b\<rparr>))"
  by (induction ms arbitrary: p) (auto split: prod.splits sum.splits)

lemma run_output:
  "run_call (concat (map frame_steps ms) @ ss) p =
   (case zc_frame_all (zp_output p) ms of
      (Inl e, b) \<Rightarrow> (\<lparr>zl_todo = [], zl_result = Some (Inl e)\<rparr>, p\<lparr>zp_output := b\<rparr>)
    | (Inr _, b) \<Rightarrow> run_call ss (p\<lparr>zp_output := b\<rparr>))"
  by (induction ms arbitrary: p) (auto simp: frame_steps_def split: prod.splits sum.splits)

lemma run_call_steps:
  "length ms \<le> zp_batch_size p \<Longrightarrow>
   run_call (call_steps ms) p =
     (\<lparr>zl_todo = [], zl_result = Some (fst (process_batch p ms))\<rparr>, snd (process_batch p ms))"
  by (auto simp: call_steps_def process_batch_def run_input run_output split: prod.splits sum.splits)

section \<open>Properties\<close>

text \<open>
  A call that is not interrupted is atomic. Its steps, with any number of idle steps
  after the last one, give the result and the buffers of \<open>process_batch\<close>, and leave a call that
  has not gone on alone.
\<close>

lemma uninterrupted_call:
  assumes "length (call_steps ms) \<le> n"
  shows "race (replicate n True) (zl_start p ms) d p =
     (\<lparr>zl_todo = [], zl_result = Some (fst (process_batch p ms))\<rparr>, d, snd (process_batch p ms))"
proof (cases "length ms \<le> zp_batch_size p")
  case True
  then show ?thesis using race_alone(1) [OF assms] run_call_steps [OF True] by (simp add: zl_start_def)
qed (simp add: zl_start_def process_batch_def)

lemma uninterrupted_call_example:
  "race (replicate 6 True) (zl_start (zp_new 1000) [[7]]) (zl_start (zp_new 1000) [[8]]) (zp_new 1000) =
     (\<lparr>zl_todo = [], zl_result = Some (fst (process_batch (zp_new 1000) [[7]]))\<rparr>, zl_start (zp_new 1000) [[8]],
      snd (process_batch (zp_new 1000) [[7]]))"
  by (rule uninterrupted_call) (simp add: call_steps_def frame_steps_def)

lemma process_batch_frames:
  assumes "zc_max_size (zp_input p) = 1024 * 1024" and "zc_max_size (zp_output p) = 1024 * 1024"
    and "length ms \<le> zp_batch_size p" and "total_bytes ms + 4 * length ms \<le> 1024 * 1024"
    and "process_batch p ms = (r, p')"
  shows "r = Inr (concat (map (frame (to_be 4)) ms))" and "zc_get_bytes (zp_output p') = concat (map (frame (to_be 4)) ms)"
    and "parse_batch (concat (map (frame (to_be 4)) ms)) = Inr ms"
proof -
  let ?in = "zc_clear (zp_input p)" and ?out = "zc_clear (zp_output p)"
  have a: "fst (zc_append_all ?in ms) = Inr ()"
    using assms by (simp add: zc_append_all_eq zc_clear_def zc_wf_def)
  have f: "zc_frame_all ?out ms = (Inr (), ?out\<lparr>zc_bytes := concat (map (frame (to_be 4)) ms)\<rparr>)"
    using zc_frame_all_ok [of ?out ms] assms by (simp add: zc_clear_def)
  show "r = Inr (concat (map (frame (to_be 4)) ms))" "zc_get_bytes (zp_output p') = concat (map (frame (to_be 4)) ms)"
    using assms(3,5) a f by (auto simp: process_batch_def zc_get_bytes_def split: prod.splits)
  have "length m \<le> total_bytes ms" if "m \<in> set ms" for m using that by (simp add: member_le_sum_list)
  then have "\<forall>m \<in> set ms. length m < 2 ^ 32" using assms(4) by fastforce
  then show "parse_batch (concat (map (frame (to_be 4)) ms)) = Inr ms"
    using parse_loop_frames [of ms "[]" "[]"] by (simp add: parse_batch_def)
qed

text \<open>The steps up to the last one do not end the call if the batch fits.\<close>

lemma race_prefix:
  assumes "run_call pre p = (\<lparr>zl_todo = [], zl_result = None\<rparr>, p1)"
  shows "race (replicate (length pre) True) \<lparr>zl_todo = pre @ ss, zl_result = None\<rparr> d p = (\<lparr>zl_todo = ss, zl_result = None\<rparr>, d, p1)"
  using assms by (induction pre arbitrary: p) (auto simp: advance_def split: prod.splits option.splits)

lemma run_before_read:
  assumes "zc_max_size (zp_input p) = 1024 * 1024" and "zc_max_size (zp_output p) = 1024 * 1024"
    and "total_bytes ms + 4 * length ms \<le> 1024 * 1024"
  obtains p1 where "run_call (butlast (call_steps ms)) p = (\<lparr>zl_todo = [], zl_result = None\<rparr>, p1)"
    and "zc_max_size (zp_input p1) = 1024 * 1024" and "zc_max_size (zp_output p1) = 1024 * 1024"
    and "zp_batch_size p1 = zp_batch_size p"
proof -
  let ?in = "zc_clear (zp_input p)" and ?out = "zc_clear (zp_output p)"
  obtain b where a: "zc_append_all ?in ms = (Inr (), b)"
    using zc_append_all_eq [of ?in ms] assms by (cases "zc_append_all ?in ms") (auto simp: zc_clear_def zc_wf_def)
  have m: "zc_max_size b = 1024 * 1024" using zc_append_all_max [OF a] assms(1) by (simp add: zc_clear_def)
  have f: "zc_frame_all ?out ms = (Inr (), ?out\<lparr>zc_bytes := concat (map (frame (to_be 4)) ms)\<rparr>)"
    using zc_frame_all_ok [of ?out ms] assms by (simp add: zc_clear_def)
  have "butlast (call_steps ms) = ClearInput # map AppendInput ms @ ClearOutput # concat (map frame_steps ms) @ []"
    by (simp add: call_steps_def butlast_append)
  then have "run_call (butlast (call_steps ms)) p = (\<lparr>zl_todo = [], zl_result = None\<rparr>,
      p\<lparr>zp_input := b, zp_output := ?out\<lparr>zc_bytes := concat (map (frame (to_be 4)) ms)\<rparr>\<rparr>)"
    using a f run_output [of ms "[]"] by (simp add: run_input del: append_Nil2)
  then show ?thesis by (rule that) (use m assms(2) in \<open>simp_all add: zc_clear_def\<close>)
qed

text \<open>
  Property C16: concurrent batches get mixed up. For any two batches within the limits there is an
  order of the steps of two calls in which both calls return the frames of the second batch: the
  first caller gets the messages of the other one as its own result, without an error, and its own
  messages are lost. The calls do not exclude each other, so the processor must not be shared.
\<close>

theorem concurrent_batches_mix:
  assumes "zc_max_size (zp_input p) = 1024 * 1024" and "zc_max_size (zp_output p) = 1024 * 1024"
    and "length ms1 \<le> zp_batch_size p" and "total_bytes ms1 + 4 * length ms1 \<le> 1024 * 1024"
    and "length ms2 \<le> zp_batch_size p" and "total_bytes ms2 + 4 * length ms2 \<le> 1024 * 1024"
  shows "\<exists>sch out p'. race sch (zl_start p ms1) (zl_start p ms2) p =
       (\<lparr>zl_todo = [], zl_result = Some (Inr out)\<rparr>, \<lparr>zl_todo = [], zl_result = Some (Inr out)\<rparr>, p')
     \<and> parse_batch out = Inr ms2
     \<and> count_list sch True = length (call_steps ms1) \<and> count_list sch False = length (call_steps ms2)"
proof -
  let ?pre = "butlast (call_steps ms1)" and ?n = "length (call_steps ms2)"
  obtain p1 where p1: "run_call ?pre p = (\<lparr>zl_todo = [], zl_result = None\<rparr>, p1)"
    "zc_max_size (zp_input p1) = 1024 * 1024" "zc_max_size (zp_output p1) = 1024 * 1024"
    "zp_batch_size p1 = zp_batch_size p"
    using run_before_read [OF assms(1,2,4)] .
  obtain r p2 where b2: "process_batch p1 ms2 = (r, p2)" by fastforce
  note fr = process_batch_frames [OF p1(2,3) assms(5) [folded p1(4)] assms(6) b2]
  let ?out = "concat (map (frame (to_be 4)) ms2)"
  let ?c = "\<lparr>zl_todo = [ReadOutput], zl_result = None\<rparr>" and ?done = "\<lparr>zl_todo = [], zl_result = Some (Inr ?out)\<rparr>"
  have steps: "call_steps ms1 = ?pre @ [ReadOutput]" by (simp add: call_steps_def butlast_append)
  have s1: "zl_start p ms1 = \<lparr>zl_todo = ?pre @ [ReadOutput], zl_result = None\<rparr>"
    unfolding steps [symmetric] using assms(3) by (simp add: zl_start_def)
  have s2: "zl_start p ms2 = \<lparr>zl_todo = call_steps ms2, zl_result = None\<rparr>" using assms(5) by (simp add: zl_start_def)
  have "race (replicate ?n False) ?c (zl_start p ms2) p1 = (?c, ?done, p2)"
    using race_alone(2) [of "call_steps ms2" ?n ?c p1] run_call_steps [of ms2 p1] assms(5) p1(4) b2 fr(1) by (simp add: s2)
  moreover have "race [True] ?c ?done p2 = (?done, ?done, p2)" using fr(2) by (simp add: advance_def)
  ultimately have "race (replicate (length ?pre) True @ replicate ?n False @ [True]) (zl_start p ms1) (zl_start p ms2) p =
      (?done, ?done, p2)"
    using race_prefix [OF p1(1), of "[ReadOutput]" "zl_start p ms2"] by (simp only: race_append s1 split_conv)
  moreover have "count_list (replicate k x) y = (if x = y then k else 0)" for k and x y :: bool by (induction k) auto
  then have "count_list (replicate (length ?pre) True @ replicate ?n False @ [True]) True = length (call_steps ms1)"
    "count_list (replicate (length ?pre) True @ replicate ?n False @ [True]) False = ?n"
    using steps by (simp_all add: call_steps_def)
  ultimately show ?thesis using fr(3) by blast
qed

theorem concurrent_batches_mix_witness:
  "\<exists>sch out p'. race sch (zl_start (zp_new 1000) [[1, 2], [3]]) (zl_start (zp_new 1000) [[9]]) (zp_new 1000) =
       (\<lparr>zl_todo = [], zl_result = Some (Inr out)\<rparr>, \<lparr>zl_todo = [], zl_result = Some (Inr out)\<rparr>, p')
     \<and> parse_batch out = Inr [[9]]"
  using concurrent_batches_mix [of "zp_new 1000" "[[1, 2], [3]]" "[[9]]"] by (auto simp: zp_new_def zc_new_def)

end
