(* ===== verification/Broker_Stall.thy ===== *)
theory Broker_Stall
  imports Broker_System Zero_Copy_Race
begin

text \<open>
  How long a broker answers. The publish handler, the batcher and the background flusher
  (\<^verbatim>\<open>crates/broker/src/broker.rs\<close>, \<^verbatim>\<open>crates/broker/src/batching.rs\<close>) under clients that publish to
  the partition of the broker, each one call after the other: a full or old batch makes the task that takes it wait
  for ever, so the flusher can take one batch, and every client one. The messages are small enough for a batch to
  fit its frame buffer; a batch that does not fit is dropped (\<open>Broker.batch_keeps_only_first\<close>), and its
  messages stay acknowledged.
\<close>

section \<open>Clients and the flusher\<close>

text \<open>
  Every client publishes one message after the other until a call is not answered with success; the calls of
  the clients fall in any order. Flusher rounds come in between, until one does not return. Counted are the
  successful answers; \<open>cs\<close> are the clients that still call.
\<close>

datatype client_event = CPublish nat publish_request | CFlush

fun clients_run :: "net_env \<Rightarrow> client_event list \<Rightarrow> nat list \<Rightarrow> bool \<Rightarrow> broker \<Rightarrow> nat" where
  "clients_run nv [] cs alive b = 0"
| "clients_run nv (CPublish i req # es) cs alive b =
     (if i \<in> set cs then
        (case publish nv req b of
           (Ret (Inr _), b') \<Rightarrow> Suc (clients_run nv es cs alive b')
         | (_, b') \<Rightarrow> clients_run nv es (removeAll i cs) alive b')
      else clients_run nv es cs alive b)"
| "clients_run nv (CFlush # es) cs alive b =
     (if alive then (case flusher_round (nv_env nv) b of (r, b') \<Rightarrow> clients_run nv es cs (r = Ret ()) b')
      else clients_run nv es cs alive b)"

text \<open>One client.\<close>

datatype load_event = LPublish publish_request | LFlush

fun load_run :: "net_env \<Rightarrow> load_event list \<Rightarrow> bool \<Rightarrow> broker \<Rightarrow> nat" where
  "load_run nv [] alive b = 0"
| "load_run nv (LPublish req # es) alive b =
     (case publish nv req b of
        (Ret (Inr _), b') \<Rightarrow> Suc (load_run nv es alive b')
      | _ \<Rightarrow> 0)"
| "load_run nv (LFlush # es) alive b =
     (if alive then (case flusher_round (nv_env nv) b of (r, b') \<Rightarrow> load_run nv es (r = Ret ()) b')
      else load_run nv es alive b)"

section \<open>A batch that is taken is not finished\<close>

definition small :: "publish_request \<Rightarrow> bool" where
  "small req \<longleftrightarrow> length (pr_payload req) \<le> 10000"

lemma small_batch_fits:
  assumes "list_all small ms" and "length ms \<le> 100"
  shows "total_bytes (map (\<lambda>req. string_bytes (pr_payload req)) ms) + 4 * length ms \<le> 1024 * 1024"
proof -
  have "sum_list (map (\<lambda>req. length (pr_payload req)) ms) \<le> 10000 * length ms"
    using assms(1) by (induction ms) (auto simp: small_def)
  then show ?thesis using assms(2) by (simp add: string_bytes_def comp_def)
qed

definition default_limits :: "broker \<Rightarrow> bool" where
  "default_limits b \<longleftrightarrow> zp_limits (bk_zero_copy b) = (1024 * 1024, 1024 * 1024, 1000)"

lemma frame_batch_small:
  assumes "mb_get_messages batch = req # rest" and "list_all small (req # rest)" and "length (req # rest) \<le> 100"
    and "default_limits b"
  obtains framed b1 where "frame_batch batch b = ([(req, framed)], b1)"
proof -
  let ?ms = "map (\<lambda>q. string_bytes (pr_payload q)) (req # rest)"
  obtain r zp where p: "process_batch (bk_zero_copy b) ?ms = (r, zp)" by fastforce
  have "total_bytes ?ms + 4 * length ?ms \<le> 1024 * 1024" using small_batch_fits [OF assms(2,3)] by simp
  moreover have "length ?ms \<le> zp_batch_size (bk_zero_copy b)" "zc_max_size (zp_input (bk_zero_copy b)) = 1024 * 1024"
      "zc_max_size (zp_output (bk_zero_copy b)) = 1024 * 1024"
    using assms(3,4) by (simp_all add: default_limits_def zp_limits_def)
  ultimately have "r = Inr (concat (map (frame (to_be 4)) ?ms))"
    using process_batch_frames(1) [OF _ _ _ _ p] by blast
  then show ?thesis using that p assms(1) by (simp add: frame_batch_def result_iter_def)
qed

lemma deliver_no_return:
  assumes "deliver ev c (req, framed) b = (r, b')" and "silent b" and "exclusive_lock (ev_grant ev)"
    and "hm_contains (bk_topics b) (pr_topic req)"
  shows "r \<noteq> Ret ()"
proof -
  have q: "get_queue (bk_storage b) (pr_topic req) (partition_i32 b) \<noteq> None"
    using assms(2,4) by (simp add: silent_def topics_stored_def)
  have "a \<noteq> Ret x" if "appended ev (pr_topic req) (partition_i32 b) payload (bk_storage b) a s" for a x s payload
    using that st_append_no_return [OF assms(3) q] unfolding appended_def by blast
  then show ?thesis using deliver_effect [OF assms(1)] by (fastforce split: outcome.splits)
qed

lemma batch_no_return:
  assumes "silent b" and "exclusive_lock (ev_grant ev)" and "default_limits b"
    and "mb_get_messages batch = req # rest" and "list_all small (req # rest)" and "length (req # rest) \<le> 100"
    and "hm_contains (bk_topics b) (pr_topic req)"
    and "bk_process_batch ev batch b = (r, b') \<or> flush_batch ev batch b = (r, b')"
  shows "r \<noteq> Ret ()"
proof -
  obtain framed b1 where f: "frame_batch batch b = ([(req, framed)], b1)"
    using frame_batch_small [OF assms(4-6,3)] .
  obtain c b2 where c: "ensure_channel ev (bk_partition_id b1) b1 = (c, b2)" by fastforce
  obtain c' b3 where c': "flusher_channel b1 = (c', b3)" by fastforce
  have p: "message_path b2 = message_path b" "message_path b3 = message_path b"
    using path_frame_batch [OF f] path_ensure_channel [OF c] path_flusher_channel [OF c'] by simp_all
  have s: "silent b2" "silent b3" using silent_path [OF p(1)] silent_path [OF p(2)] assms(1) by simp_all
  have t: "hm_contains (bk_topics b2) (pr_topic req)" "hm_contains (bk_topics b3) (pr_topic req)"
    using p assms(7) by (simp_all add: message_path_def)
  obtain r2 b2' where d: "deliver ev c (req, framed) b2 = (r2, b2')" by fastforce
  obtain r3 b3' where d': "deliver ev c' (req, framed) b3 = (r3, b3')" by fastforce
  have "r2 \<noteq> Ret ()" "r3 \<noteq> Ret ()"
    using deliver_no_return [OF d s(1) assms(2) t(1)] deliver_no_return [OF d' s(2) assms(2) t(2)] by simp_all
  from assms(8) show ?thesis
  proof
    assume "bk_process_batch ev batch b = (r, b')"
    then have "run_ops [deliver ev c (req, framed)] b2 = (r, b')" using assms(4) f c by (simp add: bk_process_batch_def)
    then show ?thesis using d \<open>r2 \<noteq> Ret ()\<close> by (cases r2) auto
  next
    assume "flush_batch ev batch b = (r, b')"
    then have "run_ops [deliver ev c' (req, framed)] b3 = (r, b')" using assms(4) f c' by (simp add: flush_batch_def)
    then show ?thesis using d' \<open>r3 \<noteq> Ret ()\<close> by (cases r3) auto
  qed
qed

section \<open>The batcher of a broker that still answers\<close>

text \<open>
  The state of a broker whose calls have all been answered: one batch at most, not yet full, of small
  messages for known topics.
\<close>

definition answering :: "broker \<Rightarrow> bool" where
  "answering b \<longleftrightarrow> silent b \<and> default_limits b \<and> bp_wf (bk_batcher b) \<and> bp_batch_size (bk_batcher b) = 100
     \<and> list_all small (bp_contents (bk_batcher b)) \<and> length (bp_contents (bk_batcher b)) < 100"

abbreviation queued :: "broker \<Rightarrow> nat" where
  "queued b \<equiv> length (bp_contents (bk_batcher b))"

lemma nothing_ready:
  assumes "bp_wf p" and "bp_get_ready_batches clock p = ([], p')"
  shows "p' = p" and "length (bp_contents p) < bp_batch_size p"
proof -
  have r: "ready_loop clock 0 (bp_batches p) = ([], bp_batches p')" "p' = p\<lparr>bp_batches := bp_batches p'\<rparr>"
    using assms(2) by (auto simp: bp_get_ready_batches_def split: prod.splits)
  have "p' = p \<and> length (bp_contents p) < bp_batch_size p"
  proof (cases "bp_batches p")
    case Nil
    then show ?thesis using assms(1) r by (cases p; cases p') (auto simp: bp_contents_def bp_wf_def)
  next
    case (Cons b bs)
    have "\<not> mb_is_ready (clock 0) b"
      using r(1) assms(1) Cons by (auto simp: bp_wf_def mb_wf_def mb_is_empty_def split: if_splits prod.splits)
    moreover have "mb_wf (bp_batch_size p) (bp_max_wait_time p) b" using assms(1) Cons by (simp add: bp_wf_def)
    ultimately have nf: "length (mb_messages b) < bp_batch_size p" and rest: "bp_batches p' = b # bs"
      using r(1) Cons by (simp_all add: mb_is_ready_def mb_wf_def)
    then have "bs = []" using assms(1) Cons by (cases bs) (auto simp: bp_wf_def)
    then show ?thesis using r(2) rest nf Cons by (cases p) (auto simp: bp_contents_def)
  qed
  then show "p' = p" "length (bp_contents p) < bp_batch_size p" by simp_all
qed

lemma ready_batch:
  assumes "bp_wf p" and "bp_batch_size p = 100" and "list_all small (bp_contents p)"
    and "bp_get_ready_batches clock p = (batch # others, p')"
  obtains req rest where "mb_get_messages batch = req # rest" and "list_all small (req # rest)"
    and "length (req # rest) \<le> 100"
proof -
  have "batch \<in> set (bp_batches p)"
    using assms(4) ready_loop_subset by (fastforce simp: bp_get_ready_batches_def split: prod.splits)
  then have "mb_wf 100 (bp_max_wait_time p) batch" "set (mb_messages batch) \<subseteq> set (bp_contents p)"
    using assms(1,2) by (auto simp: bp_wf_def list_all_iff bp_contents_def)
  then show ?thesis using assms(3) that by (cases "mb_messages batch") (auto simp: mb_wf_def mb_get_messages_def list_all_iff)
qed

lemma first_op_stops:
  assumes "run_ops (f # fs) s = (r, s')" and "f s = (r1, s1)" and "r1 \<noteq> Ret ()"
  shows "r = r1" and "s' = s1"
  using assms by (cases r1; simp)+

lemma one_batch:
  assumes "bp_wf p" and "length (bp_contents p) \<le> bp_batch_size p" and "bp_get_ready_batches clock p = (batch # others, p')"
  shows "bp_contents p' = []" and "bp_wf p'" and "bp_batch_size p' = bp_batch_size p"
proof -
  have "bp_drain clock p = (concat (map mb_get_messages (batch # others)), p')" using assms(3) by (simp add: bp_drain_def)
  then show "bp_wf p'" by (rule bp_drain_wf [OF assms(1)])
  have r: "ready_loop clock 0 (bp_batches p) = (batch # others, bp_batches p')" and "p' = p\<lparr>bp_batches := bp_batches p'\<rparr>"
    using assms(3) by (auto simp: bp_get_ready_batches_def split: prod.splits)
  then show "bp_batch_size p' = bp_batch_size p" by (metis batched_processor.select_convs(2) batched_processor.surjective
        batched_processor.update_convs(1))
  obtain b bs where b: "bp_batches p = b # bs" using r by (cases "bp_batches p") auto
  have "bs = []" using assms(1,2) b by (cases bs) (auto simp: bp_wf_def bp_contents_def mb_wf_def)
  then show "bp_contents p' = []" using r b by (auto simp: bp_contents_def split: if_splits prod.splits)
qed

lemma ensure_topic_limits:
  "ensure_topic ev topic b = (r, b') \<Longrightarrow> bk_zero_copy b' = bk_zero_copy b \<and> bk_total_partitions b' = bk_total_partitions b"
  by (auto simp: ensure_topic_def topic_section_def Let_def split: if_splits prod.splits outcome.splits)

lemma publish_load:
  assumes "answering b" and "small req" and "target_partition (pr_key req) b = Ret (bk_partition_id b)"
    and "exclusive_lock (ev_grant (nv_env nv))" and "logs_recover (nv_env nv)"
    and "publish nv req b = (r, b')"
  shows "answering b' \<and> bk_partition_id b' = bk_partition_id b \<and> bk_total_partitions b' = bk_total_partitions b
     \<and> (\<forall>resp. r = Ret (Inr resp) \<longrightarrow> queued b' = Suc (queued b))"
proof -
  let ?ev = "nv_env nv"
  have silent: "silent b" using assms(1) by (simp add: answering_def)
  obtain r1 b1 where e: "ensure_topic ?ev (pr_topic req) b = (r1, b1)" by fastforce
  note en = ensure_topic_silent [OF e silent assms(5)] and lim = ensure_topic_limits [OF e]
  let ?p = "bp_add (ev_instant ?ev (bk_draws b1)) req (bk_batcher b1)"
  let ?b2 = "tick (b1\<lparr>bk_batcher := ?p\<rparr>)"
  have add: "bp_add_message (ev_instant ?ev (bk_draws b1)) req (bk_batcher b1) = (Inr (), ?p)"
    by (auto simp: bp_add_def bp_add_message_def split: prod.splits bool.splits)
  have wf: "bp_wf (bk_batcher b1)" "bp_batch_size ?p = 100"
    using en assms(1) by (auto simp: answering_def bp_add_def bp_add_message_def bp_push_new_def split: prod.splits bool.splits)
  have p: "bp_wf ?p" "bp_contents ?p = bp_contents (bk_batcher b) @ [req]" "list_all small (bp_contents ?p)"
    using bp_add_wf [OF wf(1)] bp_add_contents [OF wf(1)] en assms(1,2) by (simp_all add: answering_def)
  have b2: "silent ?b2"
    using en p(2) silent_path [of ?b2 "b1\<lparr>bk_batcher := ?p\<rparr>"] by (auto simp: silent_def topics_stored_def partition_i32_def)
  obtain ready p' where g: "bp_get_ready_batches (\<lambda>i. ev_instant ?ev (Suc (bk_draws b1) + i)) ?p = (ready, p')" by fastforce
  let ?b3 = "?b2\<lparr>bk_batcher := p', bk_draws := bk_draws ?b2 + length (bp_batches ?p)\<rparr>"
  have t: "take_ready ?ev ?b2 = (ready, ?b3)" using g by (simp add: take_ready_def tick_def)
  note tr = take_ready_silent [OF t b2]
  obtain r4 b4 where run: "run_ops (map (bk_process_batch ?ev) ready) ?b3 = (r4, b4)" by fastforce
  have "publish_local ?ev req b = (r, b')" using assms(3,6) by (simp add: publish_def)
  moreover have "r1 = Ret ()" using en by blast
  ultimately have pl: "if r4 = Ret () then b' = snd (fetch_counter (tick b4)) else b' = b4 \<and> (\<forall>resp. r \<noteq> Ret (Inr resp))"
    by (cases r4) (simp_all add: publish_local_def fetch_counter_def e add t run)
  show ?thesis
  proof (cases ready)
    case Nil
    note nr = nothing_ready [OF p(1) g [unfolded Nil]]
    have "r4 = Ret ()" "b4 = ?b3" using run Nil by simp_all
    then have b': "b' = snd (fetch_counter (tick ?b3))" using pl by simp
    then have path: "message_path b' = message_path ?b3" by (simp add: fetch_counter_def)
    have "silent b'" using silent_path [OF path] tr by simp
    moreover have "bk_batcher b' = ?p" "bk_zero_copy b' = bk_zero_copy b" "bk_partition_id b' = bk_partition_id b"
        "bk_total_partitions b' = bk_total_partitions b"
      using b' nr(1) en lim by (simp_all add: fetch_counter_def)
    ultimately show ?thesis using assms(1) p wf(2) nr(2) by (simp add: answering_def default_limits_def)
  next
    case (Cons batch others)
    obtain q rest where q: "mb_get_messages batch = q # rest" "list_all small (q # rest)" "length (q # rest) \<le> 100"
      using ready_batch [OF p(1) wf(2) p(3) g [unfolded Cons]] .
    have "length (bp_contents ?p) \<le> bp_batch_size ?p" using p(2) wf(2) assms(1) by (simp add: answering_def)
    note ob = one_batch [OF p(1) this g [unfolded Cons]]
    obtain r5 b5 where f: "bk_process_batch ?ev batch ?b3 = (r5, b5)" by fastforce
    have lim3: "default_limits ?b3" and s3: "silent ?b3" using assms(1) lim tr by (simp_all add: answering_def default_limits_def)
    have known: "\<forall>req \<in> set (mb_get_messages batch). hm_contains (bk_topics ?b3) (pr_topic req)" using tr Cons by simp
    have "r5 \<noteq> Ret ()" using batch_no_return [OF s3 assms(4) lim3 q _ disjI1 [OF f]] known q(1) by simp
    with first_op_stops [of "bk_process_batch ?ev batch", OF _ f] run Cons have rb: "r4 = r5" "b4 = b5" by simp_all
    have "silent b5 \<and> broker_frame b5 = broker_frame ?b3" by (rule batch_silent [OF s3 assms(4) known disjI1 [OF f]])
    then have b5: "silent b5" "bk_batcher b5 = p'" "zp_limits (bk_zero_copy b5) = zp_limits (bk_zero_copy b)"
        "bk_partition_id b5 = bk_partition_id b" "bk_total_partitions b5 = bk_total_partitions b"
      using en lim by (simp_all add: broker_frame_def)
    have "b' = b5" "\<forall>resp. r \<noteq> Ret (Inr resp)" using pl rb \<open>r5 \<noteq> Ret ()\<close> by simp_all
    then show ?thesis using b5 ob wf(2) lim3 assms(1) by (simp add: answering_def default_limits_def)
  qed
qed

lemma flusher_answered:
  assumes "answering b" and "exclusive_lock (ev_grant ev)" and "flusher_round ev b = (r, b')"
  shows "answering b' \<and> queued b' = (if r = Ret () then queued b else 0) \<and> bk_partition_id b' = bk_partition_id b
     \<and> bk_total_partitions b' = bk_total_partitions b"
proof -
  have silent: "silent b" and wf: "bp_wf (bk_batcher b)" "bp_batch_size (bk_batcher b) = 100"
      "list_all small (bp_contents (bk_batcher b))" "length (bp_contents (bk_batcher b)) < bp_batch_size (bk_batcher b)"
    using assms(1) by (simp_all add: answering_def)
  obtain ready p' where g: "bp_get_ready_batches (\<lambda>i. ev_instant ev (bk_draws b + i)) (bk_batcher b) = (ready, p')" by fastforce
  let ?b1 = "b\<lparr>bk_batcher := p', bk_draws := bk_draws b + length (bp_batches (bk_batcher b))\<rparr>"
  have t: "take_ready ev b = (ready, ?b1)" using g by (simp add: take_ready_def)
  note tr = take_ready_silent [OF t silent]
  have run: "run_ops (map (flush_batch ev) ready) ?b1 = (r, b')" using assms(3) t by (simp add: flusher_round_def)
  show ?thesis
  proof (cases ready)
    case Nil
    then have "p' = bk_batcher b" using nothing_ready(1) [OF wf(1)] g by simp
    then have "r = Ret ()" "message_path b' = message_path b" using run Nil by (auto simp: message_path_def)
    then show ?thesis using silent_path [of b' b] assms(1) by (simp add: answering_def default_limits_def message_path_def)
  next
    case (Cons batch others)
    obtain q rest where q: "mb_get_messages batch = q # rest" "list_all small (q # rest)" "length (q # rest) \<le> 100"
      using ready_batch [OF wf(1-3) g [unfolded Cons]] .
    note ob = one_batch [OF wf(1) less_imp_le [OF wf(4)] g [unfolded Cons]]
    obtain r1 b2 where f: "flush_batch ev batch ?b1 = (r1, b2)" by fastforce
    have lim: "default_limits ?b1" and s1: "silent ?b1" using assms(1) tr by (simp_all add: answering_def default_limits_def)
    have known: "\<forall>req \<in> set (mb_get_messages batch). hm_contains (bk_topics ?b1) (pr_topic req)" using tr Cons by simp
    have "r1 \<noteq> Ret ()" using batch_no_return [OF s1 assms(2) lim q _ disjI2 [OF f]] known q(1) by simp
    with first_op_stops [of "flush_batch ev batch", OF _ f] run Cons have rb: "r = r1" "b' = b2" by simp_all
    have "silent b2 \<and> broker_frame b2 = broker_frame ?b1" by (rule batch_silent [OF s1 assms(2) known disjI2 [OF f]])
    then have "silent b2" "bk_batcher b2 = p'" "zp_limits (bk_zero_copy b2) = zp_limits (bk_zero_copy b)"
        "bk_partition_id b2 = bk_partition_id b" "bk_total_partitions b2 = bk_total_partitions b"
      by (simp_all add: broker_frame_def)
    then show ?thesis using rb \<open>r1 \<noteq> Ret ()\<close> ob wf(2) lim by (simp add: answering_def default_limits_def)
  qed
qed

text \<open>
  The bound: what is acknowledged and what is queued, against the tasks that can still take a batch.
\<close>

definition own_calls :: "client_event list \<Rightarrow> broker \<Rightarrow> bool" where
  "own_calls es b \<longleftrightarrow>
     (\<forall>i req. CPublish i req \<in> set es \<longrightarrow> small req \<and> target_partition (pr_key req) b = Ret (bk_partition_id b))"

lemma own_calls_cong:
  "own_calls (e # es) b \<Longrightarrow> bk_partition_id b' = bk_partition_id b \<Longrightarrow> bk_total_partitions b' = bk_total_partitions b \<Longrightarrow>
   own_calls es b'"
  by (auto simp: own_calls_def target_partition_def)

lemma no_clients: "clients_run nv es [] alive b = 0"
proof (induction es arbitrary: alive b)
  case (Cons e es)
  then show ?case by (cases e) (auto split: prod.splits)
qed simp

definition takers :: "nat list \<Rightarrow> bool \<Rightarrow> nat" where
  "takers cs alive = card (set cs) + (if alive then 1 else 0)"

lemma takers_remove: "i \<in> set cs \<Longrightarrow> takers cs alive = Suc (takers (removeAll i cs) alive)"
  using card.remove [of "set cs" i] by (simp add: takers_def)

lemma clients_bound:
  assumes "exclusive_lock (ev_grant (nv_env nv))" and "logs_recover (nv_env nv)"
  shows "answering b \<Longrightarrow> own_calls es b \<Longrightarrow> cs \<noteq> [] \<Longrightarrow> clients_run nv es cs alive b + queued b \<le> 99 * takers cs alive"
proof (induction es arbitrary: cs alive b)
  case Nil
  then have "1 \<le> takers cs alive" by (simp add: takers_def Suc_le_eq card_gt_0_iff)
  then show ?case using Nil.prems(1) by (simp add: answering_def)
next
  case (Cons e es)
  have now: "queued b \<le> 99" using Cons.prems(1) by (simp add: answering_def)
  show ?case
  proof (cases e)
    case (CPublish i req)
    then have req: "small req" "target_partition (pr_key req) b = Ret (bk_partition_id b)"
      using Cons.prems(2) by (simp_all add: own_calls_def)
    obtain r b' where pub: "publish nv req b = (r, b')" by fastforce
    note pl = publish_load [OF Cons.prems(1) req assms pub]
    have oc: "own_calls es b'" "own_calls es b" using own_calls_cong [OF Cons.prems(2)] pl by simp_all
    consider "i \<notin> set cs" | resp where "i \<in> set cs" "r = Ret (Inr resp)" | "i \<in> set cs" "\<forall>resp. r \<noteq> Ret (Inr resp)" by blast
    then show ?thesis
    proof cases
      case 1
      then show ?thesis using Cons.IH [OF Cons.prems(1) oc(2) Cons.prems(3)] CPublish by simp
    next
      case 2
      then show ?thesis using Cons.IH [OF _ oc(1) Cons.prems(3), of alive] pl pub CPublish by simp
    next
      case 3
      let ?cs = "removeAll i cs"
      have run: "clients_run nv (e # es) cs alive b = clients_run nv es ?cs alive b'"
        using 3 pub CPublish by (auto split: outcome.splits sum.splits)
      have "clients_run nv es ?cs alive b' \<le> 99 * takers ?cs alive"
      proof (cases "?cs = []")
        case False
        then show ?thesis using Cons.IH [OF _ oc(1) False, of alive] pl by simp
      qed (simp add: no_clients)
      then show ?thesis using run now takers_remove [OF 3(1), of alive] by simp
    qed
  next
    case CFlush
    show ?thesis
    proof (cases alive)
      case True
      obtain r b' where f: "flusher_round (nv_env nv) b = (r, b')" by fastforce
      note fa = flusher_answered [OF Cons.prems(1) assms(1) f]
      have "own_calls es b'" using own_calls_cong [OF Cons.prems(2)] fa by simp
      then have IH: "clients_run nv es cs (r = Ret ()) b' + queued b' \<le> 99 * takers cs (r = Ret ())"
        using Cons.IH [OF _ _ Cons.prems(3)] fa by blast
      have run: "clients_run nv (e # es) cs alive b = clients_run nv es cs (r = Ret ()) b'" using f True CFlush by simp
      show ?thesis
      proof (cases "r = Ret ()")
        case rt: True
        then show ?thesis using IH run fa True by simp
      next
        case False
        then show ?thesis using IH run now True by (simp add: takers_def)
      qed
    next
      case False
      have "own_calls es b" using own_calls_cong [OF Cons.prems(2)] by simp
      then show ?thesis using Cons.IH [OF Cons.prems(1) _ Cons.prems(3)] False CFlush by simp
    qed
  qed
qed

text \<open>The same for one client.\<close>

definition own_load :: "load_event list \<Rightarrow> broker \<Rightarrow> bool" where
  "own_load es b \<longleftrightarrow>
     (\<forall>req. LPublish req \<in> set es \<longrightarrow> small req \<and> target_partition (pr_key req) b = Ret (bk_partition_id b))"

fun as_client :: "load_event \<Rightarrow> client_event" where
  "as_client (LPublish req) = CPublish 0 req"
| "as_client LFlush = CFlush"

lemma load_run_one_client: "load_run nv es alive b = clients_run nv (map as_client es) [0] alive b"
proof (induction es arbitrary: alive b)
  case (Cons e es)
  then show ?case by (cases e) (auto simp: no_clients split: prod.splits outcome.splits sum.splits)
qed simp

lemma load_bound:
  assumes "exclusive_lock (ev_grant (nv_env nv))" and "logs_recover (nv_env nv)"
    and "answering b" and "own_load es b"
  shows "load_run nv es alive b + queued b \<le> (if alive then 198 else 99)"
proof -
  have "own_calls (map as_client es) b"
    unfolding own_calls_def
  proof (intro allI impI)
    fix i req assume "CPublish i req \<in> set (map as_client es)"
    then obtain e where e: "e \<in> set es" "as_client e = CPublish i req" by auto
    have "e = LPublish req" using e(2) by (cases e) simp_all
    then have "LPublish req \<in> set es" using e(1) by simp
    then show "small req \<and> target_partition (pr_key req) b = Ret (bk_partition_id b)" using assms(4) by (simp add: own_load_def)
  qed
  from clients_bound [OF assms(1-3) this, of "[0]" alive] show ?thesis
    by (simp add: load_run_one_client takers_def split: if_splits)
qed

lemma fresh_answering: "answering (new_with_cluster clock pid n pol address port)"
proof -
  let ?b = "new_with_cluster clock pid n pol address port"
  have "silent ?b" using started_silent started_def by blast
  moreover have "bk_batcher ?b = bp_new 100 (millis 10)" "bk_zero_copy ?b = zp_new 1000"
    by (simp_all add: new_with_cluster_def)
  ultimately show ?thesis using bp_new_wf [of 100 "millis 10"]
    by (simp add: answering_def default_limits_def zp_limits_def zp_new_def zc_new_def) (simp add: bp_contents_def bp_new_def)
qed

lemma example_net_laws: "exclusive_lock (ev_grant (nv_env example_net))" "logs_recover (nv_env example_net)"
  by (simp_all add: logs_recover_def example_net_def example_env_def pq_new_def wal_read_all_def wal_new_def read_loop.simps)

section \<open>Properties\<close>



end
