(* ===== verification/Benchmark.thy ===== *)
theory Benchmark
  imports Programs Broker_Stall
begin

text \<open>
  The benchmark program, \<^verbatim>\<open>src/bin/benchmark.rs\<close>, and what it measures of a broker. Reading the clock,
  dialling and the calls are arguments, as for the clients it uses.
\<close>

section \<open>Results\<close>

text \<open>
  The non-negative \<open>f64\<close> values of a result: \<open>throughput\<close> and \<open>latency_avg\<close> divide by a duration and by a
  number of messages, either of which may be zero.
\<close>

datatype xf64 = Finite f64 | Infinite | NotANumber

fun xdiv :: "rounding \<Rightarrow> xf64 \<Rightarrow> f64 \<Rightarrow> xf64" where
  "xdiv fl (Finite x) y = (if y = 0 then if x = 0 then NotANumber else Infinite else Finite (fl (x / y)))"
| "xdiv fl Infinite y = Infinite"
| "xdiv fl NotANumber y = NotANumber"

record performance_benchmark =
  pf_message_count :: nat
  pf_batch_size :: nat
  pf_warmup_duration :: duration

record benchmark_results =
  br_message_count :: nat
  br_duration :: duration
  br_throughput_messages_per_sec :: xf64
  br_avg_latency_ms :: xf64
  br_batch_size :: nat

definition pf_new :: "nat \<Rightarrow> nat \<Rightarrow> performance_benchmark" where
  "pf_new message_count batch_size =
     \<lparr>pf_message_count = message_count, pf_batch_size = batch_size, pf_warmup_duration = secs 5\<rparr>"

definition results_of :: "rounding \<Rightarrow> nat \<Rightarrow> duration \<Rightarrow> nat \<Rightarrow> benchmark_results" where
  "results_of fl message_count elapsed batch_size =
     \<lparr>br_message_count = message_count, br_duration = elapsed,
      br_throughput_messages_per_sec = xdiv fl (Finite (fl (of_nat message_count))) (as_secs_f64 fl elapsed),
      br_avg_latency_ms = xdiv fl (xdiv fl (Finite (fl (of_nat elapsed))) (fl (of_nat message_count))) 1000000,
      br_batch_size = batch_size\<rparr>"

section \<open>The publish benchmark\<close>

text \<open>
  The warm-up loop: \<open>clock i\<close> is the \<open>i\<close>-th reading of the monotonic clock, in nanoseconds, and the
  difference of two readings does not go below zero. The loop publishes and sleeps ten milliseconds
  until five seconds have passed since \<open>clock 0\<close>; it gets the number of the next reading back. The fuel
  bounds the number of tests of the condition, \<open>None\<close> is running out of it.
\<close>

fun warmup ::
  "(nat \<Rightarrow> string + 'c) \<Rightarrow> ('c, 'w) publish_rpc \<Rightarrow> (nat \<Rightarrow> nat) \<Rightarrow> duration \<Rightarrow> nat \<Rightarrow> nat \<Rightarrow> 'c producer \<Rightarrow> 'w \<Rightarrow>
   (unit answer \<times> nat \<times> 'c producer \<times> 'w) option" where
  "warmup dial rpc clock d 0 i pd w = None"
| "warmup dial rpc clock d (Suc fuel) i pd w =
     (if clock (Suc i) - clock 0 < d then
        (case pd_publish (dial i) rpc ''benchmark'' ''warmup message'' ''warmup-key'' pd w of
           (Ret (Inr _), pd', w') \<Rightarrow> warmup dial rpc clock d fuel (Suc i) pd' w'
         | (Ret (Inl e), pd', w') \<Rightarrow> Some (Ret (Inl (''Warmup failed: '' @ e)), i, pd', w')
         | (Panic, pd', w') \<Rightarrow> Some (Panic, i, pd', w')
         | (Block, pd', w') \<Rightarrow> Some (Block, i, pd', w'))
      else Some (Ret (Inr ()), i, pd, w))"

definition bench_message :: "nat \<Rightarrow> string \<times> string \<times> string" where
  "bench_message i = (''benchmark'', ''message-'' @ show_nat i, ''key-'' @ show_nat (i mod 100))"

definition benchmark_publish_throughput ::
  "rounding \<Rightarrow> (string + unit) \<Rightarrow> string \<Rightarrow> (nat \<Rightarrow> string + 'c) \<Rightarrow> ('c, 'w) publish_rpc \<Rightarrow> (nat \<Rightarrow> nat) \<Rightarrow> nat \<Rightarrow>
   performance_benchmark \<Rightarrow> 'w \<Rightarrow> (benchmark_results answer \<times> 'w) option" where
  "benchmark_publish_throughput fl endpoint uuid dial rpc clock fuel pf w =
     (case pd_new endpoint uuid of
        Inl e \<Rightarrow> Some (Ret (Inl (''Failed to create producer: '' @ e)), w)
      | Inr pd \<Rightarrow>
          (case warmup dial rpc clock (pf_warmup_duration pf) fuel 0 pd w of
             None \<Rightarrow> None
           | Some (Ret (Inr _), i, pd1, w1) \<Rightarrow>
               (case pd_publish_all dial rpc i (map bench_message [0..<pf_message_count pf]) pd1 w1 of
                  (Ret (Inr _), pd2, w2) \<Rightarrow>
                    Some (Ret (Inr (results_of fl (pf_message_count pf) (clock (i + 3) - clock (i + 2)) (pf_batch_size pf))), w2)
                | (Ret (Inl e), pd2, w2) \<Rightarrow> Some (Ret (Inl (''Publish failed: '' @ e)), w2)
                | (Panic, pd2, w2) \<Rightarrow> Some (Panic, w2)
                | (Block, pd2, w2) \<Rightarrow> Some (Block, w2))
           | Some (Ret (Inl e), _, _, w1) \<Rightarrow> Some (Ret (Inl e), w1)
           | Some (Panic, _, _, w1) \<Rightarrow> Some (Panic, w1)
           | Some (Block, _, _, w1) \<Rightarrow> Some (Block, w1)))"

section \<open>The consume benchmark\<close>

text \<open>The receiving loop: \<open>ms\<close> are the messages the receiver yields, \<open>ends\<close> is whether it ends after them.\<close>

fun receive_count :: "nat \<Rightarrow> bool \<Rightarrow> string list \<Rightarrow> nat \<Rightarrow> nat outcome" where
  "receive_count n ends [] k = (if ends then Ret k else Block)"
| "receive_count n ends (m # ms) k = (if n \<le> Suc k then Ret (Suc k) else receive_count n ends ms (Suc k))"

definition benchmark_consume_throughput ::
  "rounding \<Rightarrow> (nat \<Rightarrow> string) \<Rightarrow> (string \<Rightarrow> string \<Rightarrow> string \<Rightarrow> 'w \<Rightarrow> channel_poll list answer \<times> 'w) \<Rightarrow> 'w client \<Rightarrow>
   bool \<Rightarrow> string \<Rightarrow> (nat \<Rightarrow> app_send) \<Rightarrow> (nat \<Rightarrow> nat) \<Rightarrow> performance_benchmark \<Rightarrow> 'w \<Rightarrow> benchmark_results answer \<times> 'w" where
  "benchmark_consume_throughput fl lag_text opened cl conn_ok uuid app clock pf w =
     (case co_new cl conn_ok uuid None w of
        (Ret (Inr c), w1) \<Rightarrow>
          (case co_subscribe cl ''benchmark'' c w1 of
             (Ret (Inr _), c1, w2) \<Rightarrow>
               (case co_consume lag_text opened cl app c1 ''benchmark'' w2 of
                  (Ret (Inr (ms, ends)), w3) \<Rightarrow>
                    (case receive_count (pf_message_count pf) ends ms 0 of
                       Ret k \<Rightarrow> (Ret (Inr (results_of fl k (clock 1 - clock 0) (pf_batch_size pf))), w3)
                     | Panic \<Rightarrow> (Panic, w3)
                     | Block \<Rightarrow> (Block, w3))
                | (Ret (Inl e), w3) \<Rightarrow> (Ret (Inl (''Failed to start consuming: '' @ e)), w3)
                | (Panic, w3) \<Rightarrow> (Panic, w3)
                | (Block, w3) \<Rightarrow> (Block, w3))
           | (Ret (Inl e), _, w2) \<Rightarrow> (Ret (Inl (''Failed to subscribe: '' @ e)), w2)
           | (Panic, _, w2) \<Rightarrow> (Panic, w2)
           | (Block, _, w2) \<Rightarrow> (Block, w2))
      | (Ret (Inl e), w1) \<Rightarrow> (Ret (Inl (''Failed to create consumer: '' @ e)), w1)
      | (Panic, w1) \<Rightarrow> (Panic, w1)
      | (Block, w1) \<Rightarrow> (Block, w1))"

section \<open>The test cases\<close>

text \<open>
  \<open>run_performance_tests\<close>: each test case has a producer, connections and clock readings of its own. A
  failure is printed and the next case follows; the results and errors are collected in the order in
  which they are printed.
\<close>

record 'c case_env =
  ce_endpoint :: "string + unit"
  ce_uuid :: string
  ce_dial :: "nat \<Rightarrow> string + 'c"
  ce_clock :: "nat \<Rightarrow> nat"

definition test_cases :: "(nat \<times> nat) list" where
  "test_cases = [(1000, 10), (10000, 100), (100000, 1000)]"

abbreviation bench_case ::
  "rounding \<Rightarrow> ('c, 'w) publish_rpc \<Rightarrow> nat \<Rightarrow> 'c case_env \<Rightarrow> performance_benchmark \<Rightarrow> 'w \<Rightarrow> (benchmark_results answer \<times> 'w) option" where
  "bench_case fl rpc fuel e pf w \<equiv>
     benchmark_publish_throughput fl (ce_endpoint e) (ce_uuid e) (ce_dial e) rpc (ce_clock e) fuel pf w"

fun run_cases ::
  "rounding \<Rightarrow> ('c, 'w) publish_rpc \<Rightarrow> nat \<Rightarrow> (nat \<Rightarrow> 'c case_env) \<Rightarrow> nat \<Rightarrow> (nat \<times> nat) list \<Rightarrow> 'w \<Rightarrow>
   ((string + benchmark_results) list \<times> unit outcome \<times> 'w) option" where
  "run_cases fl rpc fuel envs j [] w = Some ([], Ret (), w)"
| "run_cases fl rpc fuel envs j ((message_count, batch_size) # cs) w =
     (case bench_case fl rpc fuel (envs j) (pf_new message_count batch_size) w of
        None \<Rightarrow> None
      | Some (Ret r, w1) \<Rightarrow> map_option (\<lambda>(rs, x). (r # rs, x)) (run_cases fl rpc fuel envs (Suc j) cs w1)
      | Some (Panic, w1) \<Rightarrow> Some ([], Panic, w1)
      | Some (Block, w1) \<Rightarrow> Some ([], Block, w1))"

definition run_performance_tests ::
  "rounding \<Rightarrow> ('c, 'w) publish_rpc \<Rightarrow> nat \<Rightarrow> (nat \<Rightarrow> 'c case_env) \<Rightarrow> 'w \<Rightarrow>
   ((string + benchmark_results) list \<times> unit outcome \<times> 'w) option" where
  "run_performance_tests fl rpc fuel envs w = run_cases fl rpc fuel envs 0 test_cases w"

section \<open>The loops end\<close>

text \<open>\<open>sleep\<close> takes at least as long as it is asked to.\<close>

definition sleeps :: "(nat \<Rightarrow> nat) \<Rightarrow> bool" where
  "sleeps clock \<longleftrightarrow> clock 0 \<le> clock 1 \<and> (\<forall>i. clock (Suc i) + millis 10 \<le> clock (Suc (Suc i)))"

lemma sleeps_clock: "sleeps clock \<Longrightarrow> clock 0 + i * millis 10 \<le> clock (Suc i)"
proof (induction i)
  case (Suc i)
  then have "clock (Suc i) + millis 10 \<le> clock (Suc (Suc i))" by (simp add: sleeps_def)
  then show ?case using Suc by simp
qed (simp add: sleeps_def)

text \<open>The condition fails once \<open>d\<close> has been slept, so \<open>d\<close> over ten milliseconds, plus one, is enough fuel.\<close>

lemma warmup_ends:
  assumes "sleeps clock" and "d \<le> (fuel + i) * millis 10"
  shows "warmup dial rpc clock d (Suc fuel) i pd w \<noteq> None"
  using assms(2)
proof (induction fuel arbitrary: i pd w)
  case 0
  then have "\<not> clock (Suc i) - clock 0 < d" using sleeps_clock [OF assms(1), of i] by simp
  then show ?case by simp
next
  case (Suc fuel)
  then have "d \<le> (fuel + Suc i) * millis 10" by simp
  from Suc.IH [OF this] show ?case
    by (subst warmup.simps) (auto simp del: warmup.simps split: prod.splits outcome.splits sum.splits)
qed

lemma bench_case_ends:
  assumes "sleeps (ce_clock e)" and "500 \<le> fuel"
  shows "bench_case fl rpc (Suc fuel) e (pf_new n k) w \<noteq> None"
proof -
  have d: "pf_warmup_duration (pf_new n k) \<le> (fuel + 0) * millis 10"
    using assms(2) by (simp add: pf_new_def secs_def millis_def)
  show ?thesis
  proof (cases "pd_new (ce_endpoint e) (ce_uuid e) :: string + 'a producer")
    case (Inr pd)
    obtain x where "warmup (ce_dial e) rpc (ce_clock e) (pf_warmup_duration (pf_new n k)) (Suc fuel) 0 pd w = Some x"
      using warmup_ends [OF assms(1) d] by (meson not_None_eq)
    then show ?thesis using Inr
      by (simp add: benchmark_publish_throughput_def del: warmup.simps split: sum.splits outcome.splits prod.splits)
  qed (simp add: benchmark_publish_throughput_def)
qed

lemma run_cases_end:
  assumes "\<forall>j. sleeps (ce_clock (envs j))" and "500 \<le> fuel"
  shows "run_cases fl rpc (Suc fuel) envs j cs w \<noteq> None"
proof (induction cs arbitrary: j w)
  case (Cons c cs)
  obtain n k where c: "c = (n, k)" by (cases c)
  have "bench_case fl rpc (Suc fuel) (envs j) (pf_new n k) w \<noteq> None" using assms by (intro bench_case_ends) auto
  then obtain r w1 where "bench_case fl rpc (Suc fuel) (envs j) (pf_new n k) w = Some (r, w1)" by auto
  then show ?case using Cons [of "Suc j" w1] c by (cases r) auto
qed simp

section \<open>What the benchmarks count\<close>

lemma receive_count_prefix:
  "k < n \<or> k = 0 \<Longrightarrow> receive_count n ends ms k =
     (if max 1 n \<le> k + length ms then Ret (max 1 n) else if ends then Ret (k + length ms) else Block)"
  by (induction ms arbitrary: k) (auto simp: max_def)

section \<open>A broker behind the benchmark\<close>

text \<open>
  The other side of the calls is a broker with its flusher, which makes \<open>rounds k\<close> rounds before the
  \<open>k\<close>-th call, until one of them does not return.
\<close>

fun flushes :: "env \<Rightarrow> nat \<Rightarrow> bool \<Rightarrow> broker \<Rightarrow> bool \<times> broker" where
  "flushes ev 0 alive b = (alive, b)"
| "flushes ev (Suc n) alive b =
     (if alive then (case flusher_round ev b of (r, b') \<Rightarrow> flushes ev n (r = Ret ()) b') else flushes ev n alive b)"

definition broker_rpc ::
  "net_env \<Rightarrow> (nat \<Rightarrow> nat) \<Rightarrow> publish_request \<Rightarrow> nat \<times> bool \<times> broker \<Rightarrow> publish_response answer \<times> nat \<times> bool \<times> broker" where
  "broker_rpc nv rounds req w =
     (case w of (k, alive, b) \<Rightarrow>
        (case flushes (nv_env nv) (rounds k) alive b of
           (alive', b1) \<Rightarrow> (case remote (\<lambda>r. r) (publish nv req b1) of (r, b2) \<Rightarrow> (r, Suc k, alive', b2))))"

fun load_of :: "(nat \<Rightarrow> nat) \<Rightarrow> nat \<Rightarrow> publish_request list \<Rightarrow> load_event list" where
  "load_of rounds k [] = []"
| "load_of rounds k (q # qs) = replicate (rounds k) LFlush @ LPublish q # load_of rounds (Suc k) qs"

lemma load_run_flushes:
  "load_run nv (replicate n LFlush @ es) alive b = (case flushes (nv_env nv) n alive b of (a, b') \<Rightarrow> load_run nv es a b')"
  by (induction n arbitrary: alive b) (simp_all split: prod.splits)

lemma remote_success:
  assumes "remote (\<lambda>r. r) (a, b) = (Ret (Inr resp), b')"
  shows "a = Ret (Inr resp) \<and> b = b'"
proof (cases a)
  case (Ret x)
  then show ?thesis using assms by (cases x) simp_all
qed (use assms in simp_all)

lemma broker_rpc_success:
  assumes "broker_rpc nv rounds q (k, alive, b) = (Ret (Inr resp), w')"
  obtains a b1 b2 where "flushes (nv_env nv) (rounds k) alive b = (a, b1)" "publish nv q b1 = (Ret (Inr resp), b2)"
    "w' = (Suc k, a, b2)"
proof -
  obtain a b1 where f: "flushes (nv_env nv) (rounds k) alive b = (a, b1)" by fastforce
  obtain r b2 where p: "remote (\<lambda>r. r) (publish nv q b1) = (r, b2)" by fastforce
  then have "r = Ret (Inr resp)" "w' = (Suc k, a, b2)" using assms f by (simp_all add: broker_rpc_def)
  with that f p show ?thesis using remote_success by (metis surj_pair)
qed

lemma rpc_all_load:
  assumes "rpc_all (broker_rpc nv rounds) qs (k, alive, b) = (Ret (Inr ()), w')"
  shows "load_run nv (load_of rounds k qs) alive b = length qs"
  using assms
proof (induction qs arbitrary: k alive b)
  case (Cons q qs)
  obtain resp w1 where q: "broker_rpc nv rounds q (k, alive, b) = (Ret (Inr resp), w1)"
    and rest: "rpc_all (broker_rpc nv rounds) qs w1 = (Ret (Inr ()), w')"
    using Cons.prems by (auto split: prod.splits outcome.splits sum.splits)
  obtain a b1 b2 where f: "flushes (nv_env nv) (rounds k) alive b = (a, b1)" and p: "publish nv q b1 = (Ret (Inr resp), b2)"
    and w1: "w1 = (Suc k, a, b2)"
    by (rule broker_rpc_success [OF q])
  show ?case using Cons.IH [OF rest [unfolded w1]] f p by (simp add: load_run_flushes)
qed simp

lemma load_of_requests: "LPublish q \<in> set (load_of rounds k qs) \<longleftrightarrow> q \<in> set qs"
  by (induction rounds k qs rule: load_of.induct) auto

section \<open>The benchmark as a sequence of calls\<close>

lemma rpc_all_append:
  "rpc_all f xs w = (Ret (Inr ()), w1) \<Longrightarrow> rpc_all f (xs @ ys) w = rpc_all f ys w1"
  by (induction xs arbitrary: w) (auto split: prod.splits outcome.splits sum.splits)

lemma pd_publish_success:
  assumes "pd_publish c (\<lambda>_. f) topic message key pd w = (Ret (Inr x), pd', w')"
  shows "f (request_of (pd_producer_id pd) (topic, message, key)) w = (Ret (Inr x), w')" and "pd_producer_id pd' = pd_producer_id pd"
  using assms by (auto simp: pd_publish_def split: prod.splits sum.splits outcome.splits)

lemma pd_publish_all_calls:
  assumes "pd_publish_all dial (\<lambda>_. f) i xs pd w = (Ret (Inr ()), pd', w')"
  shows "rpc_all f (map (request_of (pd_producer_id pd)) xs) w = (Ret (Inr ()), w')"
  using assms
proof (induction xs arbitrary: i pd w)
  case (Cons x xs)
  obtain topic message key where x: "x = (topic, message, key)" by (cases x)
  obtain y pd1 w1 where one: "pd_publish (dial i) (\<lambda>_. f) topic message key pd w = (Ret (Inr y), pd1, w1)"
    and rest: "pd_publish_all dial (\<lambda>_. f) (Suc i) xs pd1 w1 = (Ret (Inr ()), pd', w')"
    using Cons.prems x by (auto split: prod.splits outcome.splits sum.splits)
  show ?case using Cons.IH [OF rest] pd_publish_success [OF one] x by simp
qed simp

abbreviation warmup_request :: "string \<Rightarrow> publish_request" where
  "warmup_request pid \<equiv> request_of pid (''benchmark'', ''warmup message'', ''warmup-key'')"

lemma warmup_calls:
  assumes "warmup dial (\<lambda>_. f) clock d fuel i pd w = Some (Ret (Inr ()), i', pd', w')"
  shows "\<exists>n. rpc_all f (replicate n (warmup_request (pd_producer_id pd))) w = (Ret (Inr ()), w')
     \<and> pd_producer_id pd' = pd_producer_id pd"
  using assms
proof (induction fuel arbitrary: i pd w)
  case (Suc fuel)
  show ?case
  proof (cases "clock (Suc i) - clock 0 < d")
    case True
    obtain y pd1 w1 where one: "pd_publish (dial i) (\<lambda>_. f) ''benchmark'' ''warmup message'' ''warmup-key'' pd w = (Ret (Inr y), pd1, w1)"
      and rest: "warmup dial (\<lambda>_. f) clock d fuel (Suc i) pd1 w1 = Some (Ret (Inr ()), i', pd', w')"
      using Suc.prems True by (auto split: prod.splits outcome.splits sum.splits)
    obtain n where "rpc_all f (replicate n (warmup_request (pd_producer_id pd1))) w1 = (Ret (Inr ()), w')"
        "pd_producer_id pd' = pd_producer_id pd1"
      using Suc.IH [OF rest] by blast
    then show ?thesis using pd_publish_success [OF one] by (intro exI [of _ "Suc n"]) simp
  next
    case False
    then show ?thesis using Suc.prems by (intro exI [of _ 0]) simp
  qed
qed simp

lemma benchmark_calls:
  assumes "benchmark_publish_throughput fl endpoint uuid dial (\<lambda>_. f) clock fuel pf w = Some (Ret (Inr res), w')"
  shows "\<exists>n. rpc_all f (replicate n (warmup_request uuid) @ map (\<lambda>i. request_of uuid (bench_message i)) [0..<pf_message_count pf]) w =
     (Ret (Inr ()), w')"
proof -
  obtain pd where pd: "pd_new endpoint uuid = (Inr pd :: string + 'b producer)" and pid: "pd_producer_id pd = uuid"
    using assms by (auto simp: benchmark_publish_throughput_def pd_new_def split: sum.splits)
  obtain i pd1 w1 pd2 where wu: "warmup dial (\<lambda>_. f) clock (pf_warmup_duration pf) fuel 0 pd w = Some (Ret (Inr ()), i, pd1, w1)"
    and all: "pd_publish_all dial (\<lambda>_. f) i (map bench_message [0..<pf_message_count pf]) pd1 w1 = (Ret (Inr ()), pd2, w')"
    using assms pd by (auto simp: benchmark_publish_throughput_def split: option.splits outcome.splits sum.splits prod.splits)
  obtain n where n: "rpc_all f (replicate n (warmup_request uuid)) w = (Ret (Inr ()), w1)" and "pd_producer_id pd1 = uuid"
    using warmup_calls [OF wu] pid by auto
  then have "rpc_all f (map (\<lambda>i. request_of uuid (bench_message i)) [0..<pf_message_count pf]) w1 = (Ret (Inr ()), w')"
    using pd_publish_all_calls [OF all] by (simp add: comp_def)
  then show ?thesis using rpc_all_append [OF n] by (metis (no_types, lifting))
qed

lemma show_nat_length: "n < 10 ^ Suc k \<Longrightarrow> length (show_nat n) \<le> Suc k"
proof (induction k arbitrary: n)
  case 0
  then show ?case by (simp add: show_nat.simps [of n])
next
  case (Suc k)
  then have "n div 10 < 10 ^ Suc k" by (simp add: less_mult_imp_div_less mult.commute)
  then show ?case using Suc.IH by (simp add: show_nat.simps [of n])
qed

lemma bench_message_small:
  assumes "i < 2 ^ 64"
  shows "small (request_of uuid (bench_message i))"
proof -
  have "length (show_nat i) \<le> Suc 19" using assms by (intro show_nat_length) simp
  then show ?thesis by (simp add: small_def bench_message_def)
qed

text \<open>The calls that a fresh broker with one partition acknowledges.\<close>

lemma fresh_broker_bound:
  assumes "exclusive_lock (ev_grant (nv_env nv))" and "logs_recover (nv_env nv)" and "list_all small qs"
    and "rpc_all (broker_rpc nv rounds) qs (0, True, bk_new clock 0 1 None) = (Ret (Inr ()), w')"
  shows "length qs \<le> 198"
proof -
  let ?b = "bk_new clock 0 1 None"
  have "target_partition key ?b = Ret (bk_partition_id ?b)" for key
    by (simp add: target_partition_def bk_new_def new_with_cluster_def)
  then have "own_load (load_of rounds 0 qs) ?b"
    using assms(3) by (simp add: own_load_def load_of_requests list_all_iff)
  moreover have "answering ?b" unfolding bk_new_def by (rule fresh_answering)
  ultimately have "load_run nv (load_of rounds 0 qs) True ?b + queued ?b \<le> (if True then 198 else 99)"
    using load_bound [OF assms(1,2)] by blast
  then show ?thesis using rpc_all_load [OF assms(4)] by simp
qed

lemma benchmark_fits:
  assumes "exclusive_lock (ev_grant (nv_env nv))" and "logs_recover (nv_env nv)" and "pf_message_count pf < 2 ^ 64"
    and "benchmark_publish_throughput fl endpoint uuid dial (\<lambda>_. broker_rpc nv rounds) ticks fuel pf
      (0, True, bk_new clock 0 1 None) = Some (Ret (Inr res), w')"
  shows "pf_message_count pf \<le> 198"
proof -
  let ?qs = "map (\<lambda>i. request_of uuid (bench_message i)) [0..<pf_message_count pf]"
  from benchmark_calls [OF assms(4)]
  obtain n where "rpc_all (broker_rpc nv rounds) (replicate n (warmup_request uuid) @ ?qs) (0, True, bk_new clock 0 1 None) =
      (Ret (Inr ()), w')" ..
  moreover have "list_all small (replicate n (warmup_request uuid) @ ?qs)"
    using assms(3) bench_message_small by (auto simp: list_all_iff) (simp add: small_def)
  ultimately have "n + pf_message_count pf \<le> 198" using fresh_broker_bound [OF assms(1,2)] by fastforce
  then show ?thesis by simp
qed

section \<open>Properties\<close>

text \<open>
  The benchmark program does not loop for ever by itself. Whatever the other side of its
  calls does, the program ends, panics or waits for one of them: as \<open>sleep\<close> takes at least the time it
  is asked for, a warm-up makes at most 500 turns.
\<close>

lemma benchmark_terminates:
  assumes "\<forall>j. sleeps (ce_clock (envs j))" and "501 \<le> fuel"
  shows "\<exists>rs r w'. run_performance_tests fl rpc fuel envs w = Some (rs, r, w')"
proof -
  obtain fuel' where "fuel = Suc fuel'" "500 \<le> fuel'" using assms(2) by (cases fuel) auto
  then have "run_performance_tests fl rpc fuel envs w \<noteq> None"
    using run_cases_end [OF assms(1)] by (simp add: run_performance_tests_def)
  then show ?thesis by auto
qed

definition example_case :: "unit case_env" where
  "example_case = \<lparr>ce_endpoint = Inr (), ce_uuid = ''p'', ce_dial = (\<lambda>_. Inr ()), ce_clock = (\<lambda>i. i * millis 10)\<rparr>"

lemma example_case_sleeps: "sleeps (ce_clock example_case)"
  by (simp add: sleeps_def example_case_def)

lemma benchmark_terminates_example:
  "\<exists>rs r w'. run_performance_tests (\<lambda>x. x) (\<lambda>_. broker_rpc example_net (\<lambda>_. 2)) 501 (\<lambda>_. example_case)
     (0, True, bk_new (\<lambda>_. 5) 0 1 None) = Some (rs, r, w')"
  by (rule benchmark_terminates) (simp_all add: example_case_sleeps)

text \<open>
  Property C25: the benchmark gets no figures from a fresh broker. Against a broker with one partition
  and the default settings, however the rounds of the flusher fall between the calls, a publish
  benchmark of more than 198 messages does not come to its results, and the first thing the test program
  prints, if it does not wait for ever, is an error.
\<close>

theorem benchmark_no_results:
  assumes "exclusive_lock (ev_grant (nv_env nv))" and "logs_recover (nv_env nv)"
    and "198 < pf_message_count pf" and "pf_message_count pf < 2 ^ 64"
  shows "benchmark_publish_throughput fl endpoint uuid dial (\<lambda>_. broker_rpc nv rounds) ticks fuel pf
       (0, True, bk_new clock 0 1 None) \<noteq> Some (Ret (Inr res), w')
     \<and> (run_performance_tests fl (\<lambda>_. broker_rpc nv rounds) fuel envs (0, True, bk_new clock 0 1 None) = Some (x # rs, w'') \<longrightarrow>
         (\<exists>e. x = Inl e))"
proof -
  have "\<exists>e. x = Inl e"
    if run: "run_performance_tests fl (\<lambda>_. broker_rpc nv rounds) fuel envs (0, True, bk_new clock 0 1 None) = Some (x # rs, w'')"
  proof -
    obtain w1 where first: "bench_case fl (\<lambda>_. broker_rpc nv rounds) fuel (envs 0) (pf_new 1000 10) (0, True, bk_new clock 0 1 None) =
        Some (Ret x, w1)"
      using run by (auto simp: run_performance_tests_def test_cases_def split: option.splits outcome.splits prod.splits)
    have "x \<noteq> Inr res" for res
    proof
      assume "x = Inr res"
      from benchmark_fits [OF assms(1,2) _ first [unfolded this]] show False by (simp add: pf_new_def)
    qed
    then show ?thesis by (metis old.sum.exhaust)
  qed
  moreover have "benchmark_publish_throughput fl endpoint uuid dial (\<lambda>_. broker_rpc nv rounds) ticks fuel pf
       (0, True, bk_new clock 0 1 None) \<noteq> Some (Ret (Inr res), w')"
    using benchmark_fits [OF assms(1,2,4)] assms(3) by (metis not_less)
  ultimately show ?thesis by blast
qed

theorem benchmark_no_results_witness:
  "\<not> (\<exists>res w'. benchmark_publish_throughput (\<lambda>x. x) (Inr ()) ''p'' (\<lambda>_. Inr ()) (\<lambda>_ :: unit. broker_rpc example_net (\<lambda>_. 2))
     (\<lambda>i. i * millis 10) 501 (pf_new 1000 10) (0, True, bk_new (\<lambda>_. 5) 0 1 None) = Some (Ret (Inr res), w'))"
proof -
  have "198 < pf_message_count (pf_new 1000 10)" "pf_message_count (pf_new 1000 10) < 2 ^ 64" by (simp_all add: pf_new_def)
  from benchmark_no_results [OF example_net_laws this] show ?thesis by blast
qed

end
