(* ===== verification/Streams.thy ===== *)
theory Streams
  imports Batching
begin

text \<open>
  The stream library, \<^verbatim>\<open>crates/streams/src\<close>: the operators of \<open>KStream\<close> and \<open>GroupedStream\<close>, the
  state stores, the windows, the simple stream processor and the parser of the stream builder. A
  source is the list of the items it yields. An operator that wraps a source in a generator is a
  stage: it takes one item, may change its own state, and yields a list of items. \<open>Arc<RwLock<..>>\<close>
  around the source and the tables is private to the generator.
\<close>

section \<open>Records and stages\<close>

record ('k, 'v) stream_record =
  sr_key :: 'k
  sr_value :: 'v
  sr_timestamp :: nat
  sr_partition :: int
  sr_offset :: int

type_synonym ('st, 'a, 'b) stage = "'st \<Rightarrow> 'a \<Rightarrow> 'b list outcome \<times> 'st"

text \<open>
  \<open>while let Some(record) = source.next().await\<close>: what the generator yields, how it ends and its last
  state.
\<close>

fun run_stage :: "('st, 'a, 'b) stage \<Rightarrow> 'st \<Rightarrow> 'a list \<Rightarrow> 'b list \<times> unit outcome \<times> 'st" where
  "run_stage stage st [] = ([], Ret (), st)"
| "run_stage stage st (x # xs) =
     (case stage st x of
        (Ret ys, st') \<Rightarrow> (case run_stage stage st' xs of (zs, r) \<Rightarrow> (ys @ zs, r))
      | (Panic, st') \<Rightarrow> ([], Panic, st')
      | (Block, st') \<Rightarrow> ([], Block, st'))"

section \<open>Operators of a stream\<close>

definition map_stage :: "('a \<Rightarrow> 'b) \<Rightarrow> (unit, 'a, 'b) stage" where
  "map_stage mapper st r = (Ret [mapper r], st)"

definition filter_stage :: "('a \<Rightarrow> bool) \<Rightarrow> (unit, 'a, 'a) stage" where
  "filter_stage predicate st r = (Ret (if predicate r then [r] else []), st)"

definition flat_map_stage :: "('a \<Rightarrow> 'b list) \<Rightarrow> (unit, 'a, 'b) stage" where
  "flat_map_stage mapper st r = (Ret (mapper r), st)"

text \<open>The actions of \<open>peek\<close> and \<open>for_each\<close> are a state transformer.\<close>

definition peek_stage :: "('a \<Rightarrow> 'w \<Rightarrow> 'w) \<Rightarrow> ('w, 'a, 'a) stage" where
  "peek_stage action w r = (Ret [r], action r w)"

definition for_each_stage :: "('a \<Rightarrow> 'w \<Rightarrow> 'w) \<Rightarrow> ('w, 'a, 'b) stage" where
  "for_each_stage action w r = (Ret [], action r w)"

text \<open>
  The sink: \<open>json_k\<close> and \<open>json_v\<close> are the JSON encoders (a failure gives the empty text), \<open>publish\<close> the
  producer's call, whose error is only printed. The source calls \<open>publish\<close> on a shared \<open>Arc<Producer>\<close>, although the
  method takes \<open>&mut self\<close>; it does not type-check as it stands, in a file that no crate includes. The stage
  gives the call the meaning it has on a producer of its own, whose state is passed on.
\<close>

definition print_error :: "unit answer \<Rightarrow> 'b list outcome" where
  "print_error r = (case r of Ret _ \<Rightarrow> Ret [] | Panic \<Rightarrow> Panic | Block \<Rightarrow> Block)"

definition to_stage ::
  "('k \<Rightarrow> string option) \<Rightarrow> ('v \<Rightarrow> string option) \<Rightarrow> (string \<Rightarrow> string \<Rightarrow> string \<Rightarrow> 'w \<Rightarrow> unit answer \<times> 'w) \<Rightarrow> string \<Rightarrow>
   ('w, ('k, 'v) stream_record, 'b) stage" where
  "to_stage json_k json_v publish topic w r =
     (let key = (case json_k (sr_key r) of Some s \<Rightarrow> s | None \<Rightarrow> '''');
          val = (case json_v (sr_value r) of Some s \<Rightarrow> s | None \<Rightarrow> '''')
      in case publish topic val key w of (res, w') \<Rightarrow> (print_error res, w'))"

text \<open>
  \<open>merge\<close>: in each turn \<open>select!\<close> starts with a branch of its choice, \<open>pick i\<close> in turn \<open>i\<close>; an
  exhausted branch is disabled and the other one is taken; with both exhausted the loop ends. The
  fuel bounds the number of turns.
\<close>

fun merge_loop :: "(nat \<Rightarrow> bool) \<Rightarrow> nat \<Rightarrow> nat \<Rightarrow> 'a list \<Rightarrow> 'a list \<Rightarrow> 'a list option" where
  "merge_loop pick 0 i xs ys = None"
| "merge_loop pick (Suc fuel) i [] [] = Some []"
| "merge_loop pick (Suc fuel) i (x # xs) [] = map_option ((#) x) (merge_loop pick fuel (Suc i) xs [])"
| "merge_loop pick (Suc fuel) i [] (y # ys) = map_option ((#) y) (merge_loop pick fuel (Suc i) [] ys)"
| "merge_loop pick (Suc fuel) i (x # xs) (y # ys) =
     (if pick i then map_option ((#) x) (merge_loop pick fuel (Suc i) xs (y # ys))
      else map_option ((#) y) (merge_loop pick fuel (Suc i) (x # xs) ys))"

text \<open>
  \<open>branch\<close>: a task puts the records of the source on a broadcast channel, and each branch receives
  from its own end of it. A receiver that is more than the capacity behind gets an error on its
  next call, and the branch ends on every error.
\<close>

record 'a branch_rx =
  br_pending :: "'a list"
  br_lagged :: bool
  br_ended :: bool

datatype 'a branch_event = BSend 'a | BPoll

definition br_new :: "'a branch_rx" where
  "br_new = \<lparr>br_pending = [], br_lagged = False, br_ended = False\<rparr>"

fun branch_step :: "nat \<Rightarrow> ('a \<Rightarrow> bool) \<Rightarrow> 'a branch_event \<Rightarrow> 'a branch_rx \<Rightarrow> 'a list \<times> 'a branch_rx" where
  "branch_step cap predicate (BSend r) rx =
     (if br_ended rx then ([], rx)
      else if length (br_pending rx) \<ge> cap
      then ([], rx\<lparr>br_pending := drop 1 (br_pending rx) @ [r], br_lagged := True\<rparr>)
      else ([], rx\<lparr>br_pending := br_pending rx @ [r]\<rparr>))"
| "branch_step cap predicate BPoll rx =
     (if br_ended rx then ([], rx)
      else if br_lagged rx then ([], rx\<lparr>br_ended := True\<rparr>)
      else case br_pending rx of
        [] \<Rightarrow> ([], rx)
      | r # rs \<Rightarrow> (if predicate r then [r] else [], rx\<lparr>br_pending := rs\<rparr>))"

fun branch_run :: "nat \<Rightarrow> ('a \<Rightarrow> bool) \<Rightarrow> 'a branch_event list \<Rightarrow> 'a branch_rx \<Rightarrow> 'a list \<times> 'a branch_rx" where
  "branch_run cap predicate [] rx = ([], rx)"
| "branch_run cap predicate (e # es) rx =
     (case branch_step cap predicate e rx of
        (out, rx') \<Rightarrow> (case branch_run cap predicate es rx' of (out', rx'') \<Rightarrow> (out @ out', rx'')))"

section \<open>Grouped streams\<close>

definition with_value :: "('k, 'v) stream_record \<Rightarrow> 'a \<Rightarrow> ('k, 'a) stream_record" where
  "with_value r v =
     \<lparr>sr_key = sr_key r, sr_value = v, sr_timestamp = sr_timestamp r, sr_partition = sr_partition r,
      sr_offset = sr_offset r\<rparr>"

definition count_stage :: "bool \<Rightarrow> (('k, nat) hashmap, ('k, 'v) stream_record, ('k, nat) stream_record) stage" where
  "count_stage ovf counts r =
     (let n = (case hm_get counts (sr_key r) of Some n \<Rightarrow> n | None \<Rightarrow> 0)
      in case arith_u 64 ovf (int n + 1) of
           Ret n' \<Rightarrow> (Ret [with_value r n'], hm_insert (sr_key r) n' counts)
         | Panic \<Rightarrow> (Panic, hm_insert (sr_key r) n counts)
         | Block \<Rightarrow> (Block, counts))"

definition aggregate_stage ::
  "'a \<Rightarrow> ('a \<Rightarrow> 'v \<Rightarrow> 'a) \<Rightarrow> (('k, 'a) hashmap, ('k, 'v) stream_record, ('k, 'a) stream_record) stage" where
  "aggregate_stage initializer aggregator aggs r =
     (let agg = aggregator (case hm_get aggs (sr_key r) of Some a \<Rightarrow> a | None \<Rightarrow> initializer) (sr_value r)
      in (Ret [with_value r agg], hm_insert (sr_key r) agg aggs))"

definition reduce_stage ::
  "('v \<Rightarrow> 'v \<Rightarrow> 'v) \<Rightarrow> (('k, 'v) hashmap, ('k, 'v) stream_record, ('k, 'v) stream_record) stage" where
  "reduce_stage reducer reds r =
     (let reduced = (case hm_get reds (sr_key r) of Some v \<Rightarrow> reducer v (sr_value r) | None \<Rightarrow> sr_value r)
      in (Ret [with_value r reduced], hm_insert (sr_key r) reduced reds))"

section \<open>State stores\<close>

record ('k, 'v) in_memory_store =
  im_store :: "('k, 'v) hashmap"

definition im_new :: "('k, 'v) in_memory_store" where
  "im_new = \<lparr>im_store = []\<rparr>"

definition im_put :: "'k \<Rightarrow> 'v \<Rightarrow> ('k, 'v) in_memory_store \<Rightarrow> ('k, 'v) in_memory_store" where
  "im_put k v s = s\<lparr>im_store := hm_insert k v (im_store s)\<rparr>"

definition im_get :: "'k \<Rightarrow> ('k, 'v) in_memory_store \<Rightarrow> 'v option" where
  "im_get k s = hm_get (im_store s) k"

definition im_delete :: "'k \<Rightarrow> ('k, 'v) in_memory_store \<Rightarrow> 'v option \<times> ('k, 'v) in_memory_store" where
  "im_delete k s = (hm_get (im_store s) k, s\<lparr>im_store := hm_remove k (im_store s)\<rparr>)"

definition im_all :: "(('k \<times> 'v) list \<Rightarrow> ('k \<times> 'v) list) \<Rightarrow> ('k, 'v) in_memory_store \<Rightarrow> ('k \<times> 'v) list" where
  "im_all \<pi> s = \<pi> (im_store s)"

record ('k, 'v) persistent_store =
  pst_memory_store :: "('k, 'v) in_memory_store"
  pst_path :: string

definition pst_new :: "string \<Rightarrow> ('k, 'v) persistent_store" where
  "pst_new path = \<lparr>pst_memory_store = im_new, pst_path = path\<rparr>"

definition pst_put :: "'k \<Rightarrow> 'v \<Rightarrow> ('k, 'v) persistent_store \<Rightarrow> ('k, 'v) persistent_store" where
  "pst_put k v s = s\<lparr>pst_memory_store := im_put k v (pst_memory_store s)\<rparr>"

definition pst_get :: "'k \<Rightarrow> ('k, 'v) persistent_store \<Rightarrow> 'v option" where
  "pst_get k s = im_get k (pst_memory_store s)"

definition pst_flush :: "('k, 'v) persistent_store \<Rightarrow> bool \<times> ('k, 'v) persistent_store" where
  "pst_flush s = (True, s)"

section \<open>Windows\<close>

datatype window_type = Tumbling | Hopping | Sliding | Session

record time_window =
  tw_window_type :: window_type
  tw_size :: duration
  tw_advance :: "duration option"

definition tumbling :: "duration \<Rightarrow> time_window" where
  "tumbling sz = \<lparr>tw_window_type = Tumbling, tw_size = sz, tw_advance = None\<rparr>"

definition hopping :: "duration \<Rightarrow> duration \<Rightarrow> time_window" where
  "hopping sz advance = \<lparr>tw_window_type = Hopping, tw_size = sz, tw_advance = Some advance\<rparr>"

definition sliding :: "duration \<Rightarrow> time_window" where
  "sliding sz = \<lparr>tw_window_type = Sliding, tw_size = sz, tw_advance = None\<rparr>"

record session_window =
  sw_inactivity_gap :: duration

definition with_gap :: "duration \<Rightarrow> session_window" where
  "with_gap gap = \<lparr>sw_inactivity_gap = gap\<rparr>"

datatype window = WTime time_window | WSession session_window

fun window_type_of :: "window \<Rightarrow> window_type" where
  "window_type_of (WTime w) = tw_window_type w"
| "window_type_of (WSession _) = Session"

section \<open>The simple stream processor\<close>

text \<open>
  \<open>process\<close>: the loop over the received messages; \<open>timestamp\<close> is the clock in seconds, \<open>publish\<close> the
  producer's call.
\<close>

definition process_stage ::
  "(string \<Rightarrow> string option) \<Rightarrow> (string \<Rightarrow> string \<Rightarrow> string \<Rightarrow> 'w \<Rightarrow> unit answer \<times> 'w) \<Rightarrow> string \<Rightarrow>
   ('w, int \<times> string, 'b) stage" where
  "process_stage processor publish output_topic w x =
     (case x of (timestamp, message) \<Rightarrow>
        (case processor message of
           Some transformed \<Rightarrow>
             (case publish output_topic transformed (''key-'' @ show_int timestamp) w of (res, w') \<Rightarrow> (print_error res, w'))
         | None \<Rightarrow> (Ret [], w)))"

text \<open>
  \<open>aggregate\<close>: received messages go to the buffer, a tick of the interval sends the aggregate of a
  non-empty buffer and clears it. \<open>wt_out\<close> is what was sent.
\<close>

record window_task =
  wt_buffer :: "string list"
  wt_out :: "(string \<times> string) list"

definition wt_new :: window_task where
  "wt_new = \<lparr>wt_buffer = [], wt_out = []\<rparr>"

definition wt_message :: "string \<Rightarrow> window_task \<Rightarrow> window_task" where
  "wt_message m w = w\<lparr>wt_buffer := wt_buffer w @ [m]\<rparr>"

definition wt_tick :: "(string list \<Rightarrow> string) \<Rightarrow> int \<Rightarrow> window_task \<Rightarrow> window_task" where
  "wt_tick aggregator timestamp w =
     (if wt_buffer w = [] then w
      else w\<lparr>wt_out := wt_out w @ [(''agg-'' @ show_int timestamp, aggregator (wt_buffer w))], wt_buffer := []\<rparr>)"

section \<open>The stream builder\<close>

text \<open>The key and the value of a record are both parsed from the whole message.\<close>

definition builder_stage ::
  "(string \<Rightarrow> 'k option) \<Rightarrow> (string \<Rightarrow> 'v option) \<Rightarrow> (unit, string, ('k, 'v) stream_record) stage" where
  "builder_stage parse_k parse_v st message =
     (case (parse_k message, parse_v message) of
        (Some k, Some v) \<Rightarrow>
          (Ret [\<lparr>sr_key = k, sr_value = v, sr_timestamp = 0, sr_partition = 0, sr_offset = 0\<rparr>], st)
      | _ \<Rightarrow> (Ret [], st))"

section \<open>The exported placeholders\<close>

text \<open>
  What \<^verbatim>\<open>streams/src/lib.rs\<close> itself declares, beside the modules above, and the table of
  \<^verbatim>\<open>streams/src/ktable.rs\<close>: types with at most a constructor. \<open>PhantomData\<close> is a value without content.
\<close>

datatype ('k, 'v) lib_kstream = LibKStream

datatype ('k, 'v) lib_ktable = LibKTable

record lib_stream_builder =
  lb_broker_address :: string

definition lb_new :: "string \<Rightarrow> lib_stream_builder" where
  "lb_new broker_address = \<lparr>lb_broker_address = broker_address\<rparr>"

datatype lib_window_type = LibTumbling | LibHopping | LibSliding | LibSession

record lib_time_window =
  lw_window_type :: lib_window_type
  lw_size :: duration

record lib_session_window =
  lw_inactivity_gap :: duration

record ('k, 'v) lib_in_memory_store =
  li_store :: "('k, 'v) hashmap"

definition li_new :: "('k, 'v) lib_in_memory_store" where
  "li_new = \<lparr>li_store = []\<rparr>"

datatype ('k, 'v) lib_persistent_store = LibPersistentStore

datatype ('k, 'v) ktable = KTable

definition kt_new :: "('k, 'v) ktable" where
  "kt_new = KTable"

section \<open>Interface: a state store\<close>

text \<open>The trait \<open>StateStore\<close>: what the stream code may rely on.\<close>

datatype ('k, 'v) store_op = SPut 'k 'v | SDelete 'k

fun spec_op :: "('k, 'v) store_op \<Rightarrow> ('k \<Rightarrow> 'v option) \<Rightarrow> 'k \<Rightarrow> 'v option" where
  "spec_op (SPut k v) m = m(k := Some v)"
| "spec_op (SDelete k) m = m(k := None)"

fun store_op_run :: "('k \<Rightarrow> 'v \<Rightarrow> 's \<Rightarrow> 's) \<Rightarrow> ('k \<Rightarrow> 's \<Rightarrow> 'v option \<times> 's) \<Rightarrow> ('k, 'v) store_op \<Rightarrow> 's \<Rightarrow> 's" where
  "store_op_run put delete (SPut k v) s = put k v s"
| "store_op_run put delete (SDelete k) s = snd (delete k s)"

locale state_store =
  fixes put :: "'k \<Rightarrow> 'v \<Rightarrow> 's \<Rightarrow> 's"
    and get :: "'k \<Rightarrow> 's \<Rightarrow> 'v option"
    and delete :: "'k \<Rightarrow> 's \<Rightarrow> 'v option \<times> 's"
  assumes get_put: "get k' (put k v s) = (if k' = k then Some v else get k' s)"
    and get_delete: "get k' (snd (delete k s)) = (if k' = k then None else get k' s)"
    and delete_result: "fst (delete k s) = get k s"
begin

lemma run_refines:
  "(\<lambda>k. get k (fold (store_op_run put delete) ops s)) = fold spec_op ops (\<lambda>k. get k s)"
proof (induction ops arbitrary: s)
  case (Cons e ops)
  have "(\<lambda>k. get k (store_op_run put delete e s)) = spec_op e (\<lambda>k. get k s)"
    by (cases e) (auto simp: get_put get_delete fun_eq_iff)
  with Cons show ?case by simp
qed simp

end

lemma im_get_new [simp]: "im_get k im_new = None"
  by (simp add: im_get_def im_new_def)

interpretation mem_store: state_store im_put im_get im_delete
  by unfold_locales (simp_all add: im_put_def im_get_def im_delete_def hashmap_simps)

section \<open>Interface: aggregation by key\<close>

text \<open>The values of a key in a list of records, and the running fold over them.\<close>

definition key_values :: "'k \<Rightarrow> ('k, 'v) stream_record list \<Rightarrow> 'v list" where
  "key_values k rs = map sr_value (filter (\<lambda>r. sr_key r = k) rs)"

definition key_fold :: "('a option \<Rightarrow> 'v \<Rightarrow> 'a) \<Rightarrow> 'k \<Rightarrow> ('k, 'v) stream_record list \<Rightarrow> 'a option \<Rightarrow> 'a option" where
  "key_fold f k rs a = fold (\<lambda>v a. Some (f a v)) (key_values k rs) a"

lemma key_values_simps [simp]:
  "key_values k [] = []"
  "key_values k (r # rs) = (if sr_key r = k then [sr_value r] else []) @ key_values k rs"
  by (simp_all add: key_values_def)

lemma key_values_take: "i < length rs \<Longrightarrow> key_values (sr_key (rs ! i)) (take (Suc i) rs) \<noteq> []"
  by (auto simp: key_values_def filter_empty_conv take_Suc_conv_app_nth)

lemma key_values_take_le: "length (key_values k (take i rs)) \<le> length rs"
  by (simp add: key_values_def) (metis length_filter_le length_take min.cobounded1 order_trans)

locale keyed_fold =
  fixes stage :: "(('k, 'a) hashmap, ('k, 'v) stream_record, ('k, 'a) stream_record) stage"
    and f :: "'a option \<Rightarrow> 'v \<Rightarrow> 'a"
  assumes stage_step: "stage m r =
    (Ret [with_value r (f (hm_get m (sr_key r)) (sr_value r))],
     hm_insert (sr_key r) (f (hm_get m (sr_key r)) (sr_value r)) m)"
begin

text \<open>Every record comes out once, with the running fold over the values of its key so far.\<close>

lemma running:
  "run_stage stage m rs = (out, r, m') \<Longrightarrow> r = Ret () \<and> length out = length rs
   \<and> (\<forall>i < length rs. \<exists>v. key_fold f (sr_key (rs ! i)) (take (Suc i) rs) (hm_get m (sr_key (rs ! i))) = Some v
        \<and> out ! i = with_value (rs ! i) v)"
proof (induction rs arbitrary: m out)
  case (Cons x rs)
  let ?v = "f (hm_get m (sr_key x)) (sr_value x)"
  let ?m = "hm_insert (sr_key x) ?v m"
  obtain out1 where o: "run_stage stage ?m rs = (out1, r, m')" "out = with_value x ?v # out1"
    using Cons.prems by (auto simp: stage_step [of m x] split: prod.splits)
  note IH = Cons.IH [OF o(1)]
  have step: "key_fold f k (x # ys) (hm_get m k) = key_fold f k ys (hm_get ?m k)" for k ys
    by (simp add: key_fold_def hashmap_simps)
  have "\<exists>v. key_fold f (sr_key ((x # rs) ! i)) (take (Suc i) (x # rs)) (hm_get m (sr_key ((x # rs) ! i))) = Some v
      \<and> out ! i = with_value ((x # rs) ! i) v" if "i < length (x # rs)" for i
  proof (cases i)
    case 0
    then show ?thesis using o(2) by (simp add: key_fold_def)
  next
    case (Suc j)
    then show ?thesis using IH that o(2) step by simp
  qed
  with IH o(2) show ?case by simp
qed simp

end

interpretation count_fold: keyed_fold "count_stage False"
  "\<lambda>a _. case a of Some n \<Rightarrow> (if in_u 64 (int n + 1) then Suc n else wrap_u 64 (int n + 1)) | None \<Rightarrow> 1"
  by unfold_locales
    (auto simp: count_stage_def arith_u_def in_u_def nat_add_distrib Let_def split: option.splits)

interpretation aggregate_fold: keyed_fold "aggregate_stage initializer aggregator"
  "\<lambda>a v. aggregator (case a of Some x \<Rightarrow> x | None \<Rightarrow> initializer) v"
  by unfold_locales (simp add: aggregate_stage_def Let_def)

interpretation reduce_fold: keyed_fold "reduce_stage reducer"
  "\<lambda>a v. case a of Some x \<Rightarrow> reducer x v | None \<Rightarrow> v"
  by unfold_locales (auto simp: reduce_stage_def Let_def split: option.splits)

section \<open>The folds in closed form\<close>

lemma fold_running_Some: "fold (\<lambda>v a. Some (f a v)) vs (Some a) = Some (foldl (\<lambda>a. f (Some a)) a vs)"
  by (induction vs arbitrary: a) simp_all

lemma key_fold_running:
  assumes "key_values k rs \<noteq> []"
  shows "key_fold f k rs None = Some (foldl (\<lambda>a. f (Some a)) (f None (hd (key_values k rs))) (tl (key_values k rs)))"
  using assms by (cases "key_values k rs") (simp_all add: key_fold_def fold_running_Some)

lemma foldl_hd_tl: "vs \<noteq> [] \<Longrightarrow> foldl g (g e (hd vs)) (tl vs) = foldl g e vs"
  by (cases vs) simp_all

lemma count_run:
  assumes "n + length vs < 2 ^ 64"
  shows "foldl (\<lambda>n _. if in_u 64 (int n + 1) then Suc n else wrap_u 64 (int n + 1)) n vs = n + length vs"
  using assms by (induction vs arbitrary: n) (simp_all add: in_u_def)

text \<open>While a counter cannot overflow, the build profile does not matter.\<close>

lemma count_stage_profile:
  assumes "\<forall>k n. hm_get m k = Some n \<longrightarrow> n + length rs < 2 ^ 64" and "length rs < 2 ^ 64"
  shows "run_stage (count_stage ovf) m rs = run_stage (count_stage False) m rs"
  using assms
proof (induction rs arbitrary: m)
  case (Cons x rs)
  let ?n = "case hm_get m (sr_key x) of Some n \<Rightarrow> n | None \<Rightarrow> 0"
  have n: "?n + length (x # rs) < 2 ^ 64" using Cons.prems by (auto split: option.split)
  then have "in_u 64 (int ?n + 1)" by (auto simp: in_u_def)
  then have step: "count_stage w m x = (Ret [with_value x (Suc ?n)], hm_insert (sr_key x) (Suc ?n) m)" for w
    by (simp add: count_stage_def Let_def nat_add_distrib del: of_nat_Suc)
  have "\<forall>k n'. hm_get (hm_insert (sr_key x) (Suc ?n) m) k = Some n' \<longrightarrow> n' + length rs < 2 ^ 64"
  proof (intro allI impI)
    fix k n' assume "hm_get (hm_insert (sr_key x) (Suc ?n) m) k = Some n'"
    then have "n' = Suc ?n \<or> hm_get m k = Some n'" by (auto simp: hashmap_simps split: if_splits)
    then show "n' + length rs < 2 ^ 64" using n Cons.prems(1) by fastforce
  qed
  then have "run_stage (count_stage ovf) (hm_insert (sr_key x) (Suc ?n) m) rs =
      run_stage (count_stage False) (hm_insert (sr_key x) (Suc ?n) m) rs"
    using Cons.prems(2) by (intro Cons.IH) simp_all
  then show ?case by (simp add: step)
qed simp

section \<open>Merging\<close>

lemma merge_loop_fuel:
  "merge_loop pick fuel i xs ys = None \<longleftrightarrow> fuel \<le> length xs + length ys"
  by (induction pick fuel i xs ys rule: merge_loop.induct) auto

lemma merge_loop_shuffles:
  "merge_loop pick fuel i xs ys = Some zs \<Longrightarrow> zs \<in> shuffles xs ys"
  by (induction pick fuel i xs ys arbitrary: zs rule: merge_loop.induct)
    (auto simp: Cons_in_shuffles_leftI Cons_in_shuffles_rightI split: if_splits)

section \<open>Branches\<close>

fun sent_records :: "'a branch_event list \<Rightarrow> 'a list" where
  "sent_records [] = []"
| "sent_records (BSend r # es) = r # sent_records es"
| "sent_records (BPoll # es) = sent_records es"

lemma branch_lagged_silent:
  "br_lagged rx \<Longrightarrow> fst (branch_run cap predicate es rx) = [] \<and> br_lagged (snd (branch_run cap predicate es rx))"
proof (induction es arbitrary: rx)
  case (Cons e es)
  obtain out rx' where s: "branch_step cap predicate e rx = (out, rx')" by fastforce
  have "out = [] \<and> br_lagged rx'" using s Cons.prems by (cases e) (auto split: if_splits)
  with Cons.IH [of rx'] s show ?case by (auto split: prod.splits)
qed simp

lemma branch_keeps_up:
  assumes "branch_run cap predicate es rx = (out, rx')" and "\<not> br_lagged rx'" and "\<not> br_ended rx" and "\<not> br_lagged rx"
  shows "filter predicate (br_pending rx @ sent_records es) = out @ filter predicate (br_pending rx') \<and> \<not> br_ended rx'"
  using assms
proof (induction es arbitrary: rx out)
  case (Cons e es)
  obtain out1 rx1 where s: "branch_step cap predicate e rx = (out1, rx1)" by fastforce
  obtain out2 where r: "branch_run cap predicate es rx1 = (out2, rx')" "out = out1 @ out2"
    using Cons.prems(1) s by (auto split: prod.splits)
  have nl: "\<not> br_lagged rx1" using branch_lagged_silent [of rx1 cap predicate es] r(1) Cons.prems(2) by auto
  have "\<not> br_ended rx1" and step: "filter predicate (br_pending rx @ sent_records [e]) = out1 @ filter predicate (br_pending rx1)"
    using s Cons.prems(3,4) nl by (cases e; auto split: if_splits list.splits)+
  have "filter predicate (br_pending rx @ sent_records (e # es)) =
      filter predicate (br_pending rx @ sent_records [e]) @ filter predicate (sent_records es)"
    by (cases e) simp_all
  also have "\<dots> = out1 @ filter predicate (br_pending rx1 @ sent_records es)" unfolding step by simp
  finally show ?case using Cons.IH [OF r(1) Cons.prems(2) \<open>\<not> br_ended rx1\<close> nl] r(2) by simp
qed simp

section \<open>Windows of the simple stream\<close>

interpretation window_buffer: fifo_buffer
  "\<lambda>_ :: unit. wt_message" "\<lambda>(agg, ts) w. (wt_buffer w, wt_tick agg ts w)" wt_buffer "\<lambda>_. True"
  by unfold_locales (auto simp: wt_message_def wt_tick_def)

section \<open>Properties\<close>

text \<open>
  Property C38: grouped streams compute running aggregates. For every input, \<open>count\<close>, \<open>aggregate\<close> and
  \<open>reduce\<close> yield one record per input record, in order and with its key and metadata, and its value
  is, respectively, the number, the left fold from the initializer and the left fold from the
  first value, of the values with the same key up to and including that record.
\<close>

theorem grouped_running_aggregates:
  assumes "length rs < 2 ^ 64"
    and "run_stage (count_stage ovf) [] rs = (cs, rc, mc)"
    and "run_stage (aggregate_stage initializer aggregator) [] rs = (as, ra, ma)"
    and "run_stage (reduce_stage reducer) [] rs = (ds, rd, md)"
  shows "rc = Ret () \<and> ra = Ret () \<and> rd = Ret ()
     \<and> length cs = length rs \<and> length as = length rs \<and> length ds = length rs
     \<and> (\<forall>i < length rs. let vs = key_values (sr_key (rs ! i)) (take (Suc i) rs) in
          cs ! i = with_value (rs ! i) (length vs)
        \<and> as ! i = with_value (rs ! i) (foldl aggregator initializer vs)
        \<and> ds ! i = with_value (rs ! i) (foldl reducer (hd vs) (tl vs)))"
proof -
  have c: "run_stage (count_stage False) [] rs = (cs, rc, mc)"
    using assms(1,2) count_stage_profile [of "[]" rs ovf] by simp
  note runs = count_fold.running [OF c] aggregate_fold.running [OF assms(3)] reduce_fold.running [OF assms(4)]
  show ?thesis
  proof (intro conjI allI impI)
    fix i assume i: "i < length rs"
    let ?vs = "key_values (sr_key (rs ! i)) (take (Suc i) rs)"
    note ne = key_values_take [OF i]
    have "Suc (length (tl ?vs)) = length ?vs" using ne by (cases ?vs) simp_all
    moreover have "length ?vs < 2 ^ 64" using key_values_take_le assms(1) by (rule le_less_trans)
    ultimately have len: "foldl (\<lambda>n _. if in_u 64 (int n + 1) then Suc n else wrap_u 64 (int n + 1)) 1 (tl ?vs) = length ?vs"
      by (subst count_run) simp_all
    have "cs ! i = with_value (rs ! i) (length ?vs)"
      using runs(1) i len by (auto simp: key_fold_running [OF ne] fun_eq_iff)
    moreover have "as ! i = with_value (rs ! i) (foldl aggregator initializer ?vs)"
      using runs(2) i by (auto simp: key_fold_running [OF ne] foldl_hd_tl [OF ne])
    moreover have "ds ! i = with_value (rs ! i) (foldl reducer (hd ?vs) (tl ?vs))"
      using runs(3) i by (auto simp: key_fold_running [OF ne])
    ultimately show "let vs = ?vs in cs ! i = with_value (rs ! i) (length vs)
        \<and> as ! i = with_value (rs ! i) (foldl aggregator initializer vs)
        \<and> ds ! i = with_value (rs ! i) (foldl reducer (hd vs) (tl vs))"
      by (simp add: Let_def)
  qed (use runs in simp_all)
qed

definition example_record :: "nat \<Rightarrow> int \<Rightarrow> (nat, int) stream_record" where
  "example_record k v = \<lparr>sr_key = k, sr_value = v, sr_timestamp = 0, sr_partition = 0, sr_offset = 0\<rparr>"

lemma triple_collapse: "x = (fst x, fst (snd x), snd (snd x))"
  by simp

theorem grouped_running_aggregates_witness:
  "fst (run_stage (reduce_stage (\<lambda>a b. a - b)) [] [example_record 1 7, example_record 2 5, example_record 1 3]) ! 2
     = example_record 1 4"
proof -
  let ?rs = "[example_record 1 7, example_record 2 5, example_record 1 3]"
  let ?ds = "fst (run_stage (reduce_stage (\<lambda>a b. a - b)) [] ?rs)"
  have "\<forall>i < length ?rs. let vs = key_values (sr_key (?rs ! i)) (take (Suc i) ?rs) in
      ?ds ! i = with_value (?rs ! i) (foldl (\<lambda>a b. a - b) (hd vs) (tl vs))"
    using grouped_running_aggregates [OF _ triple_collapse triple_collapse triple_collapse,
        of ?rs True "0 :: int" "(+)" "\<lambda>a b. a - b"]
    by (simp add: Let_def)
  then have "?ds ! 2 = with_value (?rs ! 2) (foldl (\<lambda>a b. a - b) 7 [3])"
    by (auto simp: example_record_def Let_def dest!: spec [of _ 2])
  then show ?thesis by (simp add: example_record_def with_value_def)
qed

text \<open>
  Property C39: merging two finite streams ends and loses nothing. Whatever branch \<open>select!\<close> picks,
  the loop takes exactly one turn per record and a last one to end, and what it yields is an
  interleaving of the two streams that keeps the order of each.
\<close>

theorem merge_terminates:
  "(\<exists>zs. merge_loop pick (length xs + length ys + 1) 0 xs ys = Some zs \<and> zs \<in> shuffles xs ys)
   \<and> merge_loop pick (length xs + length ys) 0 xs ys = None"
proof -
  obtain zs where "merge_loop pick (length xs + length ys + 1) 0 xs ys = Some zs"
    using merge_loop_fuel [of pick "length xs + length ys + 1" 0 xs ys] by auto
  then show ?thesis using merge_loop_shuffles merge_loop_fuel [of pick "length xs + length ys" 0 xs ys] by blast
qed

text \<open>
  A slow branch is cut off. As long as a branch is never more than the capacity of the
  channel behind, it has yielded exactly the matching records that it has taken, in order; once it
  was too far behind, it yields nothing any more, not even the records that are still queued.
\<close>

lemma branch_complete_or_cut:
  assumes "branch_run cap predicate es br_new = (out, rx)"
  shows "(\<not> br_lagged rx \<longrightarrow> out @ filter predicate (br_pending rx) = filter predicate (sent_records es))
     \<and> (br_lagged rx \<longrightarrow> (\<forall>es'. fst (branch_run cap predicate es' rx) = []))"
proof -
  have "out @ filter predicate (br_pending rx) = filter predicate (sent_records es)" if "\<not> br_lagged rx"
    using branch_keeps_up [OF assms that] by (simp add: br_new_def)
  then show ?thesis using branch_lagged_silent by blast
qed

lemma branch_complete_or_cut_example:
  "fst (branch_run 2 (\<lambda>n. n > (0 :: nat)) [BPoll, BPoll]
     (snd (branch_run 2 (\<lambda>n. n > 0) [BSend 1, BPoll, BSend 2, BSend 3, BSend 4] br_new))) = []"
  using branch_complete_or_cut [OF surjective_pairing, of 2 "\<lambda>n. n > (0 :: nat)" "[BSend 1, BPoll, BSend 2, BSend 3, BSend 4]"]
  by (simp add: br_new_def)

text \<open>
  The in-memory store refines a finite map: after any sequence of insertions and
  deletions it answers like the map the specification computes.
\<close>

lemma store_refines_map:
  "im_get k (fold (store_op_run im_put im_delete) ops im_new) = fold spec_op ops (\<lambda>_. None) k"
  using fun_cong [OF mem_store.run_refines [of ops im_new], of k] by simp

end
