(* ===== verification/Stream_Programs.thy ===== *)
theory Stream_Programs
  imports Streams Delivery Producer
begin

text \<open>
  The streams of \<^verbatim>\<open>crates/streams/src/simple_stream.rs\<close> and \<^verbatim>\<open>crates/streams/src/builder.rs\<close> with the
  clients they are made of: a consumer of the input topic, a producer for the output topic and a task
  between them. The operators themselves are in the theory \<open>Streams\<close>.
\<close>

section \<open>Clients of a stream\<close>

text \<open>
  Everything outside the stream: the gRPC client for an address and whether it could connect, the answer of the call
  \<open>consume\<close>, the text of a lag, what becomes of the messages in the consumer's channel, the check of the
  producer's address, its connections and calls, fresh identifiers and the clock in seconds.
\<close>

record ('c, 'w) stream_env =
  se_client :: "string \<Rightarrow> 'w client \<times> bool"
  se_opened :: "string \<Rightarrow> string \<Rightarrow> string \<Rightarrow> 'w \<Rightarrow> channel_poll list answer \<times> 'w"
  se_lag_text :: "nat \<Rightarrow> string"
  se_app :: "nat \<Rightarrow> app_send"
  se_endpoint :: "string \<Rightarrow> string + unit"
  se_dial :: "nat \<Rightarrow> string + 'c"
  se_rpc :: "('c, 'w) publish_rpc"
  se_consumer_id :: string
  se_producer_id :: string
  se_timestamp :: "nat \<Rightarrow> int"

definition subscribed_consumer :: "('c, 'w) stream_env \<Rightarrow> string \<Rightarrow> string \<Rightarrow> 'w \<Rightarrow> consumer answer \<times> 'w" where
  "subscribed_consumer se address topic w =
     (case se_client se address of (cl, conn_ok) \<Rightarrow>
        (case co_new cl conn_ok (se_consumer_id se) None w of
           (Ret (Inr c), w1) \<Rightarrow>
             (case co_subscribe cl topic c w1 of
                (Ret (Inr _), c1, w2) \<Rightarrow> (Ret (Inr c1), w2)
              | (Ret (Inl e), _, w2) \<Rightarrow> (Ret (Inl e), w2)
              | (Panic, _, w2) \<Rightarrow> (Panic, w2)
              | (Block, _, w2) \<Rightarrow> (Block, w2))
         | (Ret (Inl e), w1) \<Rightarrow> (Ret (Inl e), w1)
         | (Panic, w1) \<Rightarrow> (Panic, w1)
         | (Block, w1) \<Rightarrow> (Block, w1)))"

text \<open>\<open>producer.publish\<close> with the producer and the number of the call as part of the state.\<close>

definition publish_call ::
  "('c, 'w) stream_env \<Rightarrow> string \<Rightarrow> string \<Rightarrow> string \<Rightarrow> nat \<times> 'c producer \<times> 'w \<Rightarrow> unit answer \<times> nat \<times> 'c producer \<times> 'w" where
  "publish_call se topic message key st =
     (case st of (i, pd, w) \<Rightarrow>
        (case pd_publish (se_dial se i) (se_rpc se) topic message key pd w of
           (Ret (Inr _), pd', w') \<Rightarrow> (Ret (Inr ()), Suc i, pd', w')
         | (Ret (Inl e), pd', w') \<Rightarrow> (Ret (Inl e), Suc i, pd', w')
         | (Panic, pd', w') \<Rightarrow> (Panic, Suc i, pd', w')
         | (Block, pd', w') \<Rightarrow> (Block, Suc i, pd', w')))"

section \<open>The simple stream\<close>

record simple_stream =
  ss_broker_address :: string

definition ss_new :: "string \<Rightarrow> simple_stream" where
  "ss_new broker_address = \<lparr>ss_broker_address = broker_address\<rparr>"

text \<open>
  The spawned task of \<open>process\<close> on the messages of the receiver, and how it ends: after the last message
  if the receiver ends there, else it waits for the next one.
\<close>

definition process_task ::
  "('c, 'w) stream_env \<Rightarrow> (string \<Rightarrow> string option) \<Rightarrow> string \<Rightarrow> string list \<Rightarrow> bool \<Rightarrow> 'c producer \<Rightarrow> 'w \<Rightarrow>
   unit outcome \<times> 'c producer \<times> 'w" where
  "process_task se processor output_topic ms ends pd w =
     (case run_stage (process_stage processor (publish_call se) output_topic) (0, pd, w)
             (map (\<lambda>k. (se_timestamp se k, ms ! k)) [0..<length ms]) :: unit list \<times> unit outcome \<times> nat \<times> 'c producer \<times> 'w of
        (_, Ret _, _, pd', w') \<Rightarrow> (if ends then Ret () else Block, pd', w')
      | (_, Panic, _, pd', w') \<Rightarrow> (Panic, pd', w')
      | (_, Block, _, pd', w') \<Rightarrow> (Block, pd', w'))"

text \<open>
  \<open>SimpleStream::process\<close> with its task. The consumer's task and this one run at the same time in the
  program; here the calls of the former come first. The first result is that of the function, the
  second that of the task, if there is one.
\<close>

definition ss_process ::
  "('c, 'w) stream_env \<Rightarrow> simple_stream \<Rightarrow> string \<Rightarrow> string \<Rightarrow> (string \<Rightarrow> string option) \<Rightarrow> 'w \<Rightarrow>
   unit answer \<times> unit outcome option \<times> 'w" where
  "ss_process se st input_topic output_topic processor w =
     (case subscribed_consumer se (ss_broker_address st) input_topic w of
        (Ret (Inr c), w1) \<Rightarrow>
          (case pd_new (se_endpoint se (ss_broker_address st)) (se_producer_id se) of
             Inl e \<Rightarrow> (Ret (Inl e), None, w1)
           | Inr pd \<Rightarrow>
               (case co_consume (se_lag_text se) (se_opened se) (fst (se_client se (ss_broker_address st))) (se_app se) c input_topic w1 of
                  (Ret (Inr (ms, ends)), w2) \<Rightarrow>
                    (case process_task se processor output_topic ms ends pd w2 of (r, _, w3) \<Rightarrow> (Ret (Inr ()), Some r, w3))
                | (Ret (Inl e), w2) \<Rightarrow> (Ret (Inl e), None, w2)
                | (Panic, w2) \<Rightarrow> (Panic, None, w2)
                | (Block, w2) \<Rightarrow> (Block, None, w2)))
      | (Ret (Inl e), w1) \<Rightarrow> (Ret (Inl e), None, w1)
      | (Panic, w1) \<Rightarrow> (Panic, None, w1)
      | (Block, w1) \<Rightarrow> (Block, None, w1))"

text \<open>
  \<open>SimpleStream::aggregate\<close>: \<open>sched\<close> is the order in which \<open>select!\<close> takes the messages and the ticks of the
  interval, \<open>None\<close> for a message and \<open>Some t\<close> for a tick at time \<open>t\<close>. The task never ends; its state after the
  schedule is given back.
\<close>

fun aggregate_task :: "(string list \<Rightarrow> string) \<Rightarrow> int option list \<Rightarrow> string list \<Rightarrow> window_task \<Rightarrow> window_task" where
  "aggregate_task aggregator [] ms wt = wt"
| "aggregate_task aggregator (Some t # sched) ms wt = aggregate_task aggregator sched ms (wt_tick aggregator t wt)"
| "aggregate_task aggregator (None # sched) (m # ms) wt = aggregate_task aggregator sched ms (wt_message m wt)"
| "aggregate_task aggregator (None # sched) [] wt = aggregate_task aggregator sched [] wt"

definition ss_aggregate ::
  "('c, 'w) stream_env \<Rightarrow> simple_stream \<Rightarrow> string \<Rightarrow> (string list \<Rightarrow> string) \<Rightarrow> int option list \<Rightarrow> 'w \<Rightarrow>
   window_task answer \<times> 'w" where
  "ss_aggregate se st topic aggregator sched w =
     (case subscribed_consumer se (ss_broker_address st) topic w of
        (Ret (Inr c), w1) \<Rightarrow>
          (case co_consume (se_lag_text se) (se_opened se) (fst (se_client se (ss_broker_address st))) (se_app se) c topic w1 of
             (Ret (Inr (ms, _)), w2) \<Rightarrow> (Ret (Inr (aggregate_task aggregator sched ms wt_new)), w2)
           | (Ret (Inl e), w2) \<Rightarrow> (Ret (Inl e), w2)
           | (Panic, w2) \<Rightarrow> (Panic, w2)
           | (Block, w2) \<Rightarrow> (Block, w2))
      | (Ret (Inl e), w1) \<Rightarrow> (Ret (Inl e), w1)
      | (Panic, w1) \<Rightarrow> (Panic, w1)
      | (Block, w1) \<Rightarrow> (Block, w1))"

section \<open>The stream builder\<close>

record stream_builder =
  sb_broker_address :: string

definition sb_new :: "string \<Rightarrow> stream_builder" where
  "sb_new broker_address = \<lparr>sb_broker_address = broker_address\<rparr>"

definition sb_producer :: "('c, 'w) stream_env \<Rightarrow> stream_builder \<Rightarrow> string + 'c producer" where
  "sb_producer se b = pd_new (se_endpoint se (sb_broker_address b)) (se_producer_id se)"

section \<open>What the tasks do\<close>

text \<open>The requests for the transformed messages, in order.\<close>

definition transformed_requests ::
  "string \<Rightarrow> string \<Rightarrow> (string \<Rightarrow> string option) \<Rightarrow> (int \<times> string) list \<Rightarrow> publish_request list" where
  "transformed_requests pid topic processor xs =
     List.map_filter (\<lambda>(t, m). map_option (\<lambda>y. request_of pid (topic, y, ''key-'' @ show_int t)) (processor m)) xs"

text \<open>
  The other side answers every call, with success or an error, and keeps the requests it gets;
  connections can be made.
\<close>

definition answered_calls :: "('c, 'w) stream_env \<Rightarrow> ('w \<Rightarrow> publish_request list) \<Rightarrow> bool" where
  "answered_calls se requests \<longleftrightarrow>
     (\<forall>i. \<exists>c. se_dial se i = Inr c) \<and> (\<forall>c q w. \<exists>x w'. se_rpc se c q w = (Ret x, w') \<and> requests w' = requests w @ [q])"

lemma publish_call_answered:
  assumes "answered_calls se requests"
  obtains x i' pd' w' where "publish_call se topic message key (i, pd, w) = (Ret x, i', pd', w')"
    and "pd_producer_id pd' = pd_producer_id pd"
    and "requests w' = requests w @ [request_of (pd_producer_id pd) (topic, message, key)]"
proof -
  obtain c0 where dial: "se_dial se i = Inr c0" using assms unfolding answered_calls_def by meson
  obtain c pool where c: "cp_get_connection (Inr c0) (pd_pool pd) = (Inr c, pool)"
    by (cases "cp_connections (pd_pool pd) = []") (auto simp: cp_get_connection_def)
  let ?q = "request_of (pd_producer_id pd) (topic, message, key)"
  obtain x w' where rpc: "se_rpc se c ?q w = (Ret x, w')" and log: "requests w' = requests w @ [?q]"
    using assms by (fastforce simp: answered_calls_def)
  show ?thesis
  proof (cases x)
    case (Inl e)
    show ?thesis by (rule that [of "Inl e" "Suc i" "pd\<lparr>pd_pool := pool\<rparr>" w'])
        (use dial c rpc log Inl in \<open>simp_all add: publish_call_def pd_publish_def\<close>)
  next
    case (Inr y)
    show ?thesis by (rule that [of "Inr ()" "Suc i" "pd\<lparr>pd_pool := cp_return_connection c pool\<rparr>" w'])
        (use dial c rpc log Inr in \<open>simp_all add: publish_call_def pd_publish_def\<close>)
  qed
qed

lemma process_stage_message:
  "process_stage processor put topic w (t, m) =
     (case processor m of
        Some y \<Rightarrow> (case put topic y (''key-'' @ show_int t) w of (res, w') \<Rightarrow> (print_error res, w'))
      | None \<Rightarrow> (Ret [], w))"
  by (simp add: process_stage_def)

lemma process_stage_run:
  assumes "answered_calls se requests"
    and "run_stage (process_stage processor (publish_call se) topic) (i, pd, w) xs = (out :: unit list, r, j, pd', w')"
  shows "r = Ret () \<and> requests w' = requests w @ transformed_requests (pd_producer_id pd) topic processor xs"
  using assms(2)
proof (induction xs arbitrary: i pd w out)
  case (Cons x xs)
  obtain t m where x: "x = (t, m)" by (cases x)
  show ?case
  proof (cases "processor m")
    case None
    then obtain out1 where "run_stage (process_stage processor (publish_call se) topic) (i, pd, w) xs = (out1 :: unit list, r, j, pd', w')"
      using Cons.prems x by (auto simp: process_stage_message split: prod.splits)
    from Cons.IH [OF this] show ?thesis using x None by (simp add: transformed_requests_def map_filter_simps)
  next
    case (Some y)
    obtain z i1 pd1 w1 where call: "publish_call se topic y (''key-'' @ show_int t) (i, pd, w) = (Ret z, i1, pd1, w1)"
      and pid: "pd_producer_id pd1 = pd_producer_id pd"
      and log: "requests w1 = requests w @ [request_of (pd_producer_id pd) (topic, y, ''key-'' @ show_int t)]"
      by (rule publish_call_answered [OF assms(1)])
    obtain out1 where "run_stage (process_stage processor (publish_call se) topic) (i1, pd1, w1) xs = (out1 :: unit list, r, j, pd', w')"
      using Cons.prems x Some call by (auto simp: process_stage_message print_error_def split: prod.splits)
    from Cons.IH [OF this] show ?thesis using x Some pid log
      by (simp add: transformed_requests_def map_filter_simps)
  qed
qed (simp add: transformed_requests_def map_filter_simps)

text \<open>
  The chunks that were aggregated, the buffer and the messages not taken yet make up the messages.
\<close>

lemma aggregate_task_chunks:
  "\<exists>chunks rest. wt_buffer wt @ ms = concat chunks @ wt_buffer (aggregate_task aggregator sched ms wt) @ rest
     \<and> map snd (wt_out (aggregate_task aggregator sched ms wt)) = map snd (wt_out wt) @ map aggregator chunks
     \<and> [] \<notin> set chunks"
proof (induction aggregator sched ms wt rule: aggregate_task.induct)
  case (1 aggregator ms wt)
  show ?case by (intro exI [of _ "[]"] exI [of _ ms]) simp
next
  case (2 aggregator t sched ms wt)
  then obtain chunks rest where IH: "wt_buffer (wt_tick aggregator t wt) @ ms =
      concat chunks @ wt_buffer (aggregate_task aggregator sched ms (wt_tick aggregator t wt)) @ rest"
    "map snd (wt_out (aggregate_task aggregator sched ms (wt_tick aggregator t wt))) =
      map snd (wt_out (wt_tick aggregator t wt)) @ map aggregator chunks" "[] \<notin> set chunks"
    by blast
  show ?case
  proof (cases "wt_buffer wt = []")
    case True
    then show ?thesis using IH by (intro exI [of _ chunks] exI [of _ rest]) (simp add: wt_tick_def)
  next
    case False
    then show ?thesis using IH by (intro exI [of _ "wt_buffer wt # chunks"] exI [of _ rest]) (simp add: wt_tick_def)
  qed
qed (simp_all add: wt_message_def)

section \<open>Properties\<close>

text \<open>
  A processing stream publishes what it transforms. If the stream could be set up and the
  other side answers the calls of its producer, with success or not, the task publishes, in the order
  of the messages the consumer yields, exactly those for which the processor gives a text, each once under
  a key made of the time alone; a publish that fails is not repeated. The task ends exactly if the
  receiver does.
\<close>

lemma process_publishes_transformed:
  assumes "answered_calls se requests"
    and "subscribed_consumer se (ss_broker_address st) input_topic w = (Ret (Inr c), w1)"
    and "se_endpoint se (ss_broker_address st) = Inr ()"
    and "co_consume (se_lag_text se) (se_opened se) (fst (se_client se (ss_broker_address st))) (se_app se) c input_topic w1 =
           (Ret (Inr (ms, ends)), w2)"
  shows "\<exists>w3. ss_process se st input_topic output_topic processor w =
       (Ret (Inr ()), Some (if ends then Ret () else Block), w3)
     \<and> requests w3 = requests w2 @
         transformed_requests (se_producer_id se) output_topic processor (map (\<lambda>k. (se_timestamp se k, ms ! k)) [0..<length ms])"
proof -
  let ?xs = "map (\<lambda>k. (se_timestamp se k, ms ! k)) [0..<length ms]"
  let ?pd = "\<lparr>pd_pool = cp_new 10, pd_producer_id = se_producer_id se\<rparr>"
  obtain out r j pd' w3 where run: "run_stage (process_stage processor (publish_call se) output_topic) (0, ?pd, w2) ?xs =
      (out :: unit list, r, j, pd', w3)"
    by (rule prod_cases5)
  from process_stage_run [OF assms(1) run]
  have "r = Ret ()" "requests w3 = requests w2 @ transformed_requests (se_producer_id se) output_topic processor ?xs" by simp_all
  moreover from this(1) have "process_task se processor output_topic ms ends ?pd w2 = (if ends then Ret () else Block, pd', w3)"
    unfolding process_task_def run by simp
  then have "ss_process se st input_topic output_topic processor w = (Ret (Inr ()), Some (if ends then Ret () else Block), w3)"
    by (simp add: ss_process_def assms(2-4) pd_new_def)
  ultimately show ?thesis by blast
qed

definition example_response :: "string \<Rightarrow> consume_response" where
  "example_response payload =
     \<lparr>cr_message_id = ''x'', cr_topic = ''t'', cr_payload = payload, cr_sent_at = 0, cr_offset = 0, cr_partition = 0\<rparr>"

definition example_client :: "'w client" where
  "example_client =
     \<lparr>cl_register = (\<lambda>_ w. (Ret (Inr ()), w)), cl_subscribe = (\<lambda>_ _ _ w. (Ret (Inr ()), w)),
      cl_join_group = (\<lambda>_ _ _ _ _ w. (Ret (Inl []), w)), cl_sync_group = (\<lambda>_ _ _ _ w. (Ret (Inl []), w)),
      cl_heartbeat = (\<lambda>_ _ _ w. (Ret (Inr ()), w)), cl_acknowledge = (\<lambda>_ _ _ _ w. (Ret (Inr ()), w)),
      cl_update_offset = (\<lambda>_ _ _ _ w. (Ret (Inr ()), w))\<rparr>"

definition example_stream_env :: "(unit, publish_request list) stream_env" where
  "example_stream_env =
     \<lparr>se_client = (\<lambda>_. (example_client, True)),
      se_opened = (\<lambda>_ _ _ w. (Ret (Inr [Ready (Some (Inr (example_response ''a''))), Ready (Some (Inr (example_response ''b''))), Ready None]), w)),
      se_lag_text = (\<lambda>_. []), se_app = (\<lambda>_. Accepted), se_endpoint = (\<lambda>_. Inr ()), se_dial = (\<lambda>_. Inr ()),
      se_rpc = (\<lambda>_ q w. (Ret (Inl ''down''), w @ [q])), se_consumer_id = ''c'', se_producer_id = ''p'', se_timestamp = (\<lambda>_. 7)\<rparr>"

lemma process_publishes_transformed_example:
  "ss_process example_stream_env (ss_new ''h:1'') ''t'' ''u'' (\<lambda>m. if m = ''a'' then Some ''z'' else None) [] =
     (Ret (Inr ()), Some (Ret ()), [request_of ''p'' (''u'', ''z'', ''key-7'')])"
proof -
  let ?se = example_stream_env and ?p = "\<lambda>m. if m = ''a'' then Some ''z'' else None"
  have calls: "answered_calls ?se (\<lambda>w. w)" by (simp add: answered_calls_def example_stream_env_def)
  obtain c where sub: "subscribed_consumer ?se (ss_broker_address (ss_new ''h:1'')) ''t'' [] = (Ret (Inr c), [])"
    by (simp add: subscribed_consumer_def example_stream_env_def example_client_def co_new_def co_subscribe_def)
  have cons: "co_consume (se_lag_text ?se) (se_opened ?se) (fst (se_client ?se (ss_broker_address (ss_new ''h:1'')))) (se_app ?se) c ''t'' [] =
      (Ret (Inr ([''a'', ''b''], True)), [])"
    by (simp add: co_consume_def consume_task_def poll_next_def runs_def example_stream_env_def example_client_def example_response_def)
  have seven: "show_int 7 = ''7''" by code_simp
  have "se_endpoint ?se (ss_broker_address (ss_new ''h:1'')) = Inr ()" by (simp add: example_stream_env_def)
  from process_publishes_transformed [OF calls sub this cons, of "''u''" ?p]
  show ?thesis by (simp add: transformed_requests_def map_filter_simps example_stream_env_def seven upt_rec)
qed

text \<open>The aggregation task sends the aggregates of consecutive, non-empty chunks of its input.\<close>

lemma aggregate_task_sends:
  "\<exists>chunks rest. ms = concat chunks @ wt_buffer (aggregate_task aggregator sched ms wt_new) @ rest
     \<and> map snd (wt_out (aggregate_task aggregator sched ms wt_new)) = map aggregator chunks \<and> [] \<notin> set chunks"
  using aggregate_task_chunks [of wt_new ms aggregator sched] by (simp add: wt_new_def)

end
