(* ===== verification/Stream_Pipeline.thy ===== *)
theory Stream_Pipeline
  imports Stream_Programs
begin

text \<open>
  The two tasks of a processing stream at the same time: the task of \<open>Consumer::consume\<close>
  (\<^verbatim>\<open>crates/consumer/src/consumer.rs\<close>), which puts the messages into an \<open>mpsc\<close> channel of capacity 100,
  acknowledges them and records their offsets, and the task of \<open>SimpleStream::process\<close>
  (\<^verbatim>\<open>crates/streams/src/simple_stream.rs\<close>), which takes them out, transforms and publishes them. A step of a
  task goes from one wait to the next; both act on the same broker.
\<close>

section \<open>The tasks\<close>

datatype consumer_pc = Receiving | Acking consume_response | Recording consume_response | Ended | Stuck

datatype task_pc = Running | TaskOver | TaskPanicked | TaskWaits

record ('c, 'w) pipeline =
  pl_input :: "consume_response list"
  pl_consumer :: consumer_pc
  pl_channel :: "string list"
  pl_task :: task_pc
  pl_seen :: nat
  pl_published :: nat
  pl_producer :: "'c producer"
  pl_world :: 'w

text \<open>
  One step of the consumer's task; \<open>None\<close> if it has to wait: for room in the channel, for the next message of a
  stream that has not ended, or for ever. The channel refuses a message if the other task is gone; the
  result is ignored. The sender is dropped when the task ends or panics.
\<close>

definition consumer_step ::
  "'w client \<Rightarrow> consumer \<Rightarrow> string \<Rightarrow> bool \<Rightarrow> ('c, 'w) pipeline \<Rightarrow> ('c, 'w) pipeline option" where
  "consumer_step cl c topic ends s =
     (case pl_consumer s of
        Receiving \<Rightarrow>
          (case pl_input s of
             [] \<Rightarrow> if ends then Some (s\<lparr>pl_consumer := Ended\<rparr>) else None
           | m # ms \<Rightarrow>
               if pl_task s = TaskOver \<or> pl_task s = TaskPanicked
               then Some (s\<lparr>pl_input := ms, pl_consumer := Acking m\<rparr>)
               else if length (pl_channel s) < 100
               then Some (s\<lparr>pl_input := ms, pl_consumer := Acking m, pl_channel := pl_channel s @ [cr_payload m]\<rparr>)
               else None)
      | Acking m \<Rightarrow>
          (case cl_acknowledge cl (co_consumer_id c) topic (cr_message_id m) (group_or_empty c) (pl_world s) of
             (Ret _, w) \<Rightarrow> Some (s\<lparr>pl_consumer := Recording m, pl_world := w\<rparr>)
           | (Panic, w) \<Rightarrow> Some (s\<lparr>pl_consumer := Ended, pl_world := w\<rparr>)
           | (Block, w) \<Rightarrow> Some (s\<lparr>pl_consumer := Stuck, pl_world := w\<rparr>))
      | Recording m \<Rightarrow>
          (case cl_update_offset cl (co_consumer_id c) topic (cr_offset m) (group_or_empty c) (pl_world s) of
             (Ret _, w) \<Rightarrow> Some (s\<lparr>pl_consumer := Receiving, pl_world := w\<rparr>)
           | (Panic, w) \<Rightarrow> Some (s\<lparr>pl_consumer := Ended, pl_world := w\<rparr>)
           | (Block, w) \<Rightarrow> Some (s\<lparr>pl_consumer := Stuck, pl_world := w\<rparr>))
      | Ended \<Rightarrow> None
      | Stuck \<Rightarrow> None)"

text \<open>One step of the processing task: it ends when the channel is empty and has no sender.\<close>

definition task_step ::
  "('c, 'w) stream_env \<Rightarrow> (string \<Rightarrow> string option) \<Rightarrow> string \<Rightarrow> ('c, 'w) pipeline \<Rightarrow> ('c, 'w) pipeline option" where
  "task_step se processor output_topic s =
     (if pl_task s \<noteq> Running then None
      else case pl_channel s of
        [] \<Rightarrow> if pl_consumer s = Ended then Some (s\<lparr>pl_task := TaskOver\<rparr>) else None
      | x # xs \<Rightarrow>
          (case process_stage processor (publish_call se) output_topic (pl_published s, pl_producer s, pl_world s)
                  (se_timestamp se (pl_seen s), x) of
             (r, i, pd, w) \<Rightarrow>
               Some (s\<lparr>pl_channel := xs, pl_seen := Suc (pl_seen s), pl_published := i, pl_producer := pd, pl_world := w,
                  pl_task := (case (r :: unit list outcome) of Ret _ \<Rightarrow> Running | Panic \<Rightarrow> TaskPanicked | Block \<Rightarrow> TaskWaits)\<rparr>)))"

definition pipeline_start :: "consume_response list \<Rightarrow> 'c producer \<Rightarrow> 'w \<Rightarrow> ('c, 'w) pipeline" where
  "pipeline_start ms pd w =
     \<lparr>pl_input = ms, pl_consumer = Receiving, pl_channel = [], pl_task = Running, pl_seen = 0, pl_published = 0,
      pl_producer = pd, pl_world = w\<rparr>"

inductive pipe_step ::
  "('c, 'w) stream_env \<Rightarrow> 'w client \<Rightarrow> consumer \<Rightarrow> string \<Rightarrow> bool \<Rightarrow> (string \<Rightarrow> string option) \<Rightarrow> string \<Rightarrow>
   ('c, 'w) pipeline \<Rightarrow> ('c, 'w) pipeline \<Rightarrow> bool"
  for se cl c topic ends processor output_topic where
  consumer: "consumer_step cl c topic ends s = Some s' \<Longrightarrow> pipe_step se cl c topic ends processor output_topic s s'"
| task: "task_step se processor output_topic s = Some s' \<Longrightarrow> pipe_step se cl c topic ends processor output_topic s s'"

inductive_cases pipe_stepE: "pipe_step se cl c topic ends processor output_topic s s'"

section \<open>Calls that are answered\<close>

definition quiet_client :: "'w client \<Rightarrow> ('w \<Rightarrow> publish_request list) \<Rightarrow> bool" where
  "quiet_client cl requests \<longleftrightarrow>
     (\<forall>i t m g w. \<exists>x w'. cl_acknowledge cl i t m g w = (Ret x, w') \<and> requests w' = requests w)
     \<and> (\<forall>i t off g w. \<exists>x w'. cl_update_offset cl i t off g w = (Ret x, w') \<and> requests w' = requests w)"

section \<open>The invariant\<close>

text \<open>
  The messages are split into those that were processed, those in the channel and those that are still to
  come, in this order; the requests are those of the processed messages.
\<close>

definition stamped :: "('c, 'w) stream_env \<Rightarrow> string list \<Rightarrow> (int \<times> string) list" where
  "stamped se ms = map (\<lambda>k. (se_timestamp se k, ms ! k)) [0..<length ms]"

definition pipe_inv ::
  "('c, 'w) stream_env \<Rightarrow> ('w \<Rightarrow> publish_request list) \<Rightarrow> (string \<Rightarrow> string option) \<Rightarrow> string \<Rightarrow> bool \<Rightarrow>
   consume_response list \<Rightarrow> string \<Rightarrow> publish_request list \<Rightarrow> ('c, 'w) pipeline \<Rightarrow> bool" where
  "pipe_inv se requests processor output_topic ends ms pid before s \<longleftrightarrow>
     map cr_payload ms = take (pl_seen s) (map cr_payload ms) @ pl_channel s @ map cr_payload (pl_input s)
     \<and> pl_seen s \<le> length ms \<and> length (pl_channel s) \<le> 100 \<and> pd_producer_id (pl_producer s) = pid
     \<and> requests (pl_world s) = before @ transformed_requests pid output_topic processor (stamped se (take (pl_seen s) (map cr_payload ms)))
     \<and> pl_consumer s \<noteq> Stuck \<and> (pl_consumer s = Ended \<longrightarrow> ends \<and> pl_input s = [])
     \<and> (pl_task s = Running \<or> pl_task s = TaskOver \<and> pl_consumer s = Ended \<and> pl_channel s = [])"

lemma stamped_snoc: "stamped se (ms @ [m]) = stamped se ms @ [(se_timestamp se (length ms), m)]"
  by (simp add: stamped_def nth_append)

lemma transformed_snoc:
  "transformed_requests pid topic processor (xs @ [(t, m)]) = transformed_requests pid topic processor xs @
     (case processor m of Some y \<Rightarrow> [request_of pid (topic, y, ''key-'' @ show_int t)] | None \<Rightarrow> [])"
  by (simp add: transformed_requests_def map_filter_def split: option.splits)

lemma pipe_inv_start: "pipe_inv se requests processor out ends ms (pd_producer_id pd) (requests w) (pipeline_start ms pd w)"
  by (simp add: pipe_inv_def pipeline_start_def stamped_def transformed_requests_def map_filter_simps)

lemma consumer_step_inv:
  assumes "pipe_inv se requests processor out ends ms pid before s" and "quiet_client cl requests"
    and "consumer_step cl c topic ends s = Some s'"
  shows "pipe_inv se requests processor out ends ms pid before s'"
proof (cases "pl_consumer s")
  case Receiving
  then show ?thesis using assms(1,3)
    by (auto simp: consumer_step_def pipe_inv_def split: list.splits if_splits)
next
  case (Acking m)
  obtain x w' where "cl_acknowledge cl (co_consumer_id c) topic (cr_message_id m) (group_or_empty c) (pl_world s) = (Ret x, w')"
      "requests w' = requests (pl_world s)"
    using assms(2) unfolding quiet_client_def by meson
  then show ?thesis using assms(1,3) Acking by (auto simp: consumer_step_def pipe_inv_def)
next
  case (Recording m)
  obtain x w' where "cl_update_offset cl (co_consumer_id c) topic (cr_offset m) (group_or_empty c) (pl_world s) = (Ret x, w')"
      "requests w' = requests (pl_world s)"
    using assms(2) unfolding quiet_client_def by meson
  then show ?thesis using assms(1,3) Recording by (auto simp: consumer_step_def pipe_inv_def)
qed (use assms(3) in \<open>simp_all add: consumer_step_def\<close>)

lemma process_message:
  assumes "answered_calls se requests"
    and "process_stage processor (publish_call se) topic (i, pd, w) (t, m) = (r :: unit list outcome, i', pd', w')"
  shows "r = Ret [] \<and> pd_producer_id pd' = pd_producer_id pd
     \<and> requests w' = requests w @ (case processor m of
          Some y \<Rightarrow> [request_of (pd_producer_id pd) (topic, y, ''key-'' @ show_int t)] | None \<Rightarrow> [])"
proof (cases "processor m")
  case (Some y)
  obtain x i1 pd1 w1 where "publish_call se topic y (''key-'' @ show_int t) (i, pd, w) = (Ret x, i1, pd1, w1)"
      "pd_producer_id pd1 = pd_producer_id pd"
      "requests w1 = requests w @ [request_of (pd_producer_id pd) (topic, y, ''key-'' @ show_int t)]"
    by (rule publish_call_answered [OF assms(1)])
  then show ?thesis using assms(2) Some by (simp add: process_stage_message print_error_def)
qed (use assms(2) in \<open>simp add: process_stage_message\<close>)

lemma take_next:
  assumes "ps = take k ps @ x # ys" and "k \<le> length ps"
  shows "take (Suc k) ps = take k ps @ [x]" and "k < length ps"
proof -
  have len: "length (take k ps) = k" using assms(2) by simp
  have "length ps = k + Suc (length ys)" using arg_cong [OF assms(1), of length] len by simp
  then show less: "k < length ps" by simp
  have "ps ! k = x" using arg_cong [OF assms(1), of "\<lambda>l. l ! k"] len by (metis nth_append_length)
  then show "take (Suc k) ps = take k ps @ [x]" using less by (simp add: take_Suc_conv_app_nth)
qed

lemma task_step_inv:
  assumes inv: "pipe_inv se requests processor out ends ms pid before s" and "answered_calls se requests"
    and step: "task_step se processor out s = Some s'"
  shows "pipe_inv se requests processor out ends ms pid before s'"
proof (cases "pl_channel s")
  case Nil
  then show ?thesis using inv step by (auto simp: task_step_def pipe_inv_def split: if_splits)
next
  case (Cons x xs)
  let ?ps = "map cr_payload ms" and ?k = "pl_seen s"
  have run: "pl_task s = Running" using step by (auto simp: task_step_def split: if_splits)
  obtain r i pd w where p: "process_stage processor (publish_call se) out (pl_published s, pl_producer s, pl_world s)
      (se_timestamp se ?k, x) = (r :: unit list outcome, i, pd, w)"
    by (metis prod_cases4)
  note pm = process_message [OF assms(2) p]
  have s': "s' = s\<lparr>pl_channel := xs, pl_seen := Suc ?k, pl_published := i, pl_producer := pd, pl_world := w, pl_task := Running\<rparr>"
    using step run Cons p pm by (simp add: task_step_def)
  have split: "?ps = take ?k ?ps @ x # xs @ map cr_payload (pl_input s)" and "?k \<le> length ?ps"
    using inv Cons by (simp_all add: pipe_inv_def)
  note more = take_next [OF this]
  have "length (take ?k ?ps) = ?k" using more(2) by simp
  then show ?thesis using inv Cons pm split s' more
    by (simp add: pipe_inv_def stamped_snoc transformed_snoc split: option.split)
qed

section \<open>Progress\<close>

fun pc_weight :: "consumer_pc \<Rightarrow> nat" where
  "pc_weight (Acking m) = 3"
| "pc_weight (Recording m) = 2"
| "pc_weight Receiving = 1"
| "pc_weight Ended = 0"
| "pc_weight Stuck = 0"

definition work_left :: "('c, 'w) pipeline \<Rightarrow> nat" where
  "work_left s =
     4 * length (pl_input s) + pc_weight (pl_consumer s) + length (pl_channel s) + (if pl_task s = Running then 1 else 0)"

lemma pipe_step_work:
  assumes "pipe_step se cl c topic ends processor out s s'"
  shows "work_left s' < work_left s"
  using assms
proof cases
  case consumer
  then show ?thesis
    by (auto simp: consumer_step_def work_left_def split: consumer_pc.splits list.splits if_splits prod.splits outcome.splits)
next
  case task
  then show ?thesis
    by (auto simp: task_step_def work_left_def split: list.splits if_splits prod.splits outcome.splits)
qed

lemma pipe_steps_work: "(pipe_step se cl c topic ends processor out ^^ k) s s' \<Longrightarrow> work_left s' + k \<le> work_left s"
proof (induction k arbitrary: s')
  case (Suc k)
  then obtain t where t: "(pipe_step se cl c topic ends processor out ^^ k) s t" "pipe_step se cl c topic ends processor out t s'"
    by (auto elim: relpowp_Suc_E)
  then show ?case using Suc.IH [OF t(1)] pipe_step_work [OF t(2)] by simp
qed simp

text \<open>Where neither task can go on, everything has been processed.\<close>

lemma pipe_waits:
  assumes inv: "pipe_inv se requests processor out ends ms pid before s"
    and "consumer_step cl c topic ends s = None" and "task_step se processor out s = None"
  shows "pl_seen s = length ms \<and> pl_channel s = [] \<and> pl_input s = []
     \<and> (if ends then pl_task s = TaskOver \<and> pl_consumer s = Ended else pl_task s = Running \<and> pl_consumer s = Receiving)"
proof -
  have task: "pl_channel s = []"
    using inv assms(3) by (auto simp: pipe_inv_def task_step_def split: list.splits prod.splits)
  then have cons: "pl_input s = [] \<and> (pl_consumer s = Ended \<or> pl_consumer s = Receiving \<and> \<not> ends)"
    using inv assms(2)
    by (auto simp: pipe_inv_def consumer_step_def split: consumer_pc.splits list.splits if_splits prod.splits outcome.splits)
  then have "take (pl_seen s) (map cr_payload ms) = map cr_payload ms" "pl_seen s \<le> length ms"
    using inv task by (simp_all add: pipe_inv_def)
  then have "pl_seen s = length ms" by simp
  then show ?thesis using inv assms(3) task cons by (auto simp: pipe_inv_def task_step_def split: if_splits)
qed

interpretation pipe: invariant_system "\<lambda>s. s = pipeline_start ms pd w"
  "\<lambda>s s'. answered_calls se requests \<and> quiet_client cl requests \<and> pipe_step se cl c topic ends processor out s s'"
  "pipe_inv se requests processor out ends ms (pd_producer_id pd) (requests w)"
  by unfold_locales (auto simp: pipe_inv_start elim!: pipe_stepE intro: consumer_step_inv task_step_inv)

section \<open>Properties\<close>

text \<open>
  Property C22: the order in which the two tasks of a processing stream run does not matter. If the
  calls of both are answered, then in every state of every interleaving the requests are those for a prefix
  of the messages, in order, and at most a hundred messages wait in the channel. With \<open>n\<close> messages no run makes more
  than \<open>4 n + 2\<close> steps, and the tasks never wait for each other: where neither can go on, every message
  has been processed, with the requests of the sequential task, and the task has ended if and only if the stream
  has.
\<close>

theorem pipeline_schedule_independent:
  assumes "answered_calls se requests" and "quiet_client cl requests"
    and "(pipe_step se cl c topic ends processor out ^^ k) (pipeline_start ms pd w) s"
  shows "k \<le> 4 * length ms + 2 \<and> length (pl_channel s) \<le> 100
     \<and> requests (pl_world s) = requests w @
         transformed_requests (pd_producer_id pd) out processor (stamped se (take (pl_seen s) (map cr_payload ms)))
     \<and> ((\<forall>s'. \<not> pipe_step se cl c topic ends processor out s s') \<longrightarrow>
          pl_seen s = length ms
          \<and> requests (pl_world s) = requests (snd (snd (process_task se processor out (map cr_payload ms) ends pd w)))
          \<and> (pl_task s = TaskOver \<longleftrightarrow> ends))"
proof -
  let ?step = "pipe_step se cl c topic ends processor out"
  have "?step\<^sup>*\<^sup>* (pipeline_start ms pd w) s" using assms(3) by (meson relpowp_imp_rtranclp)
  then have "(\<lambda>s s'. answered_calls se requests \<and> quiet_client cl requests \<and> ?step s s')\<^sup>*\<^sup>* (pipeline_start ms pd w) s"
    using assms(1,2) by simp
  from pipe.inv_reachable [OF refl this]
  have inv: "pipe_inv se requests processor out ends ms (pd_producer_id pd) (requests w) s" .
  have bound: "k \<le> 4 * length ms + 2"
    using pipe_steps_work [OF assms(3)] by (simp add: work_left_def pipeline_start_def)
  obtain out' r j pd' w' where run: "run_stage (process_stage processor (publish_call se) out) (0, pd, w)
      (stamped se (map cr_payload ms)) = (out' :: unit list, r, j, pd', w')"
    by (rule prod_cases5)
  have seq: "requests (snd (snd (process_task se processor out (map cr_payload ms) ends pd w))) = requests w @
      transformed_requests (pd_producer_id pd) out processor (stamped se (map cr_payload ms))"
    using process_stage_run [OF assms(1) run] run by (simp add: process_task_def stamped_def)
  have "pl_seen s = length ms \<and> (pl_task s = TaskOver \<longleftrightarrow> ends)" if "\<forall>s'. \<not> ?step s s'"
  proof -
    have "consumer_step cl c topic ends s = None" "task_step se processor out s = None"
      using that pipe_step.intros by (metis option.exhaust)+
    from pipe_waits [OF inv this] show ?thesis by (auto split: if_splits)
  qed
  then show ?thesis using bound inv seq by (auto simp: pipe_inv_def)
qed

theorem pipeline_schedule_independent_witness:
  "\<exists>s. (pipe_step example_stream_env example_client
        \<lparr>co_consumer_id = ''c'', co_group_id = None, co_member_id = [], co_generation_id = 0, co_assignment = [],
         co_current_offset = 0\<rparr> ''t'' True (\<lambda>m. if m = ''a'' then Some ''z'' else None) ''u'' ^^ 2)
       (pipeline_start [example_response ''a'', example_response ''b''] \<lparr>pd_pool = cp_new 10, pd_producer_id = ''p''\<rparr> []) s
     \<and> pl_world s = [request_of ''p'' (''u'', ''z'', ''key-7'')]"
proof -
  let ?c = "\<lparr>co_consumer_id = ''c'', co_group_id = None, co_member_id = [], co_generation_id = 0, co_assignment = [],
      co_current_offset = 0\<rparr>"
  let ?p = "\<lambda>m. if m = ''a'' then Some ''z'' else None" and ?pd = "\<lparr>pd_pool = cp_new 10, pd_producer_id = ''p''\<rparr>"
  let ?ms = "[example_response ''a'', example_response ''b'']"
  let ?step = "pipe_step example_stream_env example_client ?c ''t'' True ?p ''u''"
  have calls: "answered_calls example_stream_env (\<lambda>w. w)" by (simp add: answered_calls_def example_stream_env_def)
  have quiet: "quiet_client example_client (\<lambda>w. w)" by (simp add: quiet_client_def example_client_def)
  obtain s1 :: "(unit, publish_request list) pipeline" where s1: "consumer_step example_client ?c ''t'' True (pipeline_start ?ms ?pd []) = Some s1"
      "pl_task s1 = Running" "pl_channel s1 = [''a'']" "pl_seen s1 = 0"
    by (simp add: consumer_step_def pipeline_start_def example_response_def)
  obtain s2 where s2: "task_step example_stream_env ?p ''u'' s1 = Some s2" "pl_seen s2 = 1"
  proof (cases "process_stage ?p (publish_call example_stream_env) ''u'' (pl_published s1, pl_producer s1, pl_world s1)
      (se_timestamp example_stream_env 0, ''a'') :: unit list outcome \<times> nat \<times> unit producer \<times> publish_request list")
    case (fields r i pd w)
    then show ?thesis using s1 that by (simp add: task_step_def)
  qed
  have p1: "?step (pipeline_start ?ms ?pd []) s1" by (rule pipe_step.consumer [OF s1(1)])
  have p2: "?step s1 s2" by (rule pipe_step.task [OF s2(1)])
  have steps: "(?step ^^ 2) (pipeline_start ?ms ?pd []) s2"
    unfolding numeral_2_eq_2 relpowp.simps eq_OO by (rule relcomppI [where r = ?step and s = ?step, OF p1 p2])
  note result = pipeline_schedule_independent [OF calls quiet steps]
  have "pl_world s2 = transformed_requests ''p'' ''u'' ?p
      (stamped example_stream_env (take (pl_seen s2) (map cr_payload ?ms)))"
    using conjunct1 [OF conjunct2 [OF conjunct2 [OF result]]] by (simp only: append_Nil producer.simps)
  moreover have "stamped example_stream_env (take (pl_seen s2) (map cr_payload ?ms)) = [(7, ''a'')]"
    by (simp add: s2(2) stamped_def example_stream_env_def example_response_def)
  moreover have "show_int 7 = ''7''" by code_simp
  ultimately have "pl_world s2 = [request_of ''p'' (''u'', ''z'', ''key-7'')]"
    by (simp add: transformed_requests_def map_filter_simps)
  with steps show ?thesis by blast
qed

end
