(* ===== verification/Stream_Topology.thy ===== *)
theory Stream_Topology
  imports Stream_Programs
begin

text \<open>
  Streams as values, \<^verbatim>\<open>crates/streams/src/stream.rs\<close> and \<^verbatim>\<open>crates/streams/src/builder.rs\<close>: a \<open>KStream\<close> is
  made from a topic, goes through operators and ends in a sink. The operators are the stages of the
  theory \<open>Streams\<close>; here they are put together the way a program does it, from the consumer of the input
  topic to the producer of the output topic.
\<close>

section \<open>Streams and their operators\<close>

text \<open>
  A source is the list of the items it yields and how it goes on after the last one: \<open>Ret ()\<close> if it ends,
  \<open>Block\<close> if the next item never comes, \<open>Panic\<close> if asking for it panics.
\<close>

record 'a kstream =
  ks_items :: "'a list"
  ks_end :: "unit outcome"

definition ks_new :: "'a list \<Rightarrow> unit outcome \<Rightarrow> 'a kstream" where
  "ks_new items e = \<lparr>ks_items = items, ks_end = e\<rparr>"

text \<open>
  A generator around a source. The state of the stage is private to it, so it does not matter that the
  generator only runs when its consumer asks for the next item.
\<close>

definition after :: "unit outcome \<Rightarrow> unit outcome \<Rightarrow> unit outcome" where
  "after r e = (case r of Ret _ \<Rightarrow> e | Panic \<Rightarrow> Panic | Block \<Rightarrow> Block)"

definition through :: "('st, 'a, 'b) stage \<Rightarrow> 'st \<Rightarrow> 'a kstream \<Rightarrow> 'b kstream" where
  "through stage st ks = (case run_stage stage st (ks_items ks) of (out, r, _) \<Rightarrow> ks_new out (after r (ks_end ks)))"

definition ks_map :: "('a \<Rightarrow> 'b) \<Rightarrow> 'a kstream \<Rightarrow> 'b kstream" where
  "ks_map mapper = through (map_stage mapper) ()"

definition ks_filter :: "('a \<Rightarrow> bool) \<Rightarrow> 'a kstream \<Rightarrow> 'a kstream" where
  "ks_filter predicate = through (filter_stage predicate) ()"

definition ks_flat_map :: "('a \<Rightarrow> 'b list) \<Rightarrow> 'a kstream \<Rightarrow> 'b kstream" where
  "ks_flat_map mapper = through (flat_map_stage mapper) ()"

record ('k, 'v) grouped_stream =
  gs_stream :: "('k, 'v) stream_record kstream"

definition gs_new :: "('k, 'v) stream_record kstream \<Rightarrow> ('k, 'v) grouped_stream" where
  "gs_new ks = \<lparr>gs_stream = ks\<rparr>"

text \<open>
  The source of \<open>group_by_key\<close> lacks the bound \<open>Hash + Eq\<close> on the key that \<open>GroupedStream::new\<close> demands, so it
  does not type-check as it stands; the model is that of the method with this bound.
\<close>

definition group_by_key :: "('k, 'v) stream_record kstream \<Rightarrow> ('k, 'v) grouped_stream" where
  "group_by_key ks = gs_new ks"

definition gs_count :: "bool \<Rightarrow> ('k, 'v) grouped_stream \<Rightarrow> ('k, nat) stream_record kstream" where
  "gs_count ovf g = through (count_stage ovf) [] (gs_stream g)"

definition gs_aggregate :: "'a \<Rightarrow> ('a \<Rightarrow> 'v \<Rightarrow> 'a) \<Rightarrow> ('k, 'v) grouped_stream \<Rightarrow> ('k, 'a) stream_record kstream" where
  "gs_aggregate initializer aggregator g = through (aggregate_stage initializer aggregator) [] (gs_stream g)"

definition gs_reduce :: "('v \<Rightarrow> 'v \<Rightarrow> 'v) \<Rightarrow> ('k, 'v) grouped_stream \<Rightarrow> ('k, 'v) stream_record kstream" where
  "gs_reduce reducer g = through (reduce_stage reducer) [] (gs_stream g)"

text \<open>The sinks run until the source ends; their state is the world the actions and calls change.\<close>

definition ks_for_each :: "('a \<Rightarrow> 'w \<Rightarrow> 'w) \<Rightarrow> 'a kstream \<Rightarrow> 'w \<Rightarrow> unit outcome \<times> 'w" where
  "ks_for_each action ks w =
     (case run_stage (for_each_stage action) w (ks_items ks) of (_ :: unit list, r, w') \<Rightarrow> (after r (ks_end ks), w'))"

definition ks_to ::
  "('k \<Rightarrow> string option) \<Rightarrow> ('v \<Rightarrow> string option) \<Rightarrow> (string \<Rightarrow> string \<Rightarrow> string \<Rightarrow> 'w \<Rightarrow> unit answer \<times> 'w) \<Rightarrow> string \<Rightarrow>
   ('k, 'v) stream_record kstream \<Rightarrow> 'w \<Rightarrow> unit outcome \<times> 'w" where
  "ks_to json_k json_v put topic ks w =
     (case run_stage (to_stage json_k json_v put topic) w (ks_items ks) of (_ :: unit list, r, w') \<Rightarrow> (after r (ks_end ks), w'))"

text \<open>
  \<open>StreamBuilder::stream\<close>. The constructor of the consumer that it calls takes the address alone; the one in
  \<^verbatim>\<open>consumer.rs\<close> takes a group as well, so the constructor is the parameter \<open>new_consumer\<close>.
\<close>

definition sb_stream ::
  "(string \<Rightarrow> 'w \<Rightarrow> consumer answer \<times> 'w) \<Rightarrow> ('c, 'w) stream_env \<Rightarrow> (string \<Rightarrow> 'k option) \<Rightarrow> (string \<Rightarrow> 'v option) \<Rightarrow>
   stream_builder \<Rightarrow> string \<Rightarrow> 'w \<Rightarrow> ('k, 'v) stream_record kstream answer \<times> 'w" where
  "sb_stream new_consumer se parse_k parse_v b topic w =
     (let cl = fst (se_client se (sb_broker_address b)) in
      case new_consumer (sb_broker_address b) w of
        (Ret (Inr c), w1) \<Rightarrow>
          (case co_subscribe cl topic c w1 of
             (Ret (Inr _), c1, w2) \<Rightarrow>
               (case co_consume (se_lag_text se) (se_opened se) cl (se_app se) c1 topic w2 of
                  (Ret (Inr (ms, ends)), w3) \<Rightarrow>
                    (Ret (Inr (through (builder_stage parse_k parse_v) () (ks_new ms (if ends then Ret () else Block)))), w3)
                | (Ret (Inl e), w3) \<Rightarrow> (Ret (Inl e), w3)
                | (Panic, w3) \<Rightarrow> (Panic, w3)
                | (Block, w3) \<Rightarrow> (Block, w3))
           | (Ret (Inl e), _, w2) \<Rightarrow> (Ret (Inl e), w2)
           | (Panic, _, w2) \<Rightarrow> (Panic, w2)
           | (Block, _, w2) \<Rightarrow> (Block, w2))
      | (Ret (Inl e), w1) \<Rightarrow> (Ret (Inl e), w1)
      | (Panic, w1) \<Rightarrow> (Panic, w1)
      | (Block, w1) \<Rightarrow> (Block, w1))"

section \<open>Interface: an operator without state\<close>

text \<open>An operator whose stage only maps an item to a list of items is \<open>concat\<close> of a map.\<close>

locale pure_operator =
  fixes stage :: "(unit, 'a, 'b) stage" and yields :: "'a \<Rightarrow> 'b list"
  assumes stage_yields: "stage st x = (Ret (yields x), st)"
begin

lemma run: "run_stage stage st xs = (concat (map yields xs), Ret (), st)"
  by (induction xs) (simp_all add: stage_yields)

lemma through_items: "through stage st ks = ks_new (concat (map yields (ks_items ks))) (ks_end ks)"
  by (simp add: through_def run after_def)

end

interpretation map_op: pure_operator "map_stage f" "\<lambda>x. [f x]" for f
  by unfold_locales (simp add: map_stage_def)

interpretation filter_op: pure_operator "filter_stage p" "\<lambda>x. if p x then [x] else []" for p
  by unfold_locales (simp add: filter_stage_def)

interpretation flat_map_op: pure_operator "flat_map_stage f" f for f
  by unfold_locales (simp add: flat_map_stage_def)

text \<open>The record of a message: key and value are both the parsed message.\<close>

definition parsed :: "(string \<Rightarrow> 'k option) \<Rightarrow> (string \<Rightarrow> 'v option) \<Rightarrow> string \<Rightarrow> ('k, 'v) stream_record list" where
  "parsed parse_k parse_v m =
     (case (parse_k m, parse_v m) of
        (Some k, Some v) \<Rightarrow> [\<lparr>sr_key = k, sr_value = v, sr_timestamp = 0, sr_partition = 0, sr_offset = 0\<rparr>]
      | _ \<Rightarrow> [])"

interpretation builder_op: pure_operator "builder_stage parse_k parse_v" "parsed parse_k parse_v" for parse_k parse_v
  by unfold_locales (simp add: builder_stage_def parsed_def split: option.split)

lemma ks_new_sel [simp]: "ks_items (ks_new xs e) = xs" "ks_end (ks_new xs e) = e"
  by (simp_all add: ks_new_def)

lemma concat_if: "concat (map (\<lambda>x. if p x then [x] else []) xs) = filter p xs"
  by (induction xs) simp_all

lemma operators_on_lists:
  "ks_map f ks = ks_new (map f (ks_items ks)) (ks_end ks)"
  "ks_filter p ks = ks_new (filter p (ks_items ks)) (ks_end ks)"
  "ks_flat_map g ks = ks_new (concat (map g (ks_items ks))) (ks_end ks)"
  by (simp_all add: ks_map_def ks_filter_def ks_flat_map_def map_op.through_items filter_op.through_items
      flat_map_op.through_items concat_if)

section \<open>Sinks\<close>

lemma for_each_run:
  "run_stage (for_each_stage action) w xs = ([], Ret (), fold action xs w)"
  by (induction xs arbitrary: w) (simp_all add: for_each_stage_def)

definition json_text :: "('a \<Rightarrow> string option) \<Rightarrow> 'a \<Rightarrow> string" where
  "json_text json x = (case json x of Some s \<Rightarrow> s | None \<Rightarrow> [])"

definition record_request ::
  "string \<Rightarrow> string \<Rightarrow> ('k \<Rightarrow> string option) \<Rightarrow> ('v \<Rightarrow> string option) \<Rightarrow> ('k, 'v) stream_record \<Rightarrow> publish_request" where
  "record_request pid topic json_k json_v r = request_of pid (topic, json_text json_v (sr_value r), json_text json_k (sr_key r))"

lemma to_stage_run:
  assumes "answered_calls se requests"
    and "run_stage (to_stage json_k json_v (publish_call se) topic) (i, pd, w) rs = (out :: unit list, r, j, pd', w')"
  shows "r = Ret () \<and> requests w' = requests w @ map (record_request (pd_producer_id pd) topic json_k json_v) rs"
  using assms(2)
proof (induction rs arbitrary: i pd w out)
  case (Cons x rs)
  obtain z i1 pd1 w1 where
    call: "publish_call se topic (json_text json_v (sr_value x)) (json_text json_k (sr_key x)) (i, pd, w) = (Ret z, i1, pd1, w1)"
    and pid: "pd_producer_id pd1 = pd_producer_id pd"
    and log: "requests w1 = requests w @ [record_request (pd_producer_id pd) topic json_k json_v x]"
    unfolding record_request_def by (rule publish_call_answered [OF assms(1)])
  have "to_stage json_k json_v (publish_call se) topic (i, pd, w) x = (Ret [] :: unit list outcome, i1, pd1, w1)"
    using call by (simp add: to_stage_def json_text_def print_error_def)
  then obtain out1 where "run_stage (to_stage json_k json_v (publish_call se) topic) (i1, pd1, w1) rs = (out1 :: unit list, r, j, pd', w')"
    using Cons.prems by (auto split: prod.splits)
  from Cons.IH [OF this] show ?case using pid log by simp
qed simp

section \<open>Counting by key\<close>

definition key_count :: "('k, 'v) stream_record list \<Rightarrow> nat \<Rightarrow> nat" where
  "key_count rs i = length (key_values (sr_key (rs ! i)) (take (Suc i) rs))"

lemma count_items:
  assumes "length (ks_items ks) < 2 ^ 64"
  shows "gs_count ovf (group_by_key ks) =
     ks_new (map (\<lambda>i. with_value (ks_items ks ! i) (key_count (ks_items ks) i)) [0..<length (ks_items ks)]) (ks_end ks)"
proof -
  let ?rs = "ks_items ks"
  let ?f = "\<lambda>a (_ :: 'b). case a of Some n \<Rightarrow> (if in_u 64 (int n + 1) then Suc n else wrap_u 64 (int n + 1)) | None \<Rightarrow> 1"
  have profile: "run_stage (count_stage ovf) [] ?rs = run_stage (count_stage False) [] ?rs"
    using assms by (intro count_stage_profile) (simp_all add: hashmap_simps)
  obtain out r m where run: "run_stage (count_stage False) [] ?rs = (out, r, m)" by (rule prod_cases3)
  note all = count_fold.running [OF run]
  have "out ! i = with_value (?rs ! i) (key_count ?rs i)" if i: "i < length ?rs" for i
  proof -
    let ?vs = "key_values (sr_key (?rs ! i)) (take (Suc i) ?rs)"
    have ne: "?vs \<noteq> []" using key_values_take [OF i] .
    have "length ?vs < 2 ^ 64" using key_values_take_le [of "sr_key (?rs ! i)" "Suc i" ?rs] assms by linarith
    then have "key_fold ?f (sr_key (?rs ! i)) (take (Suc i) ?rs) None = Some (length ?vs)"
      using ne count_run [of 1 "tl ?vs"] by (simp add: key_fold_running [OF ne] cong: foldl_cong)
    then show ?thesis using all i by (auto simp: key_count_def hashmap_simps)
  qed
  then have "out = map (\<lambda>i. with_value (?rs ! i) (key_count ?rs i)) [0..<length ?rs]"
    using all by (intro nth_equalityI) simp_all
  then show ?thesis using all run profile
    by (simp add: gs_count_def group_by_key_def gs_new_def through_def after_def)
qed

section \<open>A topology from topic to topic\<close>

lemma key_count_sel: "sr_key (with_value r v) = sr_key r" "sr_value (with_value r v) = v"
  by (simp_all add: with_value_def)

lemma sb_stream_items:
  assumes "new_consumer (sb_broker_address b) w = (Ret (Inr c), w1)"
    and "co_subscribe (fst (se_client se (sb_broker_address b))) topic c w1 = (Ret (Inr ()), c1, w2)"
    and "co_consume (se_lag_text se) (se_opened se) (fst (se_client se (sb_broker_address b))) (se_app se) c1 topic w2 =
           (Ret (Inr (ms, ends)), w3)"
  shows "sb_stream new_consumer se parse_k parse_v b topic w =
     (Ret (Inr (ks_new (concat (map (parsed parse_k parse_v) ms)) (if ends then Ret () else Block))), w3)"
  by (simp add: sb_stream_def assms Let_def builder_op.through_items)

lemma parsed_length: "length (concat (map (parsed parse_k parse_v) ms)) \<le> length ms"
proof (induction ms)
  case (Cons m ms)
  have "length (parsed parse_k parse_v m) \<le> 1" by (simp add: parsed_def split: option.split)
  with Cons show ?case by simp
qed simp

text \<open>
  Property C23: a whole topology, from topic to topic. If the consumer of the input topic could be set up and yields
  the messages \<open>ms\<close>, the builder makes a stream of the messages that parse as a key and as a value; mapped by \<open>f\<close>,
  filtered by \<open>p\<close>, grouped by key, counted and written to a topic, every record that is left leads to exactly one
  request, in order, whose payload is the number of records with its key up to it. The program ends exactly if the receiver of
  the messages does, for both build profiles; failed publishes do not end it.
\<close>

theorem topology_publishes_counts:
  fixes f :: "('k, 'v) stream_record \<Rightarrow> ('l, 'u) stream_record"
  assumes "answered_calls se requests"
    and "new_consumer (sb_broker_address b) w = (Ret (Inr c), w1)"
    and "co_subscribe (fst (se_client se (sb_broker_address b))) topic c w1 = (Ret (Inr ()), c1, w2)"
    and "co_consume (se_lag_text se) (se_opened se) (fst (se_client se (sb_broker_address b))) (se_app se) c1 topic w2 =
           (Ret (Inr (ms, ends)), w3)"
    and "length ms < 2 ^ 64"
    and "rs = filter p (map f (concat (map (parsed parse_k parse_v) ms)))"
  shows "\<exists>ks j pd' w4. sb_stream new_consumer se parse_k parse_v b topic w = (Ret (Inr ks), w3)
     \<and> ks_to json_k json_v (publish_call se) out (gs_count ovf (group_by_key (ks_filter p (ks_map f ks)))) (i, pd, w3) =
         (if ends then Ret () else Block, j, pd', w4)
     \<and> requests w4 = requests w3 @
         map (\<lambda>n. request_of (pd_producer_id pd) (out, json_text json_v (key_count rs n), json_text json_k (sr_key (rs ! n))))
           [0..<length rs]"
proof -
  let ?ks = "ks_new (concat (map (parsed parse_k parse_v) ms)) (if ends then Ret () else Block)"
  let ?counted = "map (\<lambda>n. with_value (rs ! n) (key_count rs n)) [0..<length rs]"
  have rs: "ks_filter p (ks_map f ?ks) = ks_new rs (if ends then Ret () else Block)"
    by (simp add: operators_on_lists assms(6))
  have "length rs \<le> length (concat (map (parsed parse_k parse_v) ms))"
    unfolding assms(6) by (metis length_filter_le length_map)
  then have "length rs < 2 ^ 64" using parsed_length [of parse_k parse_v ms] assms(5) by linarith
  then have counted: "gs_count ovf (group_by_key (ks_new rs e)) = ks_new ?counted e" for e
    using count_items [of "ks_new rs e" ovf] by simp
  obtain os r j pd' w4 where run: "run_stage (to_stage json_k json_v (publish_call se) out) (i, pd, w3) ?counted =
      (os :: unit list, r, j, pd', w4)"
    by (rule prod_cases5)
  from to_stage_run [OF assms(1) run] have "r = Ret ()"
    and log: "requests w4 = requests w3 @ map (record_request (pd_producer_id pd) out json_k json_v) ?counted" by simp_all
  then have "ks_to json_k json_v (publish_call se) out (gs_count ovf (group_by_key (ks_filter p (ks_map f ?ks)))) (i, pd, w3) =
      (if ends then Ret () else Block, j, pd', w4)"
    unfolding rs counted ks_to_def ks_new_sel run by (simp add: after_def)
  moreover have "sb_stream new_consumer se parse_k parse_v b topic w = (Ret (Inr ?ks), w3)"
    by (rule sb_stream_items [where new_consumer = new_consumer and b = b, OF assms(2-4)])
  ultimately show ?thesis using log by (simp add: record_request_def key_count_sel comp_def)
qed

theorem topology_publishes_counts_witness:
  "\<exists>ks j pd' w4.
     sb_stream (\<lambda>_ w. (Ret (Inr \<lparr>co_consumer_id = ''c'', co_group_id = None, co_member_id = [], co_generation_id = 0,
         co_assignment = [], co_current_offset = 0\<rparr>), w)) example_stream_env Some Some (sb_new ''h:1'') ''t'' [] = (Ret (Inr ks), [])
     \<and> ks_to Some (\<lambda>n. Some (show_nat n)) (publish_call example_stream_env) ''u''
         (gs_count True (group_by_key (ks_filter (\<lambda>_. True) (ks_map (\<lambda>r. r\<lparr>sr_key := ''k''\<rparr>) ks))))
         (0, \<lparr>pd_pool = cp_new 10, pd_producer_id = ''p''\<rparr>, []) = (Ret (), j, pd', w4)
     \<and> w4 = [request_of ''p'' (''u'', ''1'', ''k''), request_of ''p'' (''u'', ''2'', ''k'')]"
proof -
  let ?se = example_stream_env and ?b = "sb_new ''h:1''"
  let ?c = "\<lparr>co_consumer_id = ''c'', co_group_id = None, co_member_id = [], co_generation_id = 0,
         co_assignment = [], co_current_offset = 0\<rparr>"
  let ?new = "\<lambda>_ w. (Ret (Inr ?c), w)" and ?f = "\<lambda>r. r\<lparr>sr_key := ''k''\<rparr> :: (string, string) stream_record"
  let ?rs = "filter (\<lambda>_. True) (map ?f (concat (map (parsed Some Some) [''a'', ''b''])))"
  have calls: "answered_calls ?se (\<lambda>w. w)" by (simp add: answered_calls_def example_stream_env_def)
  have new: "?new (sb_broker_address ?b) [] = (Ret (Inr ?c), [] :: publish_request list)" by simp
  have sub: "co_subscribe (fst (se_client ?se (sb_broker_address ?b))) ''t'' ?c [] = (Ret (Inr ()), ?c, [])"
    by (simp add: co_subscribe_def example_stream_env_def example_client_def)
  have cons: "co_consume (se_lag_text ?se) (se_opened ?se) (fst (se_client ?se (sb_broker_address ?b))) (se_app ?se) ?c ''t'' [] =
      (Ret (Inr ([''a'', ''b''], True)), [])"
    by (simp add: co_consume_def consume_task_def poll_next_def runs_def example_stream_env_def example_client_def example_response_def)
  have rs: "?rs = [\<lparr>sr_key = ''k'', sr_value = ''a'', sr_timestamp = 0, sr_partition = 0, sr_offset = 0\<rparr>,
      \<lparr>sr_key = ''k'', sr_value = ''b'', sr_timestamp = 0, sr_partition = 0, sr_offset = 0\<rparr>]"
    by (simp add: parsed_def)
  have nums: "show_nat 1 = ''1''" "show_nat 2 = ''2''" by code_simp+
  have reqs: "map (\<lambda>n. request_of ''p'' (''u'', json_text (\<lambda>n. Some (show_nat n)) (key_count ?rs n), json_text Some (sr_key (?rs ! n))))
      [0..<length ?rs] = [request_of ''p'' (''u'', ''1'', ''k''), request_of ''p'' (''u'', ''2'', ''k'')]"
    unfolding rs using nums by (simp add: key_count_def json_text_def numeral_2_eq_2 upt_rec)
  from topology_publishes_counts [where new_consumer = ?new and f = ?f and p = "\<lambda>_. True" and parse_k = Some and parse_v = Some
      and json_k = Some and json_v = "\<lambda>n. Some (show_nat n)" and out = "''u''" and ovf = True and i = 0
      and pd = "\<lparr>pd_pool = cp_new 10, pd_producer_id = ''p''\<rparr>" and b = ?b, OF calls new sub cons _ refl]
  show ?thesis unfolding producer.simps reqs by simp
qed

end
