(* ===== verification/Concurrent_Creation.thy ===== *)
theory Concurrent_Creation
  imports Broker_System "HOL-Library.Sublist"
begin

text \<open>
  Handlers of \<^verbatim>\<open>crates/broker/src/broker.rs\<close> that run at the same time and create a missing topic
  (\<open>ensure_topic\<close>) or a missing channel (the flusher). Both look under a read guard, give it back, and
  look again under the write guard before they create. The two guarded sections are the atomic
  steps; a schedule says which handler makes the next step and what the rest of the broker does in between.
\<close>

section \<open>Calls in two sections\<close>

datatype 'r phase = Looking | Creating | Finished 'r

definition section_step :: "('s \<Rightarrow> 'r option) \<Rightarrow> ('s \<Rightarrow> 'r \<times> 's) \<Rightarrow> 'r phase \<Rightarrow> 's \<Rightarrow> 'r phase \<times> 's" where
  "section_step look create ph s =
     (case ph of
        Looking \<Rightarrow> (case look s of Some r \<Rightarrow> (Finished r, s) | None \<Rightarrow> (Creating, s))
      | Creating \<Rightarrow> (case create s of (r, s') \<Rightarrow> (Finished r, s'))
      | Finished r \<Rightarrow> (Finished r, s))"

text \<open>\<open>Move i\<close> lets the \<open>i\<close>-th call make a step, \<open>Other f\<close> is anything else that happens to the state.\<close>

datatype 's turn = Move nat | Other "'s \<Rightarrow> 's"

fun sections_run ::
  "('k \<Rightarrow> 's \<Rightarrow> 'r option) \<Rightarrow> ('k \<Rightarrow> 's \<Rightarrow> 'r \<times> 's) \<Rightarrow> 's turn list \<Rightarrow> ('k \<times> 'r phase) list \<Rightarrow> 's \<Rightarrow>
   ('k \<times> 'r phase) list \<times> 's" where
  "sections_run look create [] ts s = (ts, s)"
| "sections_run look create (Move i # es) ts s =
     (if i < length ts then
        (case ts ! i of (k, ph) \<Rightarrow>
           (case section_step (look k) (create k) ph s of
              (ph', s') \<Rightarrow> sections_run look create es (ts[i := (k, ph')]) s'))
      else sections_run look create es ts s)"
| "sections_run look create (Other f # es) ts s = sections_run look create es ts (f s)"

text \<open>The specification: a call is one step, and a call that has its result makes none.\<close>

fun calls_run ::
  "('k \<Rightarrow> 's \<Rightarrow> 'r \<times> 's) \<Rightarrow> 's turn list \<Rightarrow> ('k \<times> 'r option) list \<Rightarrow> 's \<Rightarrow> ('k \<times> 'r option) list \<times> 's" where
  "calls_run whole [] ts s = (ts, s)"
| "calls_run whole (Move i # es) ts s =
     (if i < length ts then
        (case ts ! i of
           (k, None) \<Rightarrow> (case whole k s of (r, s') \<Rightarrow> calls_run whole es (ts[i := (k, Some r)]) s')
         | (k, Some r) \<Rightarrow> calls_run whole es ts s)
      else calls_run whole es ts s)"
| "calls_run whole (Other f # es) ts s = calls_run whole es ts (f s)"

fun result_of :: "'k \<times> 'r phase \<Rightarrow> 'k \<times> 'r option" where
  "result_of (k, Finished r) = (k, Some r)"
| "result_of (k, Looking) = (k, None)"
| "result_of (k, Creating) = (k, None)"

definition others :: "'s turn list \<Rightarrow> ('s \<Rightarrow> 's) list" where
  "others es = concat (map (\<lambda>e. case e of Other f \<Rightarrow> [f] | Move _ \<Rightarrow> []) es)"

lemma others_simps [simp]:
  "others [] = []" "others (Move i # es) = others es" "others (Other f # es) = f # others es"
  by (simp_all add: others_def)

section \<open>Interface: double-checked creation\<close>

text \<open>
  A call that finds what it looks for changes nothing, and the section under the write guard is the
  whole call again, with its own check. Then the calls are linearizable: each takes effect in one
  of its steps.
\<close>

locale double_checked =
  fixes look :: "'k \<Rightarrow> 's \<Rightarrow> 'r option"
    and create :: "'k \<Rightarrow> 's \<Rightarrow> 'r \<times> 's"
    and whole :: "'k \<Rightarrow> 's \<Rightarrow> 'r \<times> 's"
  assumes look_hit: "look k s = Some r \<Longrightarrow> whole k s = (r, s)"
    and create_whole: "create k s = whole k s"
begin

lemma step_cases:
  assumes "section_step (look k) (create k) ph s = (ph', s')"
  obtains (internal) "result_of (k, ph') = result_of (k, ph)" and "s' = s"
  | (call) r where "result_of (k, ph) = (k, None)" and "result_of (k, ph') = (k, Some r)" and "whole k s = (r, s')"
  using assms look_hit create_whole
  by (cases ph) (auto simp: section_step_def split: option.splits prod.splits)

lemma linearizable:
  assumes "sections_run look create es ts s = (ts', s')"
  shows "\<exists>es'. subseq es' es \<and> others es' = others es \<and> calls_run whole es' (map result_of ts) s = (map result_of ts', s')"
  using assms
proof (induction es arbitrary: ts s)
  case (Cons e es)
  show ?case
  proof (cases e)
    case (Other f)
    then show ?thesis using Cons by (metis calls_run.simps(3) others_simps(3) sections_run.simps(3) subseq_Cons2)
  next
    case (Move i)
    show ?thesis
    proof (cases "i < length ts")
      case False
      then have "sections_run look create es ts s = (ts', s')" using Cons.prems Move by simp
      from Cons.IH [OF this] obtain es' where "subseq es' es" "others es' = others es"
        "calls_run whole es' (map result_of ts) s = (map result_of ts', s')" by blast
      then show ?thesis using Move by (intro exI [of _ es']) (auto intro: list_emb_Cons)
    next
      case True
      obtain k ph where t: "ts ! i = (k, ph)" by fastforce
      obtain ph1 s1 where st: "section_step (look k) (create k) ph s = (ph1, s1)" by fastforce
      have run: "sections_run look create es (ts[i := (k, ph1)]) s1 = (ts', s')" using Cons.prems Move True t st by simp
      obtain es' where es': "subseq es' es" "others es' = others es"
          "calls_run whole es' (map result_of (ts[i := (k, ph1)])) s1 = (map result_of ts', s')"
        using Cons.IH [OF run] by blast
      from st show ?thesis
      proof (cases rule: step_cases)
        case internal
        then have "map result_of (ts[i := (k, ph1)]) = map result_of ts"
          using t True by (metis list_update_id map_update)
        then show ?thesis using es' internal(2) Move by (intro exI [of _ es']) (auto intro: list_emb_Cons)
      next
        case (call r)
        then have "calls_run whole (Move i # es') (map result_of ts) s = (map result_of ts', s')"
          using es'(3) t True by (simp add: map_update)
        then show ?thesis using es'(1,2) Move by (intro exI [of _ "Move i # es'"]) auto
      qed
    qed
  qed
qed (auto intro: exI [of _ "[]"])

text \<open>What the whole call and the rest of the program keep, the sections keep.\<close>

lemma sections_keep:
  assumes "sections_run look create es ts s = (ts', s')" and "P s"
    and "\<And>k s. P s \<Longrightarrow> P (snd (whole k s))" and "\<And>f s. f \<in> set (others es) \<Longrightarrow> P s \<Longrightarrow> P (f s)"
  shows "P s'"
  using assms(1,2,4)
proof (induction es arbitrary: ts s)
  case (Cons e es)
  show ?case
  proof (cases e)
    case (Other f)
    then show ?thesis using Cons.IH [of ts "f s"] Cons.prems by simp
  next
    case (Move i)
    show ?thesis
    proof (cases "i < length ts")
      case False
      then show ?thesis using Cons.IH [of ts s] Cons.prems Move by simp
    next
      case True
      obtain k ph where t: "ts ! i = (k, ph)" by fastforce
      obtain ph1 s1 where st: "section_step (look k) (create k) ph s = (ph1, s1)" by fastforce
      have "P s1" using st
      proof (cases rule: step_cases)
        case (call r)
        then show ?thesis using assms(3) [OF Cons.prems(2), of k] by simp
      qed (use Cons.prems(2) in simp)
      then show ?thesis using Cons.IH [of "ts[i := (k, ph1)]" s1] Cons.prems Move True t st by simp
    qed
  qed
qed simp

end

section \<open>Topics and channels\<close>

definition topic_look :: "string \<Rightarrow> broker \<Rightarrow> unit outcome option" where
  "topic_look topic b = (if hm_contains (bk_topics b) topic then Some (Ret ()) else None)"

definition channel_look :: "broker \<Rightarrow> nat option" where
  "channel_look b = hm_get (bk_messages b) (bk_partition_id b)"

interpretation topic_creation: double_checked topic_look "topic_section ev" "ensure_topic ev"
  by unfold_locales (auto simp: topic_look_def ensure_topic_def topic_section_def split: if_splits)

interpretation channel_creation: double_checked "\<lambda>_ :: unit. channel_look" "\<lambda>_. channel_section" "\<lambda>_. flusher_channel"
  by unfold_locales (auto simp: channel_look_def flusher_channel_def channel_section_def split: option.splits)

section \<open>Existing queues\<close>

definition has_queue :: "string \<Rightarrow> int \<Rightarrow> partition_queue \<Rightarrow> broker \<Rightarrow> bool" where
  "has_queue topic pid q b \<longleftrightarrow> hm_contains (bk_topics b) topic \<and> get_queue (bk_storage b) topic pid = Some q"

lemma create_topic_queue: "topic' \<noteq> topic \<Longrightarrow> get_queue (create_topic topic s) topic' pid = get_queue s topic' pid"
  by (simp add: create_topic_def get_queue_def hashmap_simps)

lemma create_partition_queue:
  assumes "create_partition ovf deser fs topic pid s = (r, t)" and "topic' \<noteq> topic"
  shows "get_queue t topic' pid' = get_queue s topic' pid'"
  using assms by (auto simp: create_partition_def get_put_queue split: option.splits outcome.splits)

lemma ensure_topic_keeps:
  assumes "has_queue topic pid q b"
  shows "has_queue topic pid q (snd (ensure_topic ev topic' b))"
proof (cases "hm_contains (bk_topics b) topic'")
  case False
  then have other: "topic' \<noteq> topic" using assms by (auto simp: has_queue_def)
  obtain r t where c: "create_partition (ev_ovf ev) (ev_deser ev) (ev_fs ev) topic' (partition_i32 b) (create_topic topic' (bk_storage b)) = (r, t)"
    by fastforce
  have "get_queue t topic pid = Some q"
    using create_partition_queue [OF c other [symmetric]] create_topic_queue [OF other [symmetric]] assms by (simp add: has_queue_def)
  then show ?thesis using False other c assms
    by (cases r) (simp_all add: ensure_topic_def topic_section_def has_queue_def hashmap_simps)
qed (use assms in \<open>simp add: ensure_topic_def\<close>)

section \<open>Properties\<close>

text \<open>
  Property C21: handlers that need the same topics do not get in each other's way. Whatever the order in
  which any number of calls of \<open>ensure_topic\<close> look, create and are overtaken, and whatever the rest of the
  broker does in between, the broker ends up in a state, and the calls with results, that the same run
  has with every call as one atomic step. And no late creator destroys a queue: the queue of a known topic,
  with the messages in it, stays as the rest of the broker leaves it, although \<open>create_topic\<close> of the
  storage would empty the topic.
\<close>

theorem concurrent_topic_creation:
  assumes "sections_run topic_look (topic_section ev) es (map (\<lambda>t. (t, Looking)) topics) b = (ts, b')"
  shows "(\<exists>es'. subseq es' es \<and> others es' = others es
       \<and> calls_run (ensure_topic ev) es' (map (\<lambda>t. (t, None)) topics) b = (map result_of ts, b'))
     \<and> (has_queue topic pid q b \<and> (\<forall>f \<in> set (others es). \<forall>c. has_queue topic pid q c \<longrightarrow> has_queue topic pid q (f c)) \<longrightarrow>
          has_queue topic pid q b')"
proof
  have "map result_of (map (\<lambda>t. (t, Looking)) topics) = map (\<lambda>t. (t, None :: unit outcome option)) topics" by simp
  then show "\<exists>es'. subseq es' es \<and> others es' = others es
       \<and> calls_run (ensure_topic ev) es' (map (\<lambda>t. (t, None)) topics) b = (map result_of ts, b')"
    using topic_creation.linearizable [OF assms] by (simp only:)
  show "has_queue topic pid q b \<and> (\<forall>f \<in> set (others es). \<forall>c. has_queue topic pid q c \<longrightarrow> has_queue topic pid q (f c)) \<longrightarrow>
      has_queue topic pid q b'"
    using topic_creation.sections_keep [OF assms, of "has_queue topic pid q"] ensure_topic_keeps by blast
qed

text \<open>All flushers that look for the channel at the same time get the same one, unless it is replaced meanwhile.\<close>

lemma concurrent_flusher_channel:
  assumes "sections_run (\<lambda>_ :: unit. channel_look) (\<lambda>_. channel_section) es (replicate n ((), Looking)) b = (ts, b')"
    and "others es = []" and "((), Finished c) \<in> set ts"
  shows "channel_look b' = Some c"
proof -
  let ?inv = "\<lambda>ts b. \<forall>x \<in> set ts. \<forall>c. x = ((), Finished c) \<longrightarrow> channel_look b = Some c"
  have "?inv ts' b'" if "sections_run (\<lambda>_ :: unit. channel_look) (\<lambda>_. channel_section) es ts b = (ts', b')"
      "others es = []" "?inv ts b" for es ts ts' b b'
    using that
  proof (induction "\<lambda>_ :: unit. channel_look" "\<lambda>_ :: unit. channel_section" es ts b rule: sections_run.induct)
    case (2 i es ts b)
    show ?case
    proof (cases "i < length ts")
      case True
      obtain ph where t: "ts ! i = ((), ph)" by (metis surj_pair unit.exhaust)
      obtain ph1 b1 where st: "section_step channel_look channel_section ph b = (ph1, b1)" by fastforce
      have own: "channel_look b1 = Some c" if "ph1 = Finished c" for c
        using st that 2(5) t nth_mem [OF True]
        by (cases ph) (auto simp: section_step_def channel_section_def channel_look_def hashmap_simps split: option.splits prod.splits)
      have kept: "channel_look b1 = Some c" if "channel_look b = Some c" for c
        using st that by (cases ph) (auto simp: section_step_def channel_section_def channel_look_def split: option.splits prod.splits)
      have "?inv (ts[i := ((), ph1)]) b1"
      proof (intro ballI allI impI)
        fix x c assume "x \<in> set (ts[i := ((), ph1)])" and x: "x = ((), Finished c)"
        then have "x = ((), ph1) \<or> x \<in> set ts" using set_update_subset_insert by fastforce
        then show "channel_look b1 = Some c" using own kept 2(5) x by blast
      qed
      then show ?thesis using 2 True t st by simp
    qed (use 2 in simp)
  qed simp_all
  from this [OF assms(1,2)] show ?thesis using assms(3) by auto
qed

text \<open>Two handlers see the same topic missing; the second creates nothing, and the queue of another topic stays.\<close>

theorem concurrent_topic_creation_witness:
  "\<exists>ts b'. sections_run topic_look (topic_section example_env) [Move 0, Move 1, Move 0, Other (\<lambda>b. b\<lparr>bk_draws := 7\<rparr>), Move 1]
       (map (\<lambda>t. (t, Looking)) [''t'', ''t'']) (example_broker\<lparr>bk_topics := [(''v'', [])],
          bk_storage := put_queue ''v'' 0 two_queue (create_topic ''v'' st_new)\<rparr>) = (ts, b')
     \<and> has_queue ''v'' 0 two_queue b'"
proof -
  let ?b = "example_broker\<lparr>bk_topics := [(''v'', [])], bk_storage := put_queue ''v'' 0 two_queue (create_topic ''v'' st_new)\<rparr>"
  let ?es = "[Move 0, Move 1, Move 0, Other (\<lambda>b. b\<lparr>bk_draws := 7\<rparr>), Move 1] :: broker turn list"
  obtain ts b' where run: "sections_run topic_look (topic_section example_env) ?es (map (\<lambda>t. (t, Looking)) [''t'', ''t'']) ?b = (ts, b')"
    by fastforce
  have "has_queue ''v'' 0 two_queue ?b"
    by (simp add: has_queue_def get_put_queue create_topic_def st_new_def with_retention_policy_def)
  moreover have "\<forall>f \<in> set (others ?es). \<forall>c. has_queue ''v'' 0 two_queue c \<longrightarrow> has_queue ''v'' 0 two_queue (f c)"
    by (simp add: has_queue_def)
  ultimately have "has_queue ''v'' 0 two_queue b'"
    using concurrent_topic_creation [OF run, of "''v''" 0 two_queue] by blast
  with run show ?thesis by blast
qed

end
