(* ===== verification/Unit_Tests.thy ===== *)
theory Unit_Tests
  imports Storage Health Monitoring Stream_Programs
begin

text \<open>
  The unit tests of the compiled crates, in \<^verbatim>\<open>storage/src/db.rs\<close>, \<^verbatim>\<open>core/src/health.rs\<close>,
  \<^verbatim>\<open>core/src/monitoring.rs\<close> and \<^verbatim>\<open>streams/src/simple_stream.rs\<close>, on the model: six of the eight test functions
  of the repository. The other two, \<open>test_map\<close> and \<open>test_filter\<close> of \<^verbatim>\<open>streams/src/stream.rs\<close>, are in a file that
  no crate includes, and assert nothing. A test is a run of calls and assertions; an assertion that
  fails and an \<open>unwrap\<close> of nothing panic. What the tests read of the clocks is an argument.
\<close>

definition assert_that :: "bool \<Rightarrow> unit outcome" where
  "assert_that p = (if p then Ret () else Panic)"

fun andthen :: "unit outcome \<Rightarrow> unit outcome \<Rightarrow> unit outcome" where
  "andthen (Ret _) r = r"
| "andthen Panic r = Panic"
| "andthen Block r = Block"

section \<open>The tests\<close>

definition test_basic_operations ::
  "bool \<Rightarrow> lock_policy \<Rightarrow> serialiser \<Rightarrow> deserialiser \<Rightarrow> (string \<Rightarrow> int \<Rightarrow> log_file option) \<Rightarrow> io_result \<Rightarrow> systime \<Rightarrow> systime \<Rightarrow>
   unit outcome" where
  "test_basic_operations ovf grant ser deser fs io now now' =
     (let s = create_topic ''test'' st_new; message = string_bytes ''hello world'' in
      case create_partition ovf deser fs ''test'' 0 s of
        (Ret created, s1) \<Rightarrow>
          andthen (assert_that created)
            (case st_append ovf grant ser io now now' ''test'' 0 message s1 of
               (Ret (Some off), s2) \<Rightarrow>
                 (case st_read grant ''test'' 0 off s2 of
                    Ret (Some (m # _)) \<Rightarrow> assert_that (sm_payload m = message)
                  | Ret _ \<Rightarrow> Panic
                  | Panic \<Rightarrow> Panic
                  | Block \<Rightarrow> Block)
             | (Ret None, s2) \<Rightarrow> Panic
             | (Panic, s2) \<Rightarrow> Panic
             | (Block, s2) \<Rightarrow> Block)
      | (Panic, s1) \<Rightarrow> Panic
      | (Block, s1) \<Rightarrow> Block)"

definition test_health_monitor :: "bool \<Rightarrow> check_order \<Rightarrow> (nat \<Rightarrow> systime) \<Rightarrow> unit outcome" where
  "test_health_monitor ovf \<pi> clock =
     (let m = register_check (hc_healthy (clock 1) ''storage'')
            (register_check (hc_healthy (clock 0) ''broker'') (hm_new (secs 5) 3))
      in andthen (assert_that (get_overall_status \<pi> m = Healthy))
           (case update_check ovf (clock 2) ''broker'' Unhealthy ''Connection lost'' m of
              (r, m1) \<Rightarrow> andthen r (assert_that (get_overall_status \<pi> m1 = Unhealthy))))"

definition test_heartbeat_manager :: "(nat \<Rightarrow> systime) \<Rightarrow> unit outcome" where
  "test_heartbeat_manager clock =
     (let h = record_heartbeat (clock 0) ''broker-1'' (hb_new (millis 100))
      in andthen (assert_that (is_alive (clock 1) ''broker-1'' h)) (assert_that (\<not> is_alive (clock 2) ''broker-1'' h)))"

definition test_rate_counter :: "rounding \<Rightarrow> bool \<Rightarrow> (nat \<Rightarrow> systime) \<Rightarrow> unit outcome" where
  "test_rate_counter fl ovf clock =
     (let c = (rc_increment ^^ 100) (rc_new (clock 0))
      in andthen (assert_that (rc_get_total c = 100))
           (case rc_get_rate fl ovf (clock 1) c of
              (Ret rate, _) \<Rightarrow> assert_that (rate > 0)
            | (Panic, _) \<Rightarrow> Panic
            | (Block, _) \<Rightarrow> Block))"

definition test_histogram :: "rounding \<Rightarrow> bool \<Rightarrow> unit outcome" where
  "test_histogram fl ovf =
     (case run_ops (map (hg_record ovf) [5, 25, 75, 150, 750]) (hg_new [10, 50, 100, 500, 1000]) of
        (r, h) \<Rightarrow>
          andthen r
            (case hg_get_average fl ovf h of
               Ret avg \<Rightarrow>
                 andthen (assert_that (avg > 0))
                   (case hg_get_percentile fl ovf (fl (1 / 2)) h of
                      Ret p50 \<Rightarrow> assert_that (p50 > 0)
                    | Panic \<Rightarrow> Panic
                    | Block \<Rightarrow> Block)
             | Panic \<Rightarrow> Panic
             | Block \<Rightarrow> Block))"

definition test_simple_stream :: "unit outcome" where
  "test_simple_stream =
     (let stream = ss_new ''127.0.0.1:50051'' in assert_that (ss_broker_address stream = ''127.0.0.1:50051''))"

section \<open>How the tests end\<close>

lemma test_basic_operations_blocks:
  assumes "exclusive_lock grant" and "pq_new ovf deser rp_default (fs ''test'' 0) = Ret q" and "in_s 64 (pq_next_offset q + 1)"
  shows "test_basic_operations ovf grant ser deser fs io now now' = Block"
proof -
  let ?s = "create_topic ''test'' st_new"
  let ?s1 = "put_queue ''test'' 0 q ?s" and ?m = "string_bytes ''hello world''"
  have topic: "hm_get (st_topics ?s) ''test'' = Some []" "st_retention_policy ?s = rp_default"
    by (simp_all add: create_topic_def st_new_def with_retention_policy_def)
  have part: "create_partition ovf deser fs ''test'' 0 ?s = (Ret True, ?s1)"
    using assms(2) topic by (simp add: create_partition_def)
  obtain r t where a: "st_append ovf grant ser io now now' ''test'' 0 ?m ?s1 = (r, t)" by fastforce
  have "get_queue ?s1 ''test'' 0 = Some q" using topic by (simp add: get_put_queue)
  then have "r = Block" using append_isolated [OF assms(1) a] assms(3) by simp
  then show ?thesis using part a by (simp add: test_basic_operations_def assert_that_def)
qed

lemma test_health_monitor_passes:
  assumes "hash_order \<pi>"
  shows "test_health_monitor ovf \<pi> clock = Ret ()"
  by (simp add: test_health_monitor_def register_check_def hm_new_def hc_healthy_def update_check_def count_failure_def
      overall_status_worst [OF assms] assert_that_def arith_u_def in_u_def)

lemma test_heartbeat_manager_passes:
  fixes clock :: "nat \<Rightarrow> systime"
  assumes "clock 0 \<le> clock 1" and "clock 1 < clock 0 + millis 100" and "clock 0 + millis 150 \<le> clock 2"
  shows "test_heartbeat_manager clock = Ret ()"
  using assms
  by (simp add: test_heartbeat_manager_def record_heartbeat_def hb_new_def is_alive_iff assert_that_def millis_def)

lemma rc_increments: "n < 2 ^ 64 \<Longrightarrow> (rc_increment ^^ n) (rc_new t) = \<lparr>rc_count = n, rc_last_count = 0, rc_last_update = t\<rparr>"
  by (induction n) (simp_all add: rc_new_def rc_increment_def rc_add_def wrap_u_def nat_add_distrib)

lemma test_rate_counter_fails:
  fixes clock :: "nat \<Rightarrow> systime"
  assumes "clock 0 \<le> clock 1" and "clock 1 < clock 0 + secs 1"
  shows "test_rate_counter fl ovf clock = Panic"
proof -
  have "nat (clock 1 - clock 0) div 1000000000 = 0" using assms by (intro div_less) (simp add: secs_def)
  then show ?thesis using assms(1)
    by (simp add: test_rate_counter_def rc_increments rc_get_total_def rc_get_rate_def duration_since_def as_secs_def assert_that_def Let_def)
qed

text \<open>Halves of integers with at most 53 bits are \<open>f64\<close> values, so rounding does not change them.\<close>

definition keeps_halves :: "rounding \<Rightarrow> bool" where
  "keeps_halves fl \<longleftrightarrow> (\<forall>n. \<bar>n\<bar> < 2 ^ 53 \<longrightarrow> fl (of_int n / 2) = of_int n / 2)"

lemma test_histogram_passes:
  assumes "keeps_halves fl"
  shows "test_histogram fl ovf = Ret ()"
proof -
  have fl: "fl (of_int n / 2) = of_int n / 2" if "\<bar>n\<bar> < 2 ^ 53" for n using assms that by (simp add: keeps_halves_def)
  have vals: "fl 660 = 660" "fl 5 = 5" "fl 132 = 132" "fl (1 / 2) = 1 / 2" "fl (5 / 2) = 5 / 2"
    using fl [of 1320] fl [of 10] fl [of 264] fl [of 1] fl [of 5] by simp_all
  have h: "run_ops (map (hg_record ovf) [5, 25, 75, 150, 750]) (hg_new [10, 50, 100, 500, 1000]) =
      (Ret (), \<lparr>hg_buckets = [1, 1, 1, 1, 1, 0], hg_bucket_bounds = [10, 50, 100, 500, 1000]\<rparr>)"
    by (simp add: hg_record_def hg_new_def bucket_index_def arith_u_def in_u_def)
  have two: "\<lfloor>5 / 2 :: rat\<rfloor> = 2" by (simp add: floor_eq_iff)
  show ?thesis unfolding test_histogram_def h
    by (simp add: two hg_get_average_def hg_get_percentile_def arith_u_def in_u_def bucket_value_def bounds_last_def
        percentile_target_def cast_u64_def vals assert_that_def)
qed

text \<open>
  How the six tests end. The two tests of the health and heartbeat managers, the test of the histogram and that of the
  simple stream pass: whatever order the hash map lists the checks in, and when the second look at the
  heartbeat comes at least 150 milliseconds after it was recorded. The test of the rate counter fails on its last
  assertion when its sleep of 100 milliseconds ends within a second, because the rate divides by whole seconds and is
  zero within the first. The storage test never ends: its one append takes the lock of the message map for writing
  and then again for reading, which a \<open>parking_lot\<close> lock never grants, whatever log the queue was opened with.
\<close>

lemma unit_tests_outcome:
  fixes heart rate :: "nat \<Rightarrow> systime"
  assumes "exclusive_lock grant" and "pq_new ovf deser rp_default (fs ''test'' 0) = Ret q" and "in_s 64 (pq_next_offset q + 1)"
    and "hash_order \<pi>"
    and "heart 0 \<le> heart 1" and "heart 1 < heart 0 + millis 100" and "heart 0 + millis 150 \<le> heart 2"
    and "rate 0 \<le> rate 1" and "rate 1 < rate 0 + secs 1"
    and "keeps_halves fl"
  shows "test_basic_operations ovf grant ser deser fs io now now' = Block
     \<and> test_health_monitor ovf \<pi> checks = Ret ()
     \<and> test_heartbeat_manager heart = Ret ()
     \<and> test_rate_counter fl ovf rate = Panic
     \<and> test_histogram fl ovf = Ret ()
     \<and> test_simple_stream = Ret ()"
  using test_basic_operations_blocks [where fs = fs, OF assms(1-3)] test_health_monitor_passes [OF assms(4)]
    test_heartbeat_manager_passes [where clock = heart, OF assms(5-7)]
    test_rate_counter_fails [where clock = rate, OF assms(8,9)]
    test_histogram_passes [OF assms(10)]
  by (simp add: test_simple_stream_def ss_new_def assert_that_def)

lemma unit_tests_outcome_example:
  "test_basic_operations True parking_lot small_ser small_deser (\<lambda>_ _. None) IoOk 5 5 = Block
     \<and> test_health_monitor True rev (\<lambda>_. 0) = Ret ()
     \<and> test_heartbeat_manager (\<lambda>n. millis 75 * int n) = Ret ()
     \<and> test_rate_counter (\<lambda>x. x) True (\<lambda>n. millis 100 * int n) = Panic
     \<and> test_histogram (\<lambda>x. x) True = Ret () \<and> test_simple_stream = Ret ()"
proof -
  obtain q where q: "pq_new True small_deser rp_default None = Ret q" "in_s 64 (pq_next_offset q + 1)"
    by (simp add: pq_new_def in_s_def)
  show ?thesis
    by (rule unit_tests_outcome [where fs = "\<lambda>_ _. None" and heart = "\<lambda>n. millis 75 * int n"
        and rate = "\<lambda>n. millis 100 * int n" and fl = "\<lambda>x. x" and \<pi> = rev, OF parking_lot_exclusive(1) q])
      (simp_all add: hash_order_def millis_def secs_def keeps_halves_def)
qed

end
