(* ===== verification/Spec2Isabelle.thy ===== *)
theory Spec2Isabelle
  imports Benchmark Stream_Pipeline Stream_Topology Concurrent_Creation Unit_Tests
begin

text \<open>
  \<^bold>\<open>Rafka: a verification development of the message broker.\<close>

  \<^bold>\<open>The program.\<close> Rafka is a partitioned message broker. A producer client sends \<open>publish\<close> calls over
  gRPC; the broker routes each message by the hash of its key, either to its own partition or, through
  the peer-to-peer mesh and the cluster table, to the broker that owns the partition. A message of the
  own partition goes into a batch; when the batch is full or old enough (tested by every publish and by
  a background flusher) it is framed by the zero-copy processor, appended to the partition queue with its
  write-ahead log, and handed to the broadcast channel on which the consumers wait. Consumers form
  groups, whose partitions are assigned by the group coordinator. Transactions, replication, compaction,
  health checks and monitoring are libraries that the broker creates; none of its handlers calls
  them. The streams library and the programs are built on the consumer and the producer.

  \<^bold>\<open>Theories and sources\<close> (under \<^verbatim>\<open>src/crates\<close> unless said otherwise), in the order of the imports.
  \<^item> \<open>Rafka_Prelude\<close>: the shared vocabulary. \<open>outcome\<close> (a value, a panic, or blocked for ever), the
    arithmetic of sized integers in both build profiles (\<open>arith_s\<close>, \<open>arith_u\<close>, \<open>wrap_s\<close>, \<open>wrap_u\<close>),
    clocks and durations in nanoseconds, hash maps as association lists with explicit iteration orders,
    sequences of operations (\<open>run_ops\<close>), and the interfaces \<open>length_prefix\<close>, \<open>invariant_system\<close> and
    others. \<open>Rafka_Proto\<close> has the messages of \<^verbatim>\<open>rafka.proto\<close> and \<^verbatim>\<open>core/src/message.rs\<close>, \<open>Utf8\<close> the lossy decoding of bytes.
  \<^item> \<open>Wal\<close>, \<open>Partition_Queue\<close>, \<open>Storage\<close>: \<^verbatim>\<open>storage/src/db.rs\<close>, its \<open>WalLog\<close>, \<open>PartitionQueue\<close> and
    \<open>Storage\<close>. Shown: the log round trip, recovery after restarts, the loss of the log by a torn last
    frame or a failing read, the effect of every operation, retention, acknowledgement and clean-up, ordered reads in every
    storage that is reached from empty log files by any calls and restarts (with writes that complete and
    logs that can be read); and that \<open>append\<close> takes the queue's lock twice and so never returns.
  \<^item> \<open>Transactions\<close>, \<open>Coordinator\<close>, \<open>Replication\<close>, \<open>Compaction\<close>, \<open>Batching\<close>: the files of the same names in
    \<^verbatim>\<open>broker/src\<close>. Shown: at most one commit with exactly the accepted writes and at most one active
    transaction per producer; fairness and uniqueness of the two assignments, the distribution of the
    leader's assignment and the fencing of old generations; a unique leader after an election; which
    entries the compaction strategies keep; that the batcher neither loses nor duplicates a message and
    that every waiting message becomes ready.
  \<^item> \<open>Zero_Copy\<close>, \<open>Memory_Pool\<close>, \<open>Cluster\<close>, \<open>Mesh\<close>, \<open>Health\<close>, \<open>Monitoring\<close>: the files of \<^verbatim>\<open>core/src\<close>
    (\<open>Mesh\<close> is \<^verbatim>\<open>p2p_mesh.rs\<close>). Shown: the framing round trip and the soundness of the parser; that pooled
    messages are clean; that the mesh forwards nothing but what is handed to \<open>broadcast_message\<close>, and that a re-synchronisation breaks routing; that the
    circuit breaker refines a count of consecutive failures; that the percentile of a histogram is the
    bucket bound of the order statistic.
  \<^item> \<open>Broker\<close>, \<open>Broker_Mesh\<close>: \<^verbatim>\<open>broker/src/broker.rs\<close>. \<open>Broker\<close> has the state, the message path, the
    flusher and the handlers that need no other broker; \<open>Broker_Mesh\<close> has the forwarding, \<open>publish\<close> itself,
    the mesh handlers and the start of the mesh. Shown: every key has one owner; a batch that fits its buffers stores exactly its first
    message; the acknowledgement of a publish precedes the storage and reports a counter that is no storage
    offset; a forwarded message goes to the owner known to the mesh; discovery deadlocks on the mesh lock, and so does a
    gossip call that comes while a forwarding task asks other nodes with the read guard held.
  \<^item> \<open>Broker_System\<close>: the broker as a transition system whose steps are all handlers and the flusher, and
    the invariant that nothing is ever broadcast.
  \<^item> \<open>Concurrent_Creation\<close>: handlers that create a topic or a channel at the same time, one guarded section
    of the code per step. Shown: every schedule has the results of a run with whole calls, and no late
    creator replaces a queue.
  \<^item> \<open>Federation\<close>: brokers that call each other's handlers. Shown: whatever is published in a network,
    only brokers that own one of the keys change their storage, topics and batches; a publish that is
    forwarded to a broker with a stored topic reaches its queue and its log and is not answered.
  \<^item> \<open>Zero_Copy_Race\<close>: two calls of \<open>process_batch\<close> on the shared processor, access by access. Shown: a call
    that is not interrupted equals the atomic one of \<open>Zero_Copy\<close>; two interleaved calls can both return
    the frames of the second batch.
  \<^item> \<open>Broker_Stall\<close>: clients, each one call after the other, and the flusher on one broker. Shown: \<open>n\<close> clients with
    small messages for its partition get at most \<open>99 * (n + 1)\<close> acknowledgements.
  \<^item> \<open>Producer\<close> (\<^verbatim>\<open>producer/src\<close>), \<open>Consumer\<close> (\<^verbatim>\<open>consumer/src/consumer.rs\<close>, run against the handlers of
    the broker), \<open>Delivery\<close> (\<open>MessageStream\<close> of \<^verbatim>\<open>broker.rs\<close> with the consumer's task). Shown: what a consumer
    records while consuming; a consumer that lags behind the channel once gets nothing more.
  \<^item> \<open>Streams\<close> (\<^verbatim>\<open>streams/src\<close>: operators, stores, windows and the loops of the simple processor) and
    \<open>Stream_Programs\<close> (the set-up of \<^verbatim>\<open>simple_stream.rs\<close> and \<^verbatim>\<open>builder.rs\<close> with the two clients). Shown: the
    running aggregates of a grouped stream equal a fold over the records of the key; a merge ends after all its
    items; what a branch yields; a processing stream publishes exactly the transformed messages.
  \<^item> \<open>Stream_Pipeline\<close>: the consumer's task and the task of a processing stream at the same time, with the
    bounded channel between them. Shown: in every order of their steps they come to rest within four steps for
    each message and two more, with all messages processed and the requests of the sequential run.
  \<^item> \<open>Stream_Topology\<close>: \<open>KStream\<close> and \<open>GroupedStream\<close> as values and \<open>StreamBuilder::stream\<close>. Shown: a stream that
    is mapped, filtered, grouped and counted publishes one running count for each record.
  \<^item> \<open>Unit_Tests\<close>: the six unit tests of \<^verbatim>\<open>db.rs\<close>, \<^verbatim>\<open>health.rs\<close>, \<^verbatim>\<open>monitoring.rs\<close> and \<^verbatim>\<open>simple_stream.rs\<close> on the model. Shown: four
    pass, the one of the rate counter fails, the one of the storage hangs.
  \<^item> \<open>Metrics_Registry\<close> (\<^verbatim>\<open>core/src/metrics.rs\<close>): the registry can be set up and its readings refine a plain
    record of counts, gauges and recorded latencies, of which a histogram shows the number, the sum and the counts per
    bucket. The prometheus crate is a record of calls with laws.
  \<^item> \<open>Programs\<close>, \<open>Benchmark\<close> (\<^verbatim>\<open>src/src/bin\<close>): the command lines and the main functions. Shown: the round
    trip of the broker's command line and its silent defaults; which started brokers own keys at all; the
    benchmark program has no endless loop of its own, and gets no figures from a fresh broker.

  \<^bold>\<open>How state and effects are modelled.\<close> A struct is a record with the source's fields, a method is a
  function of the state that returns its result and the new state. A lock whose acquisition order matters
  is part of the state (\<open>pq_lock\<close>, \<open>bk_mesh_lock\<close>), and a policy, a parameter, says whether it
  grants a request; the assumption \<open>exclusive_lock\<close> (\<open>tokio_rwlock\<close> for the mesh, whose state counts the
  readers and knows of a waiting writer) is the documented behaviour of the lock libraries. The other locks are released within the method that takes them, so a method
  is one step; \<open>Zero_Copy_Race\<close> and \<open>Concurrent_Creation\<close> look at the calls whose sections may interleave. Background tasks are one definition per round of their loop. What the code reads from outside is a
  stream indexed by the number of draws (\<open>env\<close>, \<open>net_env\<close>): clocks, identifiers, results of file
  operations, answers of other brokers (which may also never come, \<open>Waits\<close>), and what other tasks do while a handler
  waits. A remote service is an argument with a state of its own, instantiated by the broker's handlers in
  \<open>broker_client\<close>, \<open>linked\<close> and \<open>broker_rpc\<close>. The serialiser (with the
  law \<open>bincode_law\<close>), address parsing, the iteration order of hash maps and the rounding of floating-point
  numbers are parameters too.

  \<^bold>\<open>Interfaces.\<close> \<open>length_prefix\<close> is interpreted by the 64-bit frames of the log and the 32-bit frames of
  the zero-copy codec; \<open>fifo_buffer\<close> by the batcher and the window buffer of the streams; \<open>bounded_pool\<close> by
  the message pool and the connection pool; \<open>partition_assignor\<close> by the range and the round-robin assignment;
  \<open>state_store\<close> by the in-memory store; \<open>keyed_fold\<close> by the three aggregations; \<open>invariant_system\<close> by the
  storage, the group coordinator, the replication manager, the compaction manager, the message pool, the mesh,
  the broker and the two tasks of a processing stream; \<open>double_checked\<close> by the creation of topics and of
  channels; \<open>pure_operator\<close> by the operators of a stream that have no state and by the parser of the builder.

  \<^bold>\<open>Bounds and fuel.\<close> Offsets, counters and sizes keep their width: an overflow panics or wraps with the
  build profile, and theorems that exclude it say so. All loops are total functions; fuel is taken by the
  merge of two streams, for which \<open>|xs| + |ys| + 1\<close> is shown to be enough, and by the warm-up of the benchmark, for
  which 501 is, as each of its turns sleeps ten milliseconds of five seconds. The retry loops of the forwarding code have
  the fixed number of attempts of the source.

  \<^bold>\<open>Not modelled.\<close> The crate roots (module declarations and the call of the protobuf generator),
  \<^verbatim>\<open>operators.rs\<close> (declares modules that do not exist), the sockets of the gRPC and HTTP servers, logging and
  other output, and the two tests of \<^verbatim>\<open>stream.rs\<close>, which build a stream and assert nothing. \<^verbatim>\<open>stream.rs\<close> and \<^verbatim>\<open>builder.rs\<close> are
  declared by no module and do not type-check in three places: \<open>StreamBuilder::stream\<close> calls
  the consumer's constructor with one argument instead of two (that constructor is a parameter), \<open>to\<close> publishes on a shared producer,
  and \<open>group_by_key\<close> lacks a bound on the key; the last two have the meaning the code intends. The interleavings of handlers are modelled where a handler gives back a guard and
  takes it again (creation of topics and channels, the zero-copy processor) or waits (the forwarding
  code, the flusher beside clients, the tasks of a stream); everywhere else a handler is one step. A publish
  with all its accesses to the batcher, the processor and the storage interleaved with other publishes is
  not modelled: each of them stays for ever in its first append, so such a run adds to what \<open>Broker_Stall\<close>
  and \<open>Zero_Copy_Race\<close> show only the order in which the handlers get stuck.
\<close>

end
